(* ===== verification/Prelude.thy ===== *)
theory Prelude
  imports Main "HOL-Library.Word" "HOL-Library.Multiset"
begin

unbundle bit_operations_syntax

text \<open>
  Shared vocabulary of the development: the types that stand for the machine integers and byte
  strings of the C++ sources, the collections of simplification rules the component theories
  fill, and generic facts on lists, maps and words that several components need.

  A \<^typ>\<open>string\<close> (a list of 8-bit characters) is a \<^verbatim>\<open>std::string\<close>: a byte string, which
  may contain any byte including NUL, CR and LF.
\<close>

type_synonym u8 = "8 word"
type_synonym u16 = "16 word"
type_synonym u32 = "32 word"
type_synonym u64 = "64 word"

type_synonym bytes = string

named_theorems ht_simps "equations of the hash table operations"
named_theorems inv_intros "introduction rules for component invariants"
named_theorems codec_simps "round trip equations of the codecs"

section \<open>Lists\<close>

lemma mset_concat_update:
  assumes "i < length xss"
  shows "mset (concat (xss[i := c])) + mset (xss ! i) = mset (concat xss) + mset c"
  using assms
proof (induction xss arbitrary: i)
  case (Cons xs xss)
  then show ?case by (cases i) (auto simp: algebra_simps)
qed simp

lemma distinct_map_concat_indexed:
  assumes "\<forall>i < length xss. distinct (map f (xss ! i)) \<and> (\<forall>x \<in> set (xss ! i). g (f x) = off + i)"
  shows "distinct (map f (concat xss))"
  using assms
proof (induction xss arbitrary: off)
  case (Cons xs xss)
  have hd: "distinct (map f xs)" "\<forall>x \<in> set xs. g (f x) = off"
    using Cons.prems by (auto dest: spec [of _ 0])
  have tl: "\<forall>i < length xss. distinct (map f (xss ! i)) \<and> (\<forall>x \<in> set (xss ! i). g (f x) = Suc off + i)"
    using Cons.prems by (auto dest: spec [of _ "Suc _"])
  then have dist: "distinct (map f (concat xss))"
    by (rule Cons.IH)
  have "g (f x) > off" if "x \<in> set (concat xss)" for x
  proof -
    from that obtain xs where "xs \<in> set xss" "x \<in> set xs" by auto
    then obtain i where "i < length xss" "x \<in> set (xss ! i)" by (auto simp: in_set_conv_nth)
    with tl have "g (f x) = Suc off + i" by blast
    then show ?thesis by simp
  qed
  then have "f ` set xs \<inter> f ` set (concat xss) = {}"
    using hd(2) by fastforce
  then show ?case
    using hd(1) dist by simp
qed simp

lemma map_of_filter_key:
  "map_of (filter (\<lambda>p. P (fst p)) xs) k = (if P k then map_of xs k else None)"
  by (induction xs) auto

section \<open>Words\<close>

text \<open>
  Masking with \<open>size - 1\<close> is reduction modulo \<open>size\<close> when \<open>size\<close> is a power of two, also when
  the power exceeds the word width.
\<close>

lemma unat_and_of_nat_pow2_minus_1:
  fixes h :: "'a::len word"
  shows "unat (h AND (of_nat (2 ^ k) - 1)) = unat h mod 2 ^ k"
proof -
  have "of_nat (2 ^ k) - 1 = (mask k :: 'a word)"
    by (simp add: mask_eq_exp_minus_1)
  then have "h AND (of_nat (2 ^ k) - 1) = take_bit k h"
    by (simp add: take_bit_eq_mask)
  then have "unat (h AND (of_nat (2 ^ k) - 1)) = take_bit k (unat h)"
    by (simp only: unsigned_take_bit_eq)
  then show ?thesis
    by (simp only: take_bit_eq_mod)
qed

lemma unat_of_nat_u64: "n < 2 ^ 64 \<Longrightarrow> unat (of_nat n :: u64) = n"
  by (simp add: unat_of_nat take_bit_nat_eq_self_iff)

lemma xor_cancel:
  fixes a b c :: "'a::len word"
  shows "a XOR b = a XOR c \<longleftrightarrow> b = c" "b XOR a = c XOR a \<longleftrightarrow> b = c"
proof -
  have "b = c" if "a XOR b = a XOR c" for b c
  proof -
    have "a XOR (a XOR b) = a XOR (a XOR c)" using that by simp
    then show ?thesis by (simp flip: xor.assoc)
  qed
  then show "a XOR b = a XOR c \<longleftrightarrow> b = c" "b XOR a = c XOR a \<longleftrightarrow> b = c"
    by (auto simp: xor.commute [of _ a])
qed

end
