(* ===== verification/Std_Lib.thy ===== *)
theory Std_Lib
  imports Prelude
begin

text \<open>
  The parts of the C++ standard library the components use: searching and slicing of
  \<^verbatim>\<open>std::string\<close>, decimal printing (\<^verbatim>\<open>std::to_string\<close>), strict decimal parsing
  (\<^verbatim>\<open>std::from_chars\<close> with the checks that follow it at every call) and
  \<^verbatim>\<open>std::toupper\<close> in the C locale.
\<close>

section \<open>Searching and slicing\<close>

fun find_at :: "(bytes \<Rightarrow> bool) \<Rightarrow> bytes \<Rightarrow> nat \<Rightarrow> nat option" where
  "find_at P [] i = None"
| "find_at P (x # xs) i = (if P (x # xs) then Some i else find_at P xs (Suc i))"

text \<open>\<open>s.find(c, pos)\<close>; \<^const>\<open>None\<close> is \<^verbatim>\<open>npos\<close>.\<close>

definition find_char :: "char \<Rightarrow> bytes \<Rightarrow> nat \<Rightarrow> nat option" where
  "find_char c s pos = find_at (\<lambda>t. hd t = c) (drop pos s) pos"

text \<open>\<open>s.find(pat, pos)\<close> for a non-empty \<open>pat\<close>.\<close>

definition find_str :: "bytes \<Rightarrow> bytes \<Rightarrow> nat \<Rightarrow> nat option" where
  "find_str pat s pos = find_at (\<lambda>t. take (length pat) t = pat) (drop pos s) pos"

text \<open>\<open>s.substr(pos, n)\<close> for \<open>pos \<le> s.size()\<close>.\<close>

definition substr :: "bytes \<Rightarrow> nat \<Rightarrow> nat \<Rightarrow> bytes" where
  "substr s pos n = take n (drop pos s)"

lemma substr_middle: "substr (pre @ s @ post) (length pre) (length s) = s"
  by (simp add: substr_def)

definition crlf :: bytes where
  "crlf = [CHR 0x0D, CHR 0x0A]"

lemma find_at_Some:
  "find_at P xs i = Some j \<Longrightarrow>
     i \<le> j \<and> j < i + length xs \<and> P (drop (j - i) xs) \<and> (\<forall>k < j - i. \<not> P (drop k xs))"
proof (induction P xs i rule: find_at.induct)
  case (2 P x xs i)
  show ?case
  proof (cases "P (x # xs)")
    case False
    with 2 have *: "Suc i \<le> j" "j < Suc i + length xs" "P (drop (j - Suc i) xs)"
      "\<forall>k < j - Suc i. \<not> P (drop k xs)" by auto
    then have "j - i = Suc (j - Suc i)" by simp
    moreover have "\<not> P (drop k (x # xs))" if "k < j - i" for k
      using that False * by (cases k) auto
    ultimately show ?thesis using * by auto
  qed (use 2 in auto)
qed simp

lemma find_at_None: "find_at P xs i = None \<longleftrightarrow> (\<forall>k < length xs. \<not> P (drop k xs))"
proof (induction P xs i rule: find_at.induct)
  case (2 P x xs i)
  have "(\<forall>k < Suc (length xs). \<not> P (drop k (x # xs))) \<longleftrightarrow>
      \<not> P (x # xs) \<and> (\<forall>k < length xs. \<not> P (drop k xs))"
    by (auto simp: less_Suc_eq_0_disj)
  then show ?case using 2 by simp
qed simp

lemma find_at_append:
  "\<forall>k < length xs. \<not> P (drop k (xs @ ys)) \<Longrightarrow> find_at P (xs @ ys) i = find_at P ys (i + length xs)"
proof (induction xs arbitrary: i)
  case (Cons x xs)
  have "\<not> P (x # xs @ ys)" using Cons.prems by auto
  moreover have "\<forall>k < length xs. \<not> P (drop k (xs @ ys))" using Cons.prems by auto
  ultimately show ?case using Cons.IH [of "Suc i"] by simp
qed simp

lemma find_char_append:
  assumes "c \<notin> set xs" "pos = length pre"
  shows "find_char c (pre @ xs @ c # ys) pos = Some (pos + length xs)"
proof -
  have "\<forall>k < length xs. \<not> hd (drop k (xs @ c # ys)) = c"
    using assms(1) by (auto simp: hd_drop_conv_nth nth_append)
  from find_at_append [OF this] show ?thesis
    using assms(2) by (simp add: find_char_def)
qed

lemma find_char_None: "find_char c s pos = None \<longleftrightarrow> c \<notin> set (drop pos s)"
  by (auto simp: find_char_def find_at_None hd_drop_conv_nth in_set_conv_nth add.commute)

lemma find_char_Some:
  assumes "find_char c s pos = Some i"
  shows "pos \<le> i" "i < length s" "s ! i = c" "c \<notin> set (take (i - pos) (drop pos s))"
proof -
  have *: "pos \<le> i" "i < pos + length (drop pos s)" "hd (drop (i - pos) (drop pos s)) = c"
    "\<forall>k < i - pos. hd (drop k (drop pos s)) \<noteq> c"
    using find_at_Some [OF assms [unfolded find_char_def]] by blast+
  show "pos \<le> i" "i < length s" using * by auto
  then show "s ! i = c" using *(3) by (simp add: hd_drop_conv_nth)
  show "c \<notin> set (take (i - pos) (drop pos s))"
  proof
    assume "c \<in> set (take (i - pos) (drop pos s))"
    then obtain k where "k < i - pos" "k < length (drop pos s)" "drop pos s ! k = c"
      by (auto simp: in_set_conv_nth)
    then show False using *(4) hd_drop_conv_nth by metis
  qed
qed

lemma find_char_bounds: "find_char c s pos = Some i \<Longrightarrow> pos \<le> i \<and> i < length s"
  by (blast dest: find_char_Some(1,2))

lemma find_crlf_append:
  assumes "CHR 0x0D \<notin> set xs" "pos = length pre"
  shows "find_str crlf (pre @ xs @ crlf @ ys) pos = Some (pos + length xs)"
proof -
  have "\<forall>k < length xs. \<not> take (length crlf) (drop k (xs @ crlf @ ys)) = crlf"
  proof (intro allI impI notI)
    fix k assume k: "k < length xs" and eq: "take (length crlf) (drop k (xs @ crlf @ ys)) = crlf"
    have "xs ! k = hd (take (length crlf) (drop k (xs @ crlf @ ys)))"
      using k by (simp add: crlf_def hd_drop_conv_nth nth_append take_Suc)
    also have "\<dots> = CHR 0x0D" by (subst eq) (simp add: crlf_def)
    finally show False using assms(1) k nth_mem by metis
  qed
  from find_at_append [OF this] show ?thesis
    using assms(2) by (simp add: find_str_def crlf_def)
qed

text \<open>
  A search that is not finished yet: a text with no CR in it, possibly followed by one CR at the
  very end, has no CRLF.
\<close>

lemma find_crlf_None:
  assumes "CHR 0x0D \<notin> set xs" "pos = length pre" "ys = [] \<or> ys = [CHR 0x0D]"
  shows "find_str crlf (pre @ xs @ ys) pos = None"
proof -
  have "take (Suc (Suc 0)) (drop k (xs @ ys)) \<noteq> crlf" if "k < length (xs @ ys)" for k
  proof
    assume eq: "take (Suc (Suc 0)) (drop k (xs @ ys)) = crlf"
    have len: "Suc k < length (xs @ ys)"
      using arg_cong [OF eq, of length] by (simp add: crlf_def min_def split: if_splits)
    then have k: "k < length xs" using assms(3) by auto
    have "xs ! k = hd (take (Suc (Suc 0)) (drop k (xs @ ys)))"
      using k by (simp add: hd_drop_conv_nth nth_append take_Suc)
    also have "\<dots> = CHR 0x0D" by (subst eq) (simp add: crlf_def)
    finally show False using assms(1) k nth_mem by metis
  qed
  then show ?thesis using assms(2) by (simp add: find_str_def find_at_None crlf_def)
qed

text \<open>A match that was found stays the first one when more text is appended.\<close>

lemma find_str_Some:
  assumes "find_str pat s pos = Some i" "pat \<noteq> []"
  shows "pos \<le> i" "i + length pat \<le> length s" "take (length pat) (drop i s) = pat"
    "\<And>k. pos \<le> k \<Longrightarrow> k < i \<Longrightarrow> take (length pat) (drop k s) \<noteq> pat"
proof -
  have *: "pos \<le> i" "i < pos + length (drop pos s)"
    "take (length pat) (drop (i - pos) (drop pos s)) = pat"
    "\<forall>k < i - pos. take (length pat) (drop k (drop pos s)) \<noteq> pat"
    using find_at_Some [OF assms(1) [unfolded find_str_def]] by blast+
  show "pos \<le> i" by (fact *(1))
  show m: "take (length pat) (drop i s) = pat" using *(1,3) by simp
  have "length (take (length pat) (drop i s)) = length pat" by (simp only: m)
  then show "i + length pat \<le> length s" using * assms(2) by (cases pat) auto
  show "take (length pat) (drop k s) \<noteq> pat" if "pos \<le> k" "k < i" for k
    using *(4) [rule_format, of "k - pos"] that by simp
qed

lemma find_str_SomeI:
  assumes "pos \<le> i" "i < length s" "take (length pat) (drop i s) = pat"
    and first: "\<And>k. pos \<le> k \<Longrightarrow> k < i \<Longrightarrow> take (length pat) (drop k s) \<noteq> pat"
  shows "find_str pat s pos = Some i"
proof -
  let ?P = "\<lambda>t. take (length pat) t = pat"
  define xs where "xs = take (i - pos) (drop pos s)"
  have split: "drop pos s = xs @ drop i s"
    using append_take_drop_id [of "i - pos" "drop pos s"] assms(1) by (simp add: xs_def)
  have len: "length xs = i - pos" using assms(1,2) by (simp add: xs_def)
  have "\<forall>k < length xs. \<not> ?P (drop k (xs @ drop i s))"
    unfolding split [symmetric] len using first [of "_ + pos"] assms(1) by auto
  from find_at_append [where P = ?P, OF this]
  have "find_str pat s pos = find_at ?P (drop i s) (pos + length xs)"
    by (simp add: find_str_def split)
  also have "\<dots> = Some i"
    using assms(1-3) len by (cases "drop i s") auto
  finally show ?thesis .
qed

lemma find_str_stable:
  assumes "find_str pat s pos = Some i" "pat \<noteq> []"
  shows "find_str pat (s @ more) pos = Some i"
proof (rule find_str_SomeI)
  note f = find_str_Some [OF assms]
  show "pos \<le> i" by (fact f(1))
  show "i < length (s @ more)" using f(2) assms(2) by (cases pat) auto
  show "take (length pat) (drop i (s @ more)) = pat" using f(2,3) by simp
  show "take (length pat) (drop k (s @ more)) \<noteq> pat" if "pos \<le> k" "k < i" for k
    using f(2) f(4) [OF that] that by simp
qed

section \<open>Decimal numbers\<close>

definition digit_char :: "nat \<Rightarrow> char" where
  "digit_char d = char_of (48 + d)"

definition is_digit :: "char \<Rightarrow> bool" where
  "is_digit c \<longleftrightarrow> 48 \<le> (of_char c :: nat) \<and> (of_char c :: nat) \<le> 57"

definition digit_val :: "char \<Rightarrow> nat" where
  "digit_val c = of_char c - 48"

text \<open>\<open>std::to_string\<close> of an unsigned and of a signed integer.\<close>

fun to_string_nat :: "nat \<Rightarrow> bytes" where
  "to_string_nat n =
     (if n < 10 then [digit_char n] else to_string_nat (n div 10) @ [digit_char (n mod 10)])"

declare to_string_nat.simps [simp del]

definition to_string_int :: "int \<Rightarrow> bytes" where
  "to_string_int z = (if z < 0 then CHR ''-'' # to_string_nat (nat (- z)) else to_string_nat (nat z))"

definition digits_val :: "bytes \<Rightarrow> nat" where
  "digits_val ds = foldl (\<lambda>v c. 10 * v + digit_val c) 0 ds"

text \<open>
  \<open>std::from_chars\<close> into an unsigned type of at most \<open>hi\<close>: the longest run of digits is read;
  no digits is an invalid argument, a value above \<open>hi\<close> is out of range. At every call the result
  counts only if the whole text was consumed, which \<open>parse_uint\<close> includes.
\<close>

datatype from_chars_result = InvalidArgument | OutOfRange | Parsed int nat

definition from_chars_unsigned :: "nat \<Rightarrow> bytes \<Rightarrow> from_chars_result" where
  "from_chars_unsigned hi s =
     (let ds = takeWhile is_digit s in
      if ds = [] then InvalidArgument
      else if digits_val ds > hi then OutOfRange
      else Parsed (int (digits_val ds)) (length ds))"

text \<open>Into a signed type of the range \<open>lo..hi\<close>: one minus sign may come first.\<close>

definition from_chars_signed :: "int \<Rightarrow> int \<Rightarrow> bytes \<Rightarrow> from_chars_result" where
  "from_chars_signed lo hi s =
     (let neg = (s \<noteq> [] \<and> hd s = CHR ''-'');
          ds = takeWhile is_digit (if neg then tl s else s);
          v = (if neg then - int (digits_val ds) else int (digits_val ds)) in
      if ds = [] then InvalidArgument
      else if v < lo \<or> hi < v then OutOfRange
      else Parsed v (length ds + (if neg then 1 else 0)))"

definition parse_uint :: "nat \<Rightarrow> bytes \<Rightarrow> nat option" where
  "parse_uint hi s =
     (case from_chars_unsigned hi s of
        Parsed v n \<Rightarrow> if n = length s \<and> s \<noteq> [] then Some (nat v) else None
      | _ \<Rightarrow> None)"

definition int64_min :: int where "int64_min = - 9223372036854775808"
definition int64_max :: int where "int64_max = 9223372036854775807"
definition uint64_max :: nat where "uint64_max = 18446744073709551615"

definition parse_int64 :: "bytes \<Rightarrow> int option" where
  "parse_int64 s =
     (case from_chars_signed int64_min int64_max s of
        Parsed v n \<Rightarrow> if n = length s \<and> s \<noteq> [] then Some v else None
      | _ \<Rightarrow> None)"

lemma digit_char_literals [simp]:
  "digit_char 0 = CHR ''0''" "digit_char (Suc 0) = CHR ''1''" "digit_char 1 = CHR ''1''"
  "digit_char 2 = CHR ''2''" "digit_char 3 = CHR ''3''" "digit_char 4 = CHR ''4''"
  "digit_char 5 = CHR ''5''" "digit_char 6 = CHR ''6''" "digit_char 7 = CHR ''7''"
  "digit_char 8 = CHR ''8''" "digit_char 9 = CHR ''9''"
  by code_simp+

lemma is_digit_digit_char [simp]: "d < 10 \<Longrightarrow> is_digit (digit_char d)"
  by (simp add: is_digit_def digit_char_def)

lemma digit_val_digit_char [simp]: "d < 10 \<Longrightarrow> digit_val (digit_char d) = d"
  by (simp add: digit_val_def digit_char_def)

lemma digits_val_snoc: "digits_val (ds @ [c]) = 10 * digits_val ds + digit_val c"
  by (simp add: digits_val_def)

lemma to_string_nat_digits: "c \<in> set (to_string_nat n) \<Longrightarrow> is_digit c"
proof (induction n rule: to_string_nat.induct)
  case (1 n)
  then show ?case
    by (subst (asm) (2) to_string_nat.simps) (auto split: if_splits)
qed

lemma to_string_nat_not_Nil [simp]: "to_string_nat n \<noteq> []"
  by (subst to_string_nat.simps) simp

lemma digits_val_to_string_nat [simp]: "digits_val (to_string_nat n) = n"
proof (induction n rule: to_string_nat.induct)
  case (1 n)
  then show ?case
    by (subst to_string_nat.simps) (auto simp: digits_val_snoc, simp add: digits_val_def)
qed

lemma takeWhile_digits_to_string_nat [simp]: "takeWhile is_digit (to_string_nat n) = to_string_nat n"
  by (simp add: to_string_nat_digits)

lemma hd_to_string_nat: "is_digit (hd (to_string_nat n))"
  by (rule to_string_nat_digits [where n = n]) simp

lemma parse_uint_to_string: "n \<le> hi \<Longrightarrow> parse_uint hi (to_string_nat n) = Some n"
  by (simp add: parse_uint_def from_chars_unsigned_def)

lemma minus_not_digit: "\<not> is_digit (CHR ''-'')"
  by (simp add: is_digit_def)

lemma parse_int64_to_string:
  assumes "int64_min \<le> z" "z \<le> int64_max"
  shows "parse_int64 (to_string_int z) = Some z"
proof (cases "z < 0")
  case False
  have "hd (to_string_nat (nat z)) \<noteq> CHR ''-''" using hd_to_string_nat minus_not_digit by metis
  then show ?thesis using False assms
    by (simp add: parse_int64_def from_chars_signed_def to_string_int_def Let_def)
qed (use assms in \<open>simp add: parse_int64_def from_chars_signed_def to_string_int_def Let_def\<close>)

lemma parse_int64_range: "parse_int64 s = Some z \<Longrightarrow> int64_min \<le> z \<and> z \<le> int64_max"
  by (auto simp: parse_int64_def from_chars_signed_def Let_def
      split: from_chars_result.splits if_splits)

section \<open>Characters\<close>

definition toupper :: "char \<Rightarrow> char" where
  "toupper c = (if 97 \<le> (of_char c :: nat) \<and> (of_char c :: nat) \<le> 122 then char_of ((of_char c :: nat) - 32) else c)"

definition to_upper :: "bytes \<Rightarrow> bytes" where
  "to_upper s = map toupper s"

section \<open>Bytes\<close>

text \<open>\<open>static_cast<uint8_t>(c)\<close> in a wider type, and \<open>static_cast<char>(w)\<close>, which keeps the low byte.\<close>

definition byte_of :: "char \<Rightarrow> 'a::len word" where
  "byte_of c = of_nat (of_char c)"

definition to_char :: "'a::len word \<Rightarrow> char" where
  "to_char w = char_of (unat w)"

lemma of_char_less_256: "(of_char c :: nat) < 256"
  using of_char_mod_256 [of c, where 'a = nat] mod_less_divisor [of 256 "of_char c :: nat"] by linarith

lemma byte_of_to_char: "8 \<le> LENGTH('a) \<Longrightarrow> byte_of (to_char (w :: 'a::len word)) = take_bit 8 w"
proof -
  assume "8 \<le> LENGTH('a)"
  have "of_nat (take_bit 8 (unat w)) = (take_bit 8 w :: 'a word)"
    by (simp only: take_bit_of_nat [symmetric] of_nat_unat ucast_id)
  moreover have "take_bit 8 (unat w) = unat w mod 256" by (simp add: take_bit_eq_mod)
  ultimately show ?thesis by (simp only: byte_of_def to_char_def of_char_of)
qed

lemma unat_byte_of: "8 \<le> LENGTH('a) \<Longrightarrow> unat (byte_of c :: 'a::len word) = of_char c"
proof -
  assume "8 \<le> LENGTH('a)"
  then have "(2::nat) ^ 8 \<le> 2 ^ LENGTH('a)" by (rule power_increasing) simp
  then have "256 \<le> (2::nat) ^ LENGTH('a)" by simp
  then have "(of_char c :: nat) < 2 ^ LENGTH('a)" using of_char_less_256 [of c] by linarith
  then show ?thesis by (simp add: byte_of_def unat_of_nat take_bit_nat_eq_self_iff)
qed

lemma to_char_byte_of: "8 \<le> LENGTH('a) \<Longrightarrow> to_char (byte_of c :: 'a::len word) = c"
  by (simp add: to_char_def unat_byte_of)

lemma byte_of_inj: "8 \<le> LENGTH('a) \<Longrightarrow> (byte_of c :: 'a::len word) = byte_of d \<longleftrightarrow> c = d"
  by (metis to_char_byte_of)

lemma take_bit_byte_of: "8 \<le> LENGTH('a) \<Longrightarrow> take_bit 8 (byte_of c :: 'a::len word) = byte_of c"
  by (metis byte_of_to_char to_char_byte_of)

lemma bit_byte_of: "bit (byte_of c :: 'a::len word) n \<Longrightarrow> 8 \<le> LENGTH('a) \<Longrightarrow> n < 8"
  by (metis bit_take_bit_iff take_bit_byte_of)

end
