(* ===== verification/Snapshot_Codec.thy ===== *)
theory Snapshot_Codec
  imports Std_Lib
begin

text \<open>
  The encodings of \<^verbatim>\<open>snapshot.cpp\<close>: the streaming CRC-32, LEB128 varints, fixed-width
  little-endian integers, and the payload of DUMP and RESTORE. Encoding and decoding are shown to
  be inverse to each other, and the checksum to catch every change of a single byte.
\<close>

section \<open>CRC-32\<close>

definition kVersion :: u8 where "kVersion = 1"
definition kOpString :: u8 where "kOpString = 0"
definition kOpExpireMs :: u8 where "kOpExpireMs = 0xFC"
definition kOpEof :: u8 where "kOpEof = 0xFF"
definition kMaxVarintBytes :: nat where "kMaxVarintBytes = 10"

definition crc32_bit :: "u32 \<Rightarrow> u32" where
  "crc32_bit c = (if c AND 1 \<noteq> 0 then 0xEDB88320 XOR drop_bit 1 c else drop_bit 1 c)"

definition crc32_table :: "u32 list" where
  "crc32_table = map (\<lambda>i. (crc32_bit ^^ 8) (of_nat i)) [0..<256]"

definition crc32_step :: "u32 \<Rightarrow> char \<Rightarrow> u32" where
  "crc32_step crc c = crc32_table ! unat ((crc XOR byte_of c) AND 0xFF) XOR drop_bit 8 crc"

definition crc32_update :: "u32 \<Rightarrow> bytes \<Rightarrow> u32" where
  "crc32_update crc data = NOT (foldl crc32_step (NOT crc) data)"

lemma crc32_update_append: "crc32_update crc (a @ b) = crc32_update (crc32_update crc a) b"
  by (simp add: crc32_update_def)

lemma crc32_update_Nil [simp]: "crc32_update crc [] = crc"
  by (simp add: crc32_update_def)

text \<open>
  A step of the table-driven loop is eight steps of the bitwise definition, and one of those loses
  nothing: the top bit of its result tells whether the polynomial was added.
\<close>

lemma and_1_bit: "w AND 1 \<noteq> 0 \<longleftrightarrow> bit w 0" for w :: u32
  by (simp add: and_one_eq bit_0 odd_iff_mod_2_eq_one)

lemma crc32_bit_if: "crc32_bit w = (if bit w 0 then 0xEDB88320 XOR drop_bit 1 w else drop_bit 1 w)"
  unfolding crc32_bit_def and_1_bit ..

lemma crc32_bit_xor: "crc32_bit (a XOR b) = crc32_bit a XOR crc32_bit b"
  unfolding crc32_bit_if
  by (simp only: bit_xor_iff drop_bit_xor) (auto simp: xor.assoc xor.left_commute xor.commute)

lemma crc32_bit_funpow_xor: "(crc32_bit ^^ n) (a XOR b) = (crc32_bit ^^ n) a XOR (crc32_bit ^^ n) b"
  by (induction n) (simp_all add: crc32_bit_xor)

lemma crc32_bit_inj: "crc32_bit a = crc32_bit b \<longleftrightarrow> a = b"
proof
  assume eq: "crc32_bit a = crc32_bit b"
  have top: "bit (crc32_bit w) 31 = bit w 0" for w
  proof -
    have "\<not> bit (drop_bit 1 w) 31" by (auto simp: bit_drop_bit_eq dest: bit_imp_le_length)
    moreover have "bit (0xEDB88320 :: u32) 31" by code_simp
    ultimately show ?thesis by (simp only: crc32_bit_if bit_xor_iff split: if_split) blast
  qed
  have low: "bit a 0 = bit b 0" using top [of a] top [of b] eq by simp
  then have rest: "drop_bit 1 a = drop_bit 1 b"
    using eq unfolding crc32_bit_if by (simp add: xor_cancel split: if_splits)
  show "a = b"
  proof (rule bit_word_eqI)
    fix n show "bit a n = bit b n"
    proof (cases n)
      case (Suc m)
      have "bit (drop_bit 1 a) m = bit (drop_bit 1 b) m" using rest by simp
      then show ?thesis using Suc by (simp add: bit_drop_bit_eq)
    qed (use low in simp)
  qed
qed simp

lemma crc32_bit_funpow_inj: "(crc32_bit ^^ n) a = (crc32_bit ^^ n) b \<longleftrightarrow> a = b"
  by (induction n) (simp_all add: crc32_bit_inj)

lemma crc32_bit_funpow_high:
  "(\<And>i. i < n \<Longrightarrow> \<not> bit w i) \<Longrightarrow> (crc32_bit ^^ n) w = drop_bit n w"
proof (induction n)
  case (Suc n)
  then have "(crc32_bit ^^ n) w = drop_bit n w" by simp
  moreover have "\<not> bit (drop_bit n w) 0" using Suc.prems [of n] by (simp add: bit_drop_bit_eq)
  then have "crc32_bit (drop_bit n w) = drop_bit (Suc n) w" by (simp add: crc32_bit_if)
  ultimately show ?case by simp
qed simp

lemma crc32_step_bitwise: "crc32_step crc c = (crc32_bit ^^ 8) (crc XOR byte_of c)"
proof -
  define t where "t = (crc XOR byte_of c) AND 0xFF"
  define hi where "hi = push_bit 8 (drop_bit 8 crc)"
  have mask: "(0xFF :: u32) = mask 8" by (simp add: mask_eq_exp_minus_1)
  have t: "t = take_bit 8 (crc XOR byte_of c)"
    unfolding t_def mask by (simp add: take_bit_eq_mask)
  have "unat t < 256"
    unfolding t unsigned_take_bit_eq
    using take_bit_nat_less_exp [of 8 "unat (crc XOR byte_of c)"] by simp
  then have tab: "crc32_table ! unat t = (crc32_bit ^^ 8) t"
    by (simp add: crc32_table_def del: funpow.simps)
  have byte: "\<not> bit (byte_of c :: u32) n" if "8 \<le> n" for n
    using that bit_byte_of [of c n, where 'a = 32] by auto
  have split: "crc XOR byte_of c = t XOR hi"
    unfolding t hi_def
    by (rule bit_word_eqI)
      (use byte in \<open>auto simp: bit_xor_iff bit_push_bit_iff bit_take_bit_iff bit_drop_bit_eq\<close>)
  have "(crc32_bit ^^ 8) hi = drop_bit 8 hi"
    by (rule crc32_bit_funpow_high) (simp add: hi_def bit_push_bit_iff)
  moreover have "drop_bit 8 hi = drop_bit 8 crc"
    unfolding hi_def
    by (rule bit_word_eqI) (auto simp: bit_push_bit_iff bit_drop_bit_eq dest: bit_imp_le_length)
  moreover have "crc32_step crc c = (crc32_bit ^^ 8) t XOR drop_bit 8 crc"
    unfolding crc32_step_def t_def [symmetric] tab ..
  ultimately show ?thesis unfolding split crc32_bit_funpow_xor by (simp only:)
qed

lemma crc32_step_inj_crc: "crc32_step a c = crc32_step b c \<longleftrightarrow> a = b"
  unfolding crc32_step_bitwise crc32_bit_funpow_inj by (simp add: xor_cancel)

lemma crc32_step_inj_char: "crc32_step a c = crc32_step a d \<longleftrightarrow> c = d"
  unfolding crc32_step_bitwise crc32_bit_funpow_inj xor_cancel by (rule byte_of_inj) simp

lemma crc32_fold_inj: "foldl crc32_step a data = foldl crc32_step b data \<longleftrightarrow> a = b"
  by (induction data arbitrary: a b) (simp_all add: crc32_step_inj_crc)

lemma crc32_byte_change:
  assumes "c \<noteq> d"
  shows "crc32_update crc (pre @ c # post) \<noteq> crc32_update crc (pre @ d # post)"
proof -
  have "foldl crc32_step (NOT crc) (pre @ c # post) \<noteq> foldl crc32_step (NOT crc) (pre @ d # post)"
    using assms by (simp add: crc32_fold_inj crc32_step_inj_char)
  then show ?thesis by (metis crc32_update_def bit.double_compl)
qed

section \<open>Integers\<close>

text \<open>LEB128: seven bits a byte, the high bit set on all but the last.\<close>

function put_varint :: "u64 \<Rightarrow> bytes" where
  "put_varint v =
     (let byte = v AND 0x7F; v' = drop_bit 7 v in
      if v' \<noteq> 0 then to_char (byte OR 0x80) # put_varint v' else [to_char byte])"
  by pat_completeness auto
termination
proof (relation "measure unat", goal_cases)
  case (2 v x y)
  have "unat (drop_bit 7 v) = unat v div 128" by (simp only: unat_drop_bit_eq drop_bit_eq_div [where 'a = nat]) simp
  moreover have "v \<noteq> 0" using 2 by auto
  then have "0 < unat v" by (simp add: unat_gt_0)
  ultimately show ?case using 2 by simp
qed simp

declare put_varint.simps [simp del]

text \<open>
  The reading loop, at byte \<open>i\<close> with value \<open>v\<close> so far: the value and what is left of the input.
  \<^const>\<open>None\<close> is the end of the input or the tenth byte still asking for more.
\<close>

fun get_varint_loop :: "nat \<Rightarrow> nat \<Rightarrow> u64 \<Rightarrow> bytes \<Rightarrow> (u64 \<times> bytes) option" where
  "get_varint_loop 0 i v s = None"
| "get_varint_loop (Suc n) i v s =
     (case s of
        [] \<Rightarrow> None
      | c # s \<Rightarrow>
          (let byte = byte_of c; v = v OR push_bit (7 * i) (byte AND 0x7F) in
           if byte AND 0x80 = 0 then Some (v, s) else get_varint_loop n (Suc i) v s))"

definition get_varint :: "bytes \<Rightarrow> (u64 \<times> bytes) option" where
  "get_varint s = get_varint_loop kMaxVarintBytes 0 0 s"

text \<open>Little-endian integers of a given number of bytes, of 64 and of 32 bits.\<close>

definition put_fixed :: "'a::len word \<Rightarrow> nat \<Rightarrow> bytes" where
  "put_fixed v n = map (\<lambda>i. to_char (drop_bit (8 * i) v AND 0xFF)) [0..<n]"

definition get_fixed_value :: "bytes \<Rightarrow> 'a::len word" where
  "get_fixed_value s = foldl (\<lambda>v i. v OR push_bit (8 * i) (byte_of (s ! i))) 0 [0..<length s]"

lemma and_0x7F: "(v :: u64) AND 0x7F = take_bit 7 v"
  by (simp add: take_bit_eq_mask mask_eq_exp_minus_1)

lemma and_0xFF: "v AND 0xFF = take_bit 8 v" for v :: "'a::len word"
proof -
  have "(0xFF :: 'a word) = 2 ^ 8 - 1" by (simp add: eq_diff_eq)
  then show ?thesis by (simp only: take_bit_eq_mask mask_eq_exp_minus_1)
qed

lemma and_0x80: "(v :: u64) AND 0x80 = 0 \<longleftrightarrow> \<not> bit v 7"
proof -
  have "(0x80 :: u64) = 2 ^ 7" by simp
  then show ?thesis by (metis and_exp_eq_0_iff_not_bit)
qed

lemma varint_byte:
  "byte_of (to_char (take_bit 7 v OR 0x80 :: u64)) AND (0x7F :: u64) = take_bit 7 v"
  "byte_of (to_char (take_bit 7 v OR 0x80 :: u64)) AND (0x80 :: u64) \<noteq> 0"
  "byte_of (to_char (take_bit 7 v :: u64)) AND (0x7F :: u64) = take_bit 7 v"
  "byte_of (to_char (take_bit 7 v :: u64)) AND (0x80 :: u64) = 0"
proof -
  have b: "byte_of (to_char (w :: u64)) = take_bit 8 w" for w by (rule byte_of_to_char) simp
  have n: "(0x80 :: u64) = push_bit 7 1" by simp
  show "byte_of (to_char (take_bit 7 v OR 0x80 :: u64)) AND (0x7F :: u64) = take_bit 7 v"
    unfolding b and_0x7F n
    by (rule bit_word_eqI) (auto simp: bit_take_bit_iff bit_or_iff bit_push_bit_iff bit_1_iff simp del: push_bit_numeral)
  show "byte_of (to_char (take_bit 7 v OR 0x80 :: u64)) AND (0x80 :: u64) \<noteq> 0"
    unfolding b and_0x80
    unfolding n
    by (simp add: bit_take_bit_iff bit_or_iff bit_push_bit_iff bit_1_iff del: push_bit_numeral push_bit_of_1)
  show "byte_of (to_char (take_bit 7 v :: u64)) AND (0x7F :: u64) = take_bit 7 v"
    unfolding b and_0x7F by simp
  show "byte_of (to_char (take_bit 7 v :: u64)) AND (0x80 :: u64) = 0"
    unfolding b and_0x80 by (simp add: bit_take_bit_iff)
qed

lemmas varint_bytes = varint_byte varint_byte(1,3) [unfolded and_0x7F]

lemma take_bit_extend:
  "take_bit m v OR push_bit m (take_bit n (drop_bit m v)) = take_bit (m + n) v" for v :: "'a::len word"
  by (rule bit_word_eqI) (auto simp: bit_or_iff bit_take_bit_iff bit_push_bit_iff bit_drop_bit_eq)

lemma get_varint_loop_put:
  "64 < 7 * (i + n) \<Longrightarrow> 0 < n \<Longrightarrow>
     get_varint_loop n i (take_bit (7 * i) v) (put_varint (drop_bit (7 * i) v) @ rest) = Some (v, rest)"
proof (induction n arbitrary: i)
  case (Suc n)
  let ?d = "drop_bit (7 * i) v"
  have dd: "drop_bit 7 ?d = drop_bit (7 * Suc i) v" by (simp add: add.commute)
  have ext: "take_bit (7 * i) v OR push_bit (7 * i) (take_bit 7 ?d) = take_bit (7 * Suc i) v"
    unfolding take_bit_extend by (simp add: add.commute)
  show ?case
  proof (cases "drop_bit 7 ?d = 0")
    case True
    have "take_bit (7 * Suc i) v = v"
    proof (rule bit_word_eqI)
      fix m
      have "\<not> bit v m" if "7 * Suc i \<le> m"
        using arg_cong [OF True, of "\<lambda>w. bit w (m - 7 * Suc i)"] that unfolding dd
        by (simp add: bit_drop_bit_eq)
      then show "bit (take_bit (7 * Suc i) v) m = bit v m"
        by (cases "m < 7 * Suc i") (auto simp: bit_take_bit_iff)
    qed
    then show ?thesis
      using True ext by (subst put_varint.simps) (simp add: Let_def and_0x7F varint_bytes)
  next
    case False
    have "7 * Suc i < 64"
    proof (rule ccontr)
      assume "\<not> 7 * Suc i < 64"
      then have "drop_bit (7 * Suc i) v = 0" by (intro bit_word_eqI) (auto simp: bit_drop_bit_eq dest: bit_imp_le_length)
      then show False using False dd by simp
    qed
    then have n: "0 < n" using Suc.prems(1) by (cases n) auto
    have "64 < 7 * (Suc i + n)" using Suc.prems(1) by simp
    from Suc.IH [OF this n] show ?thesis
      using False ext dd by (subst put_varint.simps) (simp add: Let_def and_0x7F varint_bytes)
  qed
qed simp

lemma get_put_varint: "get_varint (put_varint v @ rest) = Some (v, rest)"
  using get_varint_loop_put [of 0 kMaxVarintBytes v rest] by (simp add: get_varint_def kMaxVarintBytes_def)

lemma put_varint_not_Nil [simp]: "put_varint v \<noteq> []"
  by (subst put_varint.simps) (simp add: Let_def)

lemma length_put_fixed [simp]: "length (put_fixed v n) = n"
  by (simp add: put_fixed_def)

lemma get_put_fixed:
  fixes v :: "'a::len word"
  assumes "8 \<le> LENGTH('a)"
  shows "get_fixed_value (put_fixed v n) = take_bit (8 * n) v"
proof -
  have "foldl (\<lambda>w i. w OR push_bit (8 * i) (byte_of (put_fixed v n ! i))) 0 [0..<m] = take_bit (8 * m) v"
    if "m \<le> n" for m
    using that
  proof (induction m)
    case (Suc m)
    have "byte_of (put_fixed v n ! m) = take_bit 8 (drop_bit (8 * m) v)"
      using Suc.prems assms by (simp add: put_fixed_def and_0xFF byte_of_to_char)
    then show ?case
      using Suc take_bit_extend [of "8 * m" v 8] by (simp add: add.commute)
  qed simp
  from this [of n] show ?thesis by (simp add: get_fixed_value_def)
qed

lemma get_fixed_byte:
  assumes "8 * length s \<le> LENGTH('a::len)" "k < length s"
  shows "take_bit 8 (drop_bit (8 * k) (get_fixed_value s :: 'a word)) = byte_of (s ! k)"
proof -
  have 8: "8 \<le> LENGTH('a)" using assms by (cases s) auto
  have small: "n < 8" if "bit (byte_of c :: 'a word) n" for c n using bit_byte_of [OF that 8] .
  have "bit (foldl (\<lambda>v i. v OR push_bit (8 * i) (byte_of (s ! i))) 0 [0..<m] :: 'a word) (8 * k + n) \<longleftrightarrow>
      k < m \<and> bit (byte_of (s ! k) :: 'a word) n" if "n < 8" "m \<le> length s" for m n
    using that(2)
  proof (induction m)
    case (Suc m)
    have "bit (push_bit (8 * m) (byte_of (s ! m)) :: 'a word) (8 * k + n) \<longleftrightarrow>
        m = k \<and> bit (byte_of (s ! k) :: 'a word) n"
      using small [of "s ! m" "8 * k + n - 8 * m"] that(1) Suc.prems assms
      by (cases "m < k"; cases "m = k") (auto simp: bit_push_bit_iff)
    then show ?case using Suc by (auto simp: bit_or_iff less_Suc_eq)
  qed simp
  from this [of _ "length s"] assms(2) show ?thesis
    by (intro bit_word_eqI)
      (auto simp: bit_take_bit_iff bit_drop_bit_eq get_fixed_value_def add.commute dest: small)
qed

lemma get_fixed_inj:
  assumes "get_fixed_value s = (get_fixed_value t :: 'a::len word)" "length s = length t"
    "8 * length s \<le> LENGTH('a)"
  shows "s = t"
proof (rule nth_equalityI)
  fix k assume k: "k < length s"
  then have 8: "8 \<le> LENGTH('a)" using assms by (cases s) auto
  have "(byte_of (s ! k) :: 'a word) = byte_of (t ! k)"
    using get_fixed_byte [of s k, where 'a = 'a] get_fixed_byte [of t k, where 'a = 'a] assms k by simp
  then show "s ! k = t ! k" using byte_of_inj [OF 8] by blast
qed (fact assms(2))

section \<open>DUMP and RESTORE\<close>

definition dump_value :: "bytes \<Rightarrow> bytes" where
  "dump_value v =
     (let payload = [to_char kOpString] @ put_varint (of_nat (length v)) @ v
            @ [to_char kVersion] @ [CHR 0x00];
          crc = crc32_update 0 payload
      in payload @ put_fixed crc 4)"

text \<open>The length is read from position 1; it must end before the two version bytes at \<open>stop\<close>.\<close>

fun restore_len_loop :: "bytes \<Rightarrow> nat \<Rightarrow> nat \<Rightarrow> nat \<Rightarrow> nat \<Rightarrow> u64 \<Rightarrow> (u64 \<times> nat) option" where
  "restore_len_loop payload stop 0 i pos len = None"
| "restore_len_loop payload stop (Suc n) i pos len =
     (if pos = stop then None
      else let byte = byte_of (payload ! pos); len = len OR push_bit (7 * i) (byte AND 0x7F) in
        if byte AND 0x80 = 0 then Some (len, pos + 1)
        else restore_len_loop payload stop n (Suc i) (pos + 1) len)"

definition restore_value :: "bytes \<Rightarrow> bytes option" where
  "restore_value payload =
     (if length payload < 1 + 1 + 2 + 4 then None
      else let body = length payload - 4;
               crc = get_fixed_value (drop body payload) in
        if crc \<noteq> crc32_update 0 (take body payload) then None
        else if byte_of (payload ! (body - 2)) \<noteq> kVersion \<or> payload ! (body - 1) \<noteq> CHR 0x00 \<or>
                byte_of (payload ! 0) \<noteq> kOpString then None
        else case restore_len_loop payload (body - 2) kMaxVarintBytes 0 1 0 of
          None \<Rightarrow> None
        | Some (len, pos) \<Rightarrow>
            if len \<noteq> of_nat (body - 2 - pos) then None else Some (substr payload pos (unat len)))"

lemma restore_len_loop_eq:
  "pos \<le> stop \<Longrightarrow> stop \<le> length payload \<Longrightarrow>
     restore_len_loop payload stop n i pos len =
       map_option (\<lambda>(v, rest). (v, stop - length rest))
         (get_varint_loop n i len (take (stop - pos) (drop pos payload)))"
proof (induction n arbitrary: i pos len)
  case (Suc n)
  show ?case
  proof (cases "pos = stop")
    case False
    then have "take (stop - pos) (drop pos payload) =
        payload ! pos # take (stop - Suc pos) (drop (Suc pos) payload)"
      using Suc.prems by (simp add: Cons_nth_drop_Suc [symmetric] Suc_diff_Suc [symmetric])
    then show ?thesis
      using False Suc.prems Suc.IH [of "Suc pos" "Suc i"] by (simp add: Let_def)
  qed simp
qed simp

lemma restore_dump:
  assumes "length v < 2 ^ 64"
  shows "restore_value (dump_value v) = Some v"
proof -
  let ?len = "of_nat (length v) :: u64"
  define pre where "pre = [to_char kOpString] @ put_varint ?len"
  define payload where "payload = pre @ v @ [to_char kVersion] @ [CHR 0x00]"
  define crc where "crc = crc32_update 0 payload"
  have d: "dump_value v = payload @ put_fixed crc 4"
    by (simp add: dump_value_def payload_def crc_def pre_def Let_def)
  have "1 \<le> length (put_varint ?len)" by (simp add: Suc_le_eq)
  then have len: "4 \<le> length payload" by (simp add: payload_def pre_def)
  have crc: "get_fixed_value (put_fixed crc 4) = crc"
    by (simp add: get_put_fixed take_bit_word_eq_self)
  have stop: "length payload - 2 = length pre + length v" by (simp add: payload_def)
  have "take (length payload - 2 - 1) (drop 1 (dump_value v)) = put_varint ?len @ v"
    unfolding stop by (simp add: d payload_def pre_def)
  moreover have "1 \<le> length payload - 2" "length payload - 2 \<le> length (dump_value v)"
    using len by (simp_all add: d)
  ultimately have loop: "restore_len_loop (dump_value v) (length payload - 2) kMaxVarintBytes 0 1 0 =
      Some (?len, length pre)"
    using get_put_varint [of ?len v] by (simp add: restore_len_loop_eq get_varint_def stop)
  have byte: "byte_of (to_char (w :: u8)) = w" for w
    by (simp add: byte_of_to_char take_bit_word_eq_self)
  have nth: "dump_value v ! (length payload - 2) = to_char kVersion"
    "dump_value v ! (length payload - 1) = CHR 0x00" "dump_value v ! 0 = to_char kOpString"
    by (simp_all add: d payload_def pre_def nth_append)
  have "substr (dump_value v) (length pre) (length v) = v"
    unfolding d payload_def by (simp add: substr_def)
  moreover have "length (dump_value v) - 4 = length payload" "drop (length payload) (dump_value v) = put_fixed crc 4"
    "take (length payload) (dump_value v) = payload" "\<not> length (dump_value v) < 1 + 1 + 2 + 4"
    using len by (simp_all add: d)
  ultimately show ?thesis
    using loop nth assms stop crc
    by (simp add: restore_value_def Let_def byte crc_def [symmetric] unat_of_nat_u64)
qed

text \<open>
  One changed byte is always noticed: the checksum of the body cannot stay the same, and neither
  can the stored one.
\<close>

lemma restore_byte_change:
  assumes ok: "restore_value (pre @ c # post) \<noteq> None" and "c \<noteq> d"
  shows "restore_value (pre @ d # post) = None"
proof -
  let ?p = "pre @ c # post" and ?q = "pre @ d # post"
  let ?body = "length ?p - 4"
  have len: "8 \<le> length ?p" and crc: "(get_fixed_value (drop ?body ?p) :: u32) = crc32_update 0 (take ?body ?p)"
    using ok by (auto simp: restore_value_def Let_def split: if_splits)
  have "(get_fixed_value (drop ?body ?q) :: u32) \<noteq> crc32_update 0 (take ?body ?q)"
  proof (cases "length pre < ?body")
    case True
    define k where "k = ?body - length pre - 1"
    have t: "take ?body (pre @ x # post) = pre @ x # take k post" for x
      using True by (simp add: take_Cons' k_def)
    have "3 < length post" using True by simp
    then have "drop ?body ?q = drop ?body ?p" by (simp add: drop_Cons')
    then show ?thesis using crc crc32_byte_change [OF assms(2), of 0 pre "take k post"] unfolding t by simp
  next
    case False
    then have eq: "take ?body ?q = take ?body ?p" by simp
    have "drop ?body ?q \<noteq> drop ?body ?p" using False assms(2) by (simp add: drop_Cons')
    moreover have "length (drop ?body ?q) = 4" "length (drop ?body ?p) = 4"
      using len by (auto simp del: drop_append)
    ultimately have "(get_fixed_value (drop ?body ?q) :: u32) \<noteq> get_fixed_value (drop ?body ?p)"
      using get_fixed_inj [of "drop ?body ?q" "drop ?body ?p", where 'a = 32] by fastforce
    then show ?thesis using crc eq by simp
  qed
  then show ?thesis by (simp add: restore_value_def Let_def)
qed

section \<open>Properties\<close>

text \<open>
  C14: what DUMP produces, RESTORE accepts and gives back as the same bytes, for every value; and a
  payload that RESTORE accepts is refused after a change of any one of its bytes, wherever it is.
\<close>

theorem dump_restore:
  assumes "length v < 2 ^ 64"
  shows "restore_value (dump_value v) = Some v \<and>
    (\<forall>pre c d post. dump_value v = pre @ c # post \<and> c \<noteq> d \<longrightarrow> restore_value (pre @ d # post) = None)"
  using restore_dump [OF assms] restore_byte_change by (metis option.distinct(1))

theorem dump_restore_witness:
  "restore_value (dump_value ''hello'') = Some ''hello''"
  using dump_restore [of "''hello''"] by simp

text \<open>
  C22: the streaming checksum is the CRC-32 of everything fed so far: feeding a message in two parts
  gives the checksum of the whole, each table-driven step is eight steps of the bitwise definition,
  and two messages that differ in one byte never have the same checksum.
\<close>

theorem crc32_streaming:
  "crc32_update (crc32_update crc a) b = crc32_update crc (a @ b) \<and>
   crc32_update crc data =
     NOT (foldl (\<lambda>r c. (crc32_bit ^^ 8) (r XOR byte_of c)) (NOT crc) data) \<and>
   (crc32_update crc (pre @ c # post) = crc32_update crc (pre @ d # post) \<longleftrightarrow> c = d)"
  using crc32_byte_change [of c d crc pre post]
  by (auto simp: crc32_update_append crc32_update_def [of crc data] simp flip: crc32_step_bitwise)

end
