(* ===== verification/File_Util.thy ===== *)
theory File_Util
  imports Std_Lib
begin

text \<open>
  The file helpers of \<^verbatim>\<open>file_util.cpp\<close>. What the kernel answers to each \<^verbatim>\<open>write\<close> and
  \<^verbatim>\<open>read\<close> is a list of results, consumed in order.
\<close>

datatype sys_write = Wrote nat | WInterrupted | WFailed

text \<open>
  \<open>write_all\<close> of \<open>len\<close> bytes of which \<open>written\<close> are out: how many got out, and the results not
  used. \<^const>\<open>None\<close> is a loop that is still waiting for the kernel when the list ends.
\<close>

fun write_all :: "nat \<Rightarrow> nat \<Rightarrow> sys_write list \<Rightarrow> (nat \<times> sys_write list) option" where
  "write_all len written results =
     (if written < len then
        (case results of
           [] \<Rightarrow> None
         | Wrote n # results \<Rightarrow> write_all len (written + n) results
         | WInterrupted # results \<Rightarrow> write_all len written results
         | WFailed # results \<Rightarrow> Some (written, results))
      else Some (written, results))"

declare write_all.simps [simp del]

text \<open>The kernel never writes more than it is asked to.\<close>

fun kernel_ok :: "nat \<Rightarrow> nat \<Rightarrow> sys_write list \<Rightarrow> bool" where
  "kernel_ok len written [] \<longleftrightarrow> True"
| "kernel_ok len written (Wrote n # rs) \<longleftrightarrow> written + n \<le> len \<and> kernel_ok len (written + n) rs"
| "kernel_ok len written (_ # rs) \<longleftrightarrow> kernel_ok len written rs"

lemma write_all_bound:
  "write_all len written rs = Some (n, rs') \<Longrightarrow> kernel_ok len written rs \<Longrightarrow> written \<le> len \<Longrightarrow>
     written \<le> n \<and> n \<le> len \<and> (WFailed \<notin> set rs \<longrightarrow> n = len)"
proof (induction len written rs rule: write_all.induct)
  case (1 len written rs)
  show ?case
  proof (cases rs)
    case Nil
    then show ?thesis using 1(3,5) by (auto simp: write_all.simps split: if_splits)
  next
    case (Cons r rest)
    show ?thesis
    proof (cases r)
      case (Wrote k)
      then show ?thesis
        using 1(1) [OF _ Cons [unfolded Wrote]] 1(3-5) Cons
        by (subst (asm) write_all.simps) (auto split: if_splits)
    next
      case WInterrupted
      then show ?thesis
        using 1(2) [OF _ Cons [unfolded WInterrupted]] 1(3-5) Cons
        by (subst (asm) write_all.simps) (auto split: if_splits)
    next
      case WFailed
      then show ?thesis using 1(3,5) Cons by (auto simp: write_all.simps split: if_splits)
    qed
  qed
qed

text \<open>\<open>s.rfind(c)\<close>.\<close>

fun rfind_char :: "char \<Rightarrow> bytes \<Rightarrow> nat option" where
  "rfind_char c [] = None"
| "rfind_char c (x # xs) =
     (case rfind_char c xs of Some i \<Rightarrow> Some (Suc i) | None \<Rightarrow> if x = c then Some 0 else None)"

definition join :: "bytes \<Rightarrow> bytes \<Rightarrow> bytes" where
  "join dir name =
     (if dir = [] then name else if last dir = CHR ''/'' then dir @ name else dir @ ''/'' @ name)"

definition dirname :: "bytes \<Rightarrow> bytes" where
  "dirname path =
     (case rfind_char (CHR ''/'') path of
        None \<Rightarrow> ''.''
      | Some slash \<Rightarrow> if slash = 0 then ''/'' else substr path 0 slash)"

lemma rfind_char_None: "rfind_char c s = None \<longleftrightarrow> c \<notin> set s"
  by (induction s) (auto split: option.splits)

lemma rfind_char_append: "c \<notin> set ys \<Longrightarrow> rfind_char c (xs @ c # ys) = Some (length xs)"
  by (induction xs) (simp_all add: rfind_char_None [symmetric])

text \<open>The directory of a file joined to a directory is that directory.\<close>

lemma dirname_join:
  assumes "CHR ''/'' \<notin> set name" "dir \<noteq> []" "last dir \<noteq> CHR ''/''"
  shows "dirname (join dir name) = dir"
  using rfind_char_append [OF assms(1), of dir] assms(2,3) by (simp add: join_def dirname_def substr_def)

section \<open>Reading\<close>

text \<open>
  \<open>fsync_dir\<close>, from the outcomes of opening the directory and of \<^verbatim>\<open>fsync\<close>; and
  \<open>durable_rename\<close>, from the outcome of \<^verbatim>\<open>rename\<close>: whether it succeeded, and what the target
  then holds, which was \<open>old\<close>.
\<close>

definition fsync_dir :: "bool \<times> bool \<Rightarrow> bool" where
  "fsync_dir outcome = (case outcome of (opened, synced) \<Rightarrow> if \<not> opened then False else synced)"

definition durable_rename :: "bool \<Rightarrow> bool \<times> bool \<Rightarrow> bytes \<Rightarrow> bytes option \<Rightarrow> bool \<times> bytes option" where
  "durable_rename renamed dir_outcome file old =
     (if renamed then (fsync_dir dir_outcome, Some file) else (False, old))"

text \<open>An empty chunk, or the end of the list, is the end of the file.\<close>

datatype sys_read = RData bytes | RInterrupted | RFailed nat

text \<open>The bytes a reader will see before the end of the file, and whether it gets there.\<close>

fun reads_data :: "sys_read list \<Rightarrow> bytes" where
  "reads_data [] = []"
| "reads_data (RData d # rs) = (if d = [] then [] else d @ reads_data rs)"
| "reads_data (RInterrupted # rs) = reads_data rs"
| "reads_data (RFailed e # rs) = []"

fun reads_ok :: "sys_read list \<Rightarrow> bool" where
  "reads_ok [] \<longleftrightarrow> True"
| "reads_ok (RData d # rs) \<longleftrightarrow> d = [] \<or> reads_ok rs"
| "reads_ok (RInterrupted # rs) \<longleftrightarrow> reads_ok rs"
| "reads_ok (RFailed e # rs) \<longleftrightarrow> False"

fun reads_bytes :: "sys_read list \<Rightarrow> nat" where
  "reads_bytes [] = 0"
| "reads_bytes (RData d # rs) = length d + reads_bytes rs"
| "reads_bytes (_ # rs) = reads_bytes rs"

end
