(* ===== verification/Hash_Table.thy ===== *)
theory Hash_Table
  imports Prelude
begin

text \<open>
  The chained hash table of \<^verbatim>\<open>include/hash_table.hpp\<close>, with its incremental rehashing.
  A chain of nodes is the list of its (key, value) pairs, head first; a bucket array is the list
  of its chains, and the array a moved-from or default \<^verbatim>\<open>Table\<close> holds is the empty list.
  Moving a node between buckets relinks it, so a node keeps its address and a chain of pairs
  loses nothing of what the code can observe.

  The theory models every operation, proves that a well-formed table stays well formed, and that
  the table implements a finite map whatever the state of a resize is (\<open>kv_table\<close>, the interface
  the store relies on).
\<close>

section \<open>State\<close>

type_synonym 'v chain = "(bytes \<times> 'v) list"

record 'v hash_table =
  tbl0 :: "'v chain list"
  tbl1 :: "'v chain list"
  rehash_idx :: nat
  num_entries :: nat

definition kInitialBucketCount :: nat where
  "kInitialBucketCount = 16"

section \<open>Hashing and bucket selection\<close>

definition hash_key :: "bytes \<Rightarrow> u64" where
  "hash_key key =
     foldl (\<lambda>hash c. (hash XOR of_char c) * 1099511628211) 14695981039346656037 key"

definition bucket_index :: "u64 \<Rightarrow> nat \<Rightarrow> nat" where
  "bucket_index hash sz = unat (hash AND (of_nat sz - 1))"

definition make_table :: "nat \<Rightarrow> 'v chain list" where
  "make_table sz = replicate sz []"

definition rehashing :: "'v hash_table \<Rightarrow> bool" where
  "rehashing t \<longleftrightarrow> length (tbl1 t) \<noteq> 0"

definition bucket_count :: "'v hash_table \<Rightarrow> nat" where
  "bucket_count t = (if rehashing t then length (tbl1 t) else length (tbl0 t))"

definition ht_size :: "'v hash_table \<Rightarrow> nat" where
  "ht_size t = num_entries t"

text \<open>
  \<open>bucket_for\<close> returns a reference to the head pointer of a chain; the model splits it into
  reading the chain and writing a new chain at the same place.
\<close>

definition bucket_for :: "bytes \<Rightarrow> 'v hash_table \<Rightarrow> 'v chain" where
  "bucket_for key t =
     (let hash = hash_key key; i = bucket_index hash (length (tbl0 t)) in
      if rehashing t \<and> i < rehash_idx t
      then tbl1 t ! bucket_index hash (length (tbl1 t))
      else tbl0 t ! i)"

definition set_bucket_for :: "bytes \<Rightarrow> 'v chain \<Rightarrow> 'v hash_table \<Rightarrow> 'v hash_table" where
  "set_bucket_for key c t =
     (let hash = hash_key key; i = bucket_index hash (length (tbl0 t)) in
      if rehashing t \<and> i < rehash_idx t
      then t\<lparr>tbl1 := (tbl1 t)[bucket_index hash (length (tbl1 t)) := c]\<rparr>
      else t\<lparr>tbl0 := (tbl0 t)[i := c]\<rparr>)"

section \<open>Resizing\<close>

text \<open>
  The load thresholds compare doubles. A bucket count is a power of two, so the quotient
  \<open>num_entries / buckets\<close> is exact (below \<open>2\<^sup>5\<^sup>3\<close> entries). The constant \<open>0.75\<close> is exact too, and
  the double nearest to \<open>0.1\<close> is \<open>3602879701896397 / 2\<^sup>5\<^sup>5\<close>, which is what the code compares with.
\<close>

definition load_above_max :: "nat \<Rightarrow> nat \<Rightarrow> bool" where
  "load_above_max entries buckets \<longleftrightarrow> 3 * buckets < 4 * entries"

definition load_below_min :: "nat \<Rightarrow> nat \<Rightarrow> bool" where
  "load_below_min entries buckets \<longleftrightarrow> entries * 36028797018963968 < 3602879701896397 * buckets"

definition maybe_resize :: "'v hash_table \<Rightarrow> 'v hash_table" where
  "maybe_resize t =
     (if rehashing t then t
      else let buckets = length (tbl0 t) in
        if load_above_max (num_entries t) buckets
        then t\<lparr>tbl1 := make_table (buckets * 2)\<rparr>
        else if buckets > kInitialBucketCount \<and> load_below_min (num_entries t) buckets
        then t\<lparr>tbl1 := make_table (buckets div 2)\<rparr>
        else t)"

text \<open>The inner loop of \<open>rehash_step\<close>: every node of a chain goes to the head of its new bucket.\<close>

fun relink_chain :: "'v chain \<Rightarrow> 'v chain list \<Rightarrow> 'v chain list" where
  "relink_chain [] dst = dst"
| "relink_chain ((k, v) # rest) dst =
     (let i = bucket_index (hash_key k) (length dst)
      in relink_chain rest (dst[i := (k, v) # dst ! i]))"

text \<open>The outer loop: \<open>n\<close> chains still to move, at most \<open>empty_visits\<close> empty buckets to skip.\<close>

function rehash_loop :: "nat \<Rightarrow> nat \<Rightarrow> 'v hash_table \<Rightarrow> 'v hash_table" where
  "rehash_loop n empty_visits t =
     (if n > 0 \<and> rehash_idx t < length (tbl0 t) then
        let head = tbl0 t ! rehash_idx t in
        if head = [] then
          let t' = t\<lparr>rehash_idx := rehash_idx t + 1\<rparr>; ev = empty_visits - 1 in
          if ev = 0 then t' else rehash_loop n ev t'
        else
          rehash_loop (n - 1) empty_visits
            (t\<lparr>tbl1 := relink_chain head (tbl1 t),
               tbl0 := (tbl0 t)[rehash_idx t := []],
               rehash_idx := rehash_idx t + 1\<rparr>)
      else t)"
  by pat_completeness auto
termination
  by (relation "measure (\<lambda>(n, ev, t). length (tbl0 t) - rehash_idx t)") auto

declare rehash_loop.simps [simp del]

definition finish_rehash :: "'v hash_table \<Rightarrow> 'v hash_table" where
  "finish_rehash t =
     (if rehash_idx t = length (tbl0 t)
      then maybe_resize (t\<lparr>tbl0 := tbl1 t, tbl1 := [], rehash_idx := 0\<rparr>)
      else t)"

definition rehash_step :: "nat \<Rightarrow> 'v hash_table \<Rightarrow> bool \<times> 'v hash_table" where
  "rehash_step n t =
     (if \<not> rehashing t then (False, t)
      else let t' = finish_rehash (rehash_loop n (n * 10) t) in (rehashing t', t'))"

section \<open>Operations\<close>

definition empty_table :: "'v hash_table" where
  "empty_table =
     \<lparr>tbl0 = make_table kInitialBucketCount, tbl1 = [], rehash_idx = 0, num_entries = 0\<rparr>"

definition ht_find :: "bytes \<Rightarrow> 'v hash_table \<Rightarrow> 'v option" where
  "ht_find key t = map_of (bucket_for key t) key"

definition ht_contains :: "bytes \<Rightarrow> 'v hash_table \<Rightarrow> bool" where
  "ht_contains key t \<longleftrightarrow> ht_find key t \<noteq> None"

text \<open>Overwriting the value of the first node with the key, in place.\<close>

fun chain_replace :: "bytes \<Rightarrow> 'v \<Rightarrow> 'v chain \<Rightarrow> 'v chain" where
  "chain_replace key v [] = []"
| "chain_replace key v ((k, w) # rest) =
     (if k = key then (k, v) # rest else (k, w) # chain_replace key v rest)"

text \<open>Unlinking the first node with the key.\<close>

fun chain_unlink :: "bytes \<Rightarrow> 'v chain \<Rightarrow> 'v chain" where
  "chain_unlink key [] = []"
| "chain_unlink key ((k, w) # rest) =
     (if k = key then rest else (k, w) # chain_unlink key rest)"

definition ht_set :: "bytes \<Rightarrow> 'v \<Rightarrow> 'v hash_table \<Rightarrow> bool \<times> 'v hash_table" where
  "ht_set key value t0 =
     (let t = snd (rehash_step 1 t0); head = bucket_for key t in
      if map_of head key \<noteq> None
      then (False, set_bucket_for key (chain_replace key value head) t)
      else let t' = set_bucket_for key ((key, value) # head) t
           in (True, maybe_resize (t'\<lparr>num_entries := num_entries t' + 1\<rparr>)))"

text \<open>
  Writing through the pointer that \<open>find\<close> returns (as in \<^verbatim>\<open>*existing = when_ms\<close>): the value
  of the node changes and nothing else, and no resize advances.
\<close>

definition ht_assign :: "bytes \<Rightarrow> 'v \<Rightarrow> 'v hash_table \<Rightarrow> 'v hash_table" where
  "ht_assign key value t = set_bucket_for key (chain_replace key value (bucket_for key t)) t"

definition ht_del :: "bytes \<Rightarrow> 'v hash_table \<Rightarrow> bool \<times> 'v hash_table" where
  "ht_del key t0 =
     (let t = snd (rehash_step 1 t0); head = bucket_for key t in
      if map_of head key \<noteq> None
      then let t' = set_bucket_for key (chain_unlink key head) t
           in (True, maybe_resize (t'\<lparr>num_entries := num_entries t' - 1\<rparr>))
      else (False, t))"

text \<open>\<open>for_each\<close> calls its argument on these pairs, in this order.\<close>

definition ht_entries :: "'v hash_table \<Rightarrow> (bytes \<times> 'v) list" where
  "ht_entries t = concat (tbl0 t) @ concat (tbl1 t)"

text \<open>
  \<open>random_entry\<close> draws bucket numbers until one is not empty, then an entry of it. The output of
  the random generator is an argument: the list of numbers drawn for buckets and the one drawn for
  the position in the chain, each reduced to the range its distribution is built with. \<^const>\<open>None\<close> is a loop that is still drawing when the list ends;
  \<^term>\<open>Some None\<close> is the pair of null pointers of an empty table.
\<close>

definition live_bucket :: "'v hash_table \<Rightarrow> nat \<Rightarrow> 'v chain" where
  "live_bucket t i =
     (let first = (if rehashing t then rehash_idx t else 0);
          live_old = length (tbl0 t) - first
      in if i < live_old then tbl0 t ! (first + i) else tbl1 t ! (i - live_old))"

definition live_buckets :: "'v hash_table \<Rightarrow> nat" where
  "live_buckets t =
     length (tbl0 t) - (if rehashing t then rehash_idx t else 0) + length (tbl1 t)"

fun pick_bucket :: "'v hash_table \<Rightarrow> nat list \<Rightarrow> 'v chain option" where
  "pick_bucket t [] = None"
| "pick_bucket t (i # draws) =
     (let head = live_bucket t (i mod live_buckets t)
      in if head = [] then pick_bucket t draws else Some head)"

definition random_entry ::
  "nat list \<Rightarrow> nat \<Rightarrow> 'v hash_table \<Rightarrow> (bytes \<times> 'v) option option" where
  "random_entry draws entry_draw t =
     (if num_entries t = 0 then Some None
      else map_option (\<lambda>c. Some (c ! (entry_draw mod length c))) (pick_bucket t draws))"

section \<open>Well-formed tables\<close>

definition is_pow2 :: "nat \<Rightarrow> bool" where
  "is_pow2 n \<longleftrightarrow> (\<exists>k. n = 2 ^ k)"

definition chain_ok :: "nat \<Rightarrow> nat \<Rightarrow> 'v chain \<Rightarrow> bool" where
  "chain_ok sz i c \<longleftrightarrow>
     distinct (map fst c) \<and> (\<forall>p \<in> set c. bucket_index (hash_key (fst p)) sz = i)"

text \<open>The invariant of the table inside the rehashing loop, where every old bucket may be done.\<close>

definition ht_core :: "'v hash_table \<Rightarrow> bool" where
  "ht_core t \<longleftrightarrow>
     is_pow2 (length (tbl0 t)) \<and> kInitialBucketCount \<le> length (tbl0 t) \<and>
     (tbl1 t \<noteq> [] \<longrightarrow>
        length (tbl1 t) = 2 * length (tbl0 t) \<or>
        2 * length (tbl1 t) = length (tbl0 t) \<and> kInitialBucketCount \<le> length (tbl1 t)) \<and>
     (tbl1 t = [] \<longrightarrow> rehash_idx t = 0) \<and>
     rehash_idx t \<le> length (tbl0 t) \<and>
     (\<forall>i < length (tbl0 t). chain_ok (length (tbl0 t)) i (tbl0 t ! i)) \<and>
     (\<forall>i < rehash_idx t. tbl0 t ! i = []) \<and>
     (\<forall>j < length (tbl1 t). chain_ok (length (tbl1 t)) j (tbl1 t ! j) \<and>
        (\<forall>p \<in> set (tbl1 t ! j). bucket_index (hash_key (fst p)) (length (tbl0 t)) < rehash_idx t)) \<and>
     num_entries t = length (ht_entries t)"

definition ht_inv :: "'v hash_table \<Rightarrow> bool" where
  "ht_inv t \<longleftrightarrow> ht_core t \<and> rehash_idx t < length (tbl0 t)"

lemma kInitialBucketCount_pos [simp]: "0 < kInitialBucketCount"
  by (simp add: kInitialBucketCount_def)

lemma is_pow2_double: "is_pow2 n \<Longrightarrow> is_pow2 (n * 2)"
  unfolding is_pow2_def by (metis power_Suc2)

lemma is_pow2_half: "is_pow2 n \<Longrightarrow> 1 < n \<Longrightarrow> is_pow2 (n div 2) \<and> 2 * (n div 2) = n"
proof -
  assume "is_pow2 n" "1 < n"
  then obtain k where k: "n = 2 ^ k" by (auto simp: is_pow2_def)
  with \<open>1 < n\<close> obtain j where "k = Suc j" by (cases k) auto
  with k show ?thesis by (auto simp: is_pow2_def)
qed

lemma bucket_index_mod: "is_pow2 n \<Longrightarrow> bucket_index h n = unat h mod n"
  unfolding is_pow2_def bucket_index_def
  by (metis unat_and_of_nat_pow2_minus_1)

lemma bucket_index_less: "is_pow2 n \<Longrightarrow> bucket_index h n < n"
proof -
  assume "is_pow2 n"
  then have "0 < n" by (auto simp: is_pow2_def)
  with \<open>is_pow2 n\<close> show ?thesis by (simp add: bucket_index_mod)
qed

lemma ht_core_pow2:
  assumes "ht_core t"
  shows "is_pow2 (length (tbl0 t))" "tbl1 t \<noteq> [] \<Longrightarrow> is_pow2 (length (tbl1 t))"
proof -
  show p0: "is_pow2 (length (tbl0 t))"
    using assms by (simp add: ht_core_def)
  assume ne: "tbl1 t \<noteq> []"
  have "length (tbl1 t) = 2 * length (tbl0 t) \<or> 2 * length (tbl1 t) = length (tbl0 t)"
    using assms ne unfolding ht_core_def by blast
  then show "is_pow2 (length (tbl1 t))"
  proof
    assume "length (tbl1 t) = 2 * length (tbl0 t)"
    with is_pow2_double [OF p0] show ?thesis by (simp add: mult.commute)
  next
    assume h: "2 * length (tbl1 t) = length (tbl0 t)"
    then have half: "length (tbl0 t) div 2 = length (tbl1 t)" by linarith
    have "0 < length (tbl1 t)" using ne by simp
    with h have "1 < length (tbl0 t)" by linarith
    from is_pow2_half [OF p0 this] half show ?thesis by simp
  qed
qed

lemma rehashing_iff: "rehashing t \<longleftrightarrow> tbl1 t \<noteq> []"
  by (simp add: rehashing_def)

lemma mem_ht_entries:
  "p \<in> set (ht_entries t) \<longleftrightarrow>
     (\<exists>i < length (tbl0 t). p \<in> set (tbl0 t ! i)) \<or> (\<exists>j < length (tbl1 t). p \<in> set (tbl1 t ! j))"
proof -
  have "(\<exists>c \<in> set xs. p \<in> set c) \<longleftrightarrow> (\<exists>i < length xs. p \<in> set (xs ! i))" for xs :: "'a chain list"
    by (metis in_set_conv_nth)
  then show ?thesis by (simp add: ht_entries_def)
qed

lemma bucket_for_chain_ok:
  assumes "ht_core t"
  shows "distinct (map fst (bucket_for k t))" "set (bucket_for k t) \<subseteq> set (ht_entries t)"
proof -
  let ?i = "bucket_index (hash_key k) (length (tbl0 t))"
  let ?j = "bucket_index (hash_key k) (length (tbl1 t))"
  have i: "?i < length (tbl0 t)"
    using bucket_index_less [OF ht_core_pow2(1) [OF assms]] .
  have j: "?j < length (tbl1 t)" if "rehashing t"
    using bucket_index_less [OF ht_core_pow2(2) [OF assms]] that by (simp add: rehashing_iff)
  have ok: "chain_ok (length (tbl0 t)) ?i (tbl0 t ! ?i)"
    "rehashing t \<Longrightarrow> chain_ok (length (tbl1 t)) ?j (tbl1 t ! ?j)"
    using assms i j unfolding ht_core_def by blast+
  show "distinct (map fst (bucket_for k t))"
    using ok by (auto simp: bucket_for_def Let_def chain_ok_def)
  show "set (bucket_for k t) \<subseteq> set (ht_entries t)"
    using i j by (auto simp: bucket_for_def Let_def mem_ht_entries)
qed

lemma mem_bucket_for:
  assumes core: "ht_core t" and mem: "p \<in> set (ht_entries t)"
  shows "p \<in> set (bucket_for (fst p) t)"
proof -
  let ?i = "bucket_index (hash_key (fst p)) (length (tbl0 t))"
  let ?j = "bucket_index (hash_key (fst p)) (length (tbl1 t))"
  consider i where "i < length (tbl0 t)" "p \<in> set (tbl0 t ! i)"
    | j where "j < length (tbl1 t)" "p \<in> set (tbl1 t ! j)"
    using mem by (auto simp: mem_ht_entries)
  then show ?thesis
  proof cases
    case (1 i)
    then have "?i = i" using core unfolding ht_core_def chain_ok_def by blast
    moreover have "\<not> i < rehash_idx t"
    proof
      assume "i < rehash_idx t"
      then have "tbl0 t ! i = []" using core unfolding ht_core_def by blast
      with 1 show False by simp
    qed
    ultimately show ?thesis using 1 by (simp add: bucket_for_def Let_def)
  next
    case (2 j)
    then have "?j = j" "?i < rehash_idx t"
      using core unfolding ht_core_def chain_ok_def by blast+
    moreover have "rehashing t" using 2 by (auto simp: rehashing_iff)
    ultimately show ?thesis using 2 by (simp add: bucket_for_def Let_def)
  qed
qed

text \<open>A lookup probes one bucket and still sees every entry of both arrays.\<close>

lemma ht_find_iff:
  assumes "ht_core t"
  shows "ht_find k t = Some v \<longleftrightarrow> (k, v) \<in> set (ht_entries t)"
proof
  assume "ht_find k t = Some v"
  then have "(k, v) \<in> set (bucket_for k t)" by (simp add: ht_find_def map_of_SomeD)
  then show "(k, v) \<in> set (ht_entries t)" using bucket_for_chain_ok(2) [OF assms] by blast
next
  assume "(k, v) \<in> set (ht_entries t)"
  from mem_bucket_for [OF assms this] have "(k, v) \<in> set (bucket_for k t)" by simp
  then show "ht_find k t = Some v"
    by (simp add: ht_find_def map_of_eq_Some_iff [OF bucket_for_chain_ok(1) [OF assms]])
qed

lemma ht_find_cong:
  assumes "ht_core t" "ht_core t'" "set (ht_entries t) = set (ht_entries t')"
  shows "ht_find k t = ht_find k t'"
proof (rule option.expand)
  show "ht_find k t = None \<longleftrightarrow> ht_find k t' = None"
    using assms by (metis ht_find_iff not_Some_eq)
  show "the (ht_find k t) = the (ht_find k t')" if "ht_find k t \<noteq> None" "ht_find k t' \<noteq> None"
    using assms that by (metis ht_find_iff not_Some_eq)
qed

lemma distinct_keys_ht_entries:
  assumes "ht_core t"
  shows "distinct (map fst (ht_entries t))"
proof -
  have d0: "distinct (map fst (concat (tbl0 t)))"
    by (rule distinct_map_concat_indexed
          [where g = "\<lambda>k. bucket_index (hash_key k) (length (tbl0 t))" and off = 0])
       (use assms in \<open>auto simp: ht_core_def chain_ok_def\<close>)
  have d1: "distinct (map fst (concat (tbl1 t)))"
    by (rule distinct_map_concat_indexed
          [where g = "\<lambda>k. bucket_index (hash_key k) (length (tbl1 t))" and off = 0])
       (use assms in \<open>auto simp: ht_core_def chain_ok_def\<close>)
  have "fst p \<noteq> fst q" if p: "p \<in> set (concat (tbl0 t))" and q: "q \<in> set (concat (tbl1 t))" for p q
  proof
    assume eq: "fst p = fst q"
    from p obtain c where "c \<in> set (tbl0 t)" "p \<in> set c" by auto
    then obtain i where i: "i < length (tbl0 t)" "p \<in> set (tbl0 t ! i)" by (metis in_set_conv_nth)
    from q obtain d where "d \<in> set (tbl1 t)" "q \<in> set d" by auto
    then obtain j where j: "j < length (tbl1 t)" "q \<in> set (tbl1 t ! j)" by (metis in_set_conv_nth)
    have "bucket_index (hash_key (fst p)) (length (tbl0 t)) = i"
      using assms i unfolding ht_core_def chain_ok_def by blast
    moreover have "bucket_index (hash_key (fst q)) (length (tbl0 t)) < rehash_idx t"
      using assms j unfolding ht_core_def by blast
    ultimately have "tbl0 t ! i = []"
      using assms eq unfolding ht_core_def by metis
    with i show False by simp
  qed
  then have "fst ` set (concat (tbl0 t)) \<inter> fst ` set (concat (tbl1 t)) = {}" by blast
  with d0 d1 show ?thesis by (simp add: ht_entries_def)
qed

lemma map_of_ht_entries:
  assumes "ht_core t"
  shows "map_of (ht_entries t) = (\<lambda>k. ht_find k t)"
proof
  fix k
  show "map_of (ht_entries t) k = ht_find k t"
    using ht_find_iff [OF assms] map_of_eq_Some_iff [OF distinct_keys_ht_entries [OF assms]]
    by (metis not_Some_eq)
qed

section \<open>Rehashing keeps the table well formed and its contents unchanged\<close>

lemma length_relink_chain [simp]: "length (relink_chain c dst) = length dst"
  by (induction c dst rule: relink_chain.induct) (auto simp: Let_def)

lemma relink_chain_eq_Nil [simp]: "relink_chain c dst = [] \<longleftrightarrow> dst = []"
  by (metis length_0_conv length_relink_chain)

lemma nth_relink_chain:
  assumes "is_pow2 (length dst)" "j < length dst"
  shows "relink_chain c dst ! j =
           rev (filter (\<lambda>p. bucket_index (hash_key (fst p)) (length dst) = j) c) @ dst ! j"
  using assms
proof (induction c dst rule: relink_chain.induct)
  case (2 k v rest dst)
  let ?i = "bucket_index (hash_key k) (length dst)"
  have "?i < length dst" using "2.prems"(1) by (rule bucket_index_less)
  then show ?case
    using "2.IH" [OF refl] "2.prems" by (simp add: Let_def nth_list_update)
qed simp

lemma mset_relink_chain:
  assumes "is_pow2 (length dst)"
  shows "mset (concat (relink_chain c dst)) = mset c + mset (concat dst)"
  using assms
proof (induction c dst rule: relink_chain.induct)
  case (2 k v rest dst)
  let ?i = "bucket_index (hash_key k) (length dst)"
  let ?dst = "dst[?i := (k, v) # dst ! ?i]"
  have "?i < length dst" using "2.prems" by (rule bucket_index_less)
  then have "mset (concat ?dst) + mset (dst ! ?i) = mset (concat dst) + mset ((k, v) # dst ! ?i)"
    by (rule mset_concat_update)
  then have "mset (concat ?dst) = add_mset (k, v) (mset (concat dst))"
    by simp
  then show ?case
    using "2.IH" [OF refl] "2.prems" by (simp add: Let_def)
qed simp

definition move_bucket :: "'v hash_table \<Rightarrow> 'v hash_table" where
  "move_bucket t =
     t\<lparr>tbl1 := relink_chain (tbl0 t ! rehash_idx t) (tbl1 t),
       tbl0 := (tbl0 t)[rehash_idx t := []],
       rehash_idx := rehash_idx t + 1\<rparr>"

lemma mset_entries_move_bucket:
  assumes "ht_core t" "rehashing t" "rehash_idx t < length (tbl0 t)"
  shows "mset (ht_entries (move_bucket t)) = mset (ht_entries t)"
proof -
  have "is_pow2 (length (tbl1 t))"
    using assms ht_core_pow2(2) by (auto simp: rehashing_iff)
  then have "mset (concat (tbl1 (move_bucket t))) = mset (tbl0 t ! rehash_idx t) + mset (concat (tbl1 t))"
    by (simp add: move_bucket_def mset_relink_chain)
  moreover have "mset (concat (tbl0 (move_bucket t))) + mset (tbl0 t ! rehash_idx t) = mset (concat (tbl0 t))"
    using mset_concat_update [OF assms(3), of "[]"] by (simp add: move_bucket_def)
  ultimately show ?thesis
    by (simp add: ht_entries_def algebra_simps)
qed

lemma ht_core_move_bucket:
  assumes core: "ht_core t" and re: "rehashing t" and idx: "rehash_idx t < length (tbl0 t)"
  shows "ht_core (move_bucket t)"
proof -
  let ?r = "rehash_idx t" and ?n0 = "length (tbl0 t)" and ?n1 = "length (tbl1 t)"
  let ?c = "tbl0 t ! ?r"
  have p1: "is_pow2 ?n1" using core re ht_core_pow2(2) by (auto simp: rehashing_iff)
  have c: "chain_ok ?n0 ?r ?c" using core idx by (simp add: ht_core_def)
  have dst: "chain_ok ?n1 j (relink_chain ?c (tbl1 t) ! j) \<and>
      (\<forall>p \<in> set (relink_chain ?c (tbl1 t) ! j). bucket_index (hash_key (fst p)) ?n0 < Suc ?r)"
    if j: "j < ?n1" for j
  proof -
    let ?f = "filter (\<lambda>p. bucket_index (hash_key (fst p)) ?n1 = j) ?c"
    have old: "chain_ok ?n1 j (tbl1 t ! j)"
      "\<forall>p \<in> set (tbl1 t ! j). bucket_index (hash_key (fst p)) ?n0 < ?r"
      using core j by (auto simp: ht_core_def)
    have new: "\<forall>p \<in> set ?f. bucket_index (hash_key (fst p)) ?n0 = ?r"
      using c by (simp add: chain_ok_def)
    have "distinct (map fst ?f)"
      using c by (simp add: chain_ok_def distinct_map_filter)
    moreover have "fst ` set ?f \<inter> fst ` set (tbl1 t ! j) = {}"
      using old(2) new by force
    ultimately show ?thesis
      using old new by (auto simp: nth_relink_chain [OF p1 j] chain_ok_def rev_map [symmetric])
  qed
  have len: "num_entries t = length (ht_entries (move_bucket t))"
    using core mset_eq_length [OF mset_entries_move_bucket [OF core re idx]] by (simp add: ht_core_def)
  have src: "chain_ok ?n0 i ((tbl0 t)[?r := []] ! i)" if "i < ?n0" for i
    using core that by (cases "i = ?r") (auto simp: ht_core_def chain_ok_def)
  have emptied: "(tbl0 t)[?r := []] ! i = []" if "i < Suc ?r" for i
    using core that idx by (cases "i = ?r") (auto simp: ht_core_def)
  show ?thesis
    using core re idx dst src emptied len
    by (auto simp: ht_core_def move_bucket_def rehashing_iff)
qed

definition skip_bucket :: "'v hash_table \<Rightarrow> 'v hash_table" where
  "skip_bucket t = t\<lparr>rehash_idx := rehash_idx t + 1\<rparr>"

lemma ht_core_skip_bucket:
  assumes "ht_core t" "rehashing t" "rehash_idx t < length (tbl0 t)" "tbl0 t ! rehash_idx t = []"
  shows "ht_core (skip_bucket t)"
  using assms
  by (auto simp: ht_core_def skip_bucket_def rehashing_iff ht_entries_def less_Suc_eq)

lemma rehash_loop_unfold:
  "rehash_loop n ev t =
     (if n > 0 \<and> rehash_idx t < length (tbl0 t) then
        if tbl0 t ! rehash_idx t = [] then
          (if ev - 1 = 0 then skip_bucket t else rehash_loop n (ev - 1) (skip_bucket t))
        else rehash_loop (n - 1) ev (move_bucket t)
      else t)"
  by (subst rehash_loop.simps) (simp add: skip_bucket_def move_bucket_def Let_def)

text \<open>What every number of rehashing steps keeps of a table \<open>t\<close>.\<close>

definition same_contents :: "'v hash_table \<Rightarrow> 'v hash_table \<Rightarrow> bool" where
  "same_contents t t' \<longleftrightarrow>
     ht_core t' \<and> tbl1 t' \<noteq> [] \<and> mset (ht_entries t') = mset (ht_entries t) \<and>
     length (tbl0 t') = length (tbl0 t) \<and> length (tbl1 t') = length (tbl1 t) \<and>
     rehash_idx t \<le> rehash_idx t' \<and> num_entries t' = num_entries t"

lemma same_contents_trans: "same_contents a b \<Longrightarrow> same_contents b c \<Longrightarrow> same_contents a c"
  by (auto simp: same_contents_def)

lemma same_contents_step:
  assumes "ht_core t" "rehashing t" "rehash_idx t < length (tbl0 t)"
  shows "same_contents t (move_bucket t)"
    "tbl0 t ! rehash_idx t = [] \<Longrightarrow> same_contents t (skip_bucket t)"
proof -
  show "same_contents t (move_bucket t)"
    using assms ht_core_move_bucket [OF assms] mset_entries_move_bucket [OF assms]
    by (auto simp: same_contents_def move_bucket_def rehashing_iff)
  show "same_contents t (skip_bucket t)" if "tbl0 t ! rehash_idx t = []"
    using assms that ht_core_skip_bucket [OF assms that]
    by (auto simp: same_contents_def skip_bucket_def rehashing_iff ht_entries_def)
qed

lemma same_contents_rehash_loop:
  assumes "ht_core t" "rehashing t"
  shows "same_contents t (rehash_loop n ev t)"
  using assms
proof (induction n ev t rule: rehash_loop.induct)
  case (1 n ev t)
  show ?case
  proof (cases "n > 0 \<and> rehash_idx t < length (tbl0 t)")
    case False
    then show ?thesis
      using "1.prems" by (subst rehash_loop_unfold) (auto simp: same_contents_def rehashing_iff)
  next
    case run: True
    note step = same_contents_step [OF "1.prems"]
    show ?thesis
    proof (cases "tbl0 t ! rehash_idx t = []")
      case True
      then have skip: "same_contents t (skip_bucket t)" using run step(2) by blast
      then have "same_contents (skip_bucket t) (rehash_loop n (ev - 1) (skip_bucket t))" if "ev - 1 \<noteq> 0"
        using "1.IH"(1) [OF run refl True refl refl that]
        by (simp add: skip_bucket_def same_contents_def rehashing_iff)
      then show ?thesis
        using run True skip by (subst rehash_loop_unfold) (auto intro: same_contents_trans)
    next
      case False
      then have move: "same_contents t (move_bucket t)" using run step(1) by blast
      then have "same_contents (move_bucket t) (rehash_loop (n - 1) ev (move_bucket t))"
        using "1.IH"(2) [OF run refl False]
        by (simp add: move_bucket_def same_contents_def rehashing_iff)
      then show ?thesis
        using run False move by (subst rehash_loop_unfold) (auto intro: same_contents_trans)
    qed
  qed
qed

text \<open>A step that is asked to move at least one bucket advances.\<close>

lemma rehash_loop_progress:
  assumes "ht_core t" "rehashing t" "rehash_idx t < length (tbl0 t)" "0 < n"
  shows "rehash_idx t < rehash_idx (rehash_loop n ev t)"
proof (cases "tbl0 t ! rehash_idx t = []")
  case True
  have "same_contents t (skip_bucket t)" using same_contents_step(2) [OF assms(1-3) True] .
  then have "same_contents (skip_bucket t) (rehash_loop n (ev - 1) (skip_bucket t))"
    by (intro same_contents_rehash_loop) (auto simp: same_contents_def rehashing_iff)
  then have "rehash_idx t < rehash_idx (rehash_loop n (ev - 1) (skip_bucket t))"
    by (simp add: same_contents_def skip_bucket_def)
  then show ?thesis
    using assms True by (subst rehash_loop_unfold) (simp add: skip_bucket_def)
next
  case False
  have "same_contents t (move_bucket t)" using same_contents_step(1) [OF assms(1-3)] .
  then have "same_contents (move_bucket t) (rehash_loop (n - 1) ev (move_bucket t))"
    by (intro same_contents_rehash_loop) (auto simp: same_contents_def rehashing_iff)
  then have "rehash_idx t < rehash_idx (rehash_loop (n - 1) ev (move_bucket t))"
    by (simp add: same_contents_def move_bucket_def)
  then show ?thesis
    using assms False by (subst rehash_loop_unfold) simp
qed

section \<open>Every operation keeps the invariant\<close>

lemma is_pow2_above_initial:
  assumes "is_pow2 n" "kInitialBucketCount < n"
  shows "kInitialBucketCount \<le> n div 2"
proof -
  from assms(1) obtain k where k: "n = 2 ^ k" by (auto simp: is_pow2_def)
  with assms(2) have "(2::nat) ^ 4 < 2 ^ k" by (simp add: kInitialBucketCount_def)
  then have "4 < k" by (rule power_less_imp_less_exp [rotated]) simp
  then obtain j where "k = Suc j" "4 \<le> j" by (cases k) auto
  then have "(2::nat) ^ 4 \<le> 2 ^ j" by (intro power_increasing) auto
  then show ?thesis using k \<open>k = Suc j\<close> by (simp add: kInitialBucketCount_def)
qed

lemma make_table_simps [simp]:
  "length (make_table n) = n" "i < n \<Longrightarrow> make_table n ! i = []" "concat (make_table n) = []"
  "make_table n = [] \<longleftrightarrow> n = 0" "set (make_table n) = (if n = 0 then {} else {[]})"
  by (auto simp: make_table_def)

lemma maybe_resize_inv:
  assumes "ht_inv t"
  shows "ht_inv (maybe_resize t)" "ht_entries (maybe_resize t) = ht_entries t"
proof -
  have p: "is_pow2 (length (tbl0 t))" "kInitialBucketCount \<le> length (tbl0 t)"
    using assms by (auto simp: ht_inv_def ht_core_def)
  have half: "2 * (length (tbl0 t) div 2) = length (tbl0 t)"
    using is_pow2_half [OF p(1)] p(2) by (simp add: kInitialBucketCount_def)
  have ge: "kInitialBucketCount < length (tbl0 t) \<Longrightarrow> kInitialBucketCount \<le> length (tbl0 t) div 2"
    using is_pow2_above_initial [OF p(1)] .
  show "ht_inv (maybe_resize t)" "ht_entries (maybe_resize t) = ht_entries t"
    using assms half ge
    by (auto simp: maybe_resize_def ht_inv_def ht_core_def rehashing_iff ht_entries_def chain_ok_def Let_def)
qed

lemma maybe_resize_frame [simp]:
  "tbl0 (maybe_resize t) = tbl0 t" "num_entries (maybe_resize t) = num_entries t"
  "rehash_idx (maybe_resize t) = rehash_idx t"
  by (auto simp: maybe_resize_def Let_def)

lemma finish_rehash_inv:
  assumes core: "ht_core t" and re: "rehashing t"
  shows "ht_inv (finish_rehash t)" "mset (ht_entries (finish_rehash t)) = mset (ht_entries t)"
proof -
  let ?t = "t\<lparr>tbl0 := tbl1 t, tbl1 := [], rehash_idx := 0\<rparr>"
  have idx: "rehash_idx t \<le> length (tbl0 t)" using core by (simp add: ht_core_def)
  have "ht_inv ?t \<and> ht_entries ?t = ht_entries t" if all: "rehash_idx t = length (tbl0 t)"
  proof -
    have "concat (tbl0 t) = []"
      using core all by (auto simp: ht_core_def in_set_conv_nth)
    then have e: "ht_entries ?t = ht_entries t" by (simp add: ht_entries_def)
    have ge: "kInitialBucketCount \<le> length (tbl1 t)"
      using core re by (auto simp: ht_core_def rehashing_iff)
    have "0 < length (tbl1 t)" using re by (simp add: rehashing_iff)
    then show ?thesis
      using core ge e ht_core_pow2(2) [OF core] by (simp add: ht_inv_def ht_core_def)
  qed
  then show "ht_inv (finish_rehash t)" "mset (ht_entries (finish_rehash t)) = mset (ht_entries t)"
    using core idx maybe_resize_inv [of ?t]
    by (auto simp: finish_rehash_def ht_inv_def)
qed

lemma rehash_step_inv:
  assumes "ht_inv t"
  shows "ht_inv (snd (rehash_step n t))"
    "mset (ht_entries (snd (rehash_step n t))) = mset (ht_entries t)"
proof -
  have core: "ht_core t" using assms by (simp add: ht_inv_def)
  show "ht_inv (snd (rehash_step n t))"
    "mset (ht_entries (snd (rehash_step n t))) = mset (ht_entries t)"
    using assms same_contents_rehash_loop [OF core, of n "n * 10"]
      finish_rehash_inv [of "rehash_loop n (n * 10) t"]
    by (auto simp: rehash_step_def Let_def same_contents_def rehashing_iff)
qed

lemma ht_core_of_inv [simp]: "ht_inv t \<Longrightarrow> ht_core t"
  by (simp add: ht_inv_def)

lemma num_entries_eq: "ht_inv t \<Longrightarrow> num_entries t = length (ht_entries t)"
  by (simp add: ht_inv_def ht_core_def)

lemma ht_find_rehash_step [simp]:
  assumes "ht_inv t"
  shows "ht_find k (snd (rehash_step n t)) = ht_find k t"
  using assms rehash_step_inv [OF assms, of n] by (intro ht_find_cong) (auto dest: mset_eq_setD)

lemma ht_find_maybe_resize [simp]:
  assumes "ht_inv t"
  shows "ht_find k (maybe_resize t) = ht_find k t"
  using assms maybe_resize_inv [OF assms] by (intro ht_find_cong) auto

text \<open>Replacing one chain by a chain that differs from it at its own key only.\<close>

definition same_bucket :: "'v hash_table \<Rightarrow> bytes \<Rightarrow> bytes \<Rightarrow> bool" where
  "same_bucket t k k' \<longleftrightarrow>
     (let i = bucket_index (hash_key k) (length (tbl0 t)); i' = bucket_index (hash_key k') (length (tbl0 t));
          j = bucket_index (hash_key k) (length (tbl1 t)); j' = bucket_index (hash_key k') (length (tbl1 t))
      in if rehashing t \<and> i < rehash_idx t then i' < rehash_idx t \<and> j = j' else i = i')"

lemma bucket_for_set_bucket_for:
  assumes "ht_core t"
  shows "bucket_for k' (set_bucket_for k c t) = (if same_bucket t k k' then c else bucket_for k' t)"
    "same_bucket t k k' \<Longrightarrow> bucket_for k' t = bucket_for k t"
proof -
  have i: "bucket_index h (length (tbl0 t)) < length (tbl0 t)" for h
    using bucket_index_less [OF ht_core_pow2(1) [OF assms]] .
  have j: "tbl1 t \<noteq> [] \<Longrightarrow> bucket_index h (length (tbl1 t)) < length (tbl1 t)" for h
    using bucket_index_less [OF ht_core_pow2(2) [OF assms]] .
  show "bucket_for k' (set_bucket_for k c t) = (if same_bucket t k k' then c else bucket_for k' t)"
    using i j
    by (auto simp: bucket_for_def set_bucket_for_def same_bucket_def Let_def rehashing_iff nth_list_update)
  show "same_bucket t k k' \<Longrightarrow> bucket_for k' t = bucket_for k t"
    by (auto simp: bucket_for_def same_bucket_def Let_def split: if_splits)
qed

lemma ht_find_set_bucket_for:
  assumes "ht_core t" and "\<And>k'. k' \<noteq> k \<Longrightarrow> map_of c k' = map_of (bucket_for k t) k'"
  shows "ht_find k' (set_bucket_for k c t) = (if k' = k then map_of c k else ht_find k' t)"
proof -
  have "same_bucket t k k" by (simp add: same_bucket_def Let_def)
  then show ?thesis
    using assms bucket_for_set_bucket_for(1) [OF assms(1), of k' k c]
      bucket_for_set_bucket_for(2) [OF assms(1), of k k']
    by (auto simp: ht_find_def)
qed

lemma mset_entries_set_bucket_for:
  assumes "ht_core t"
  shows "mset (ht_entries (set_bucket_for k c t)) + mset (bucket_for k t) = mset (ht_entries t) + mset c"
proof -
  let ?i = "bucket_index (hash_key k) (length (tbl0 t))"
  let ?j = "bucket_index (hash_key k) (length (tbl1 t))"
  have i: "?i < length (tbl0 t)"
    using bucket_index_less [OF ht_core_pow2(1) [OF assms]] .
  show ?thesis
  proof (cases "rehashing t \<and> ?i < rehash_idx t")
    case True
    then have "?j < length (tbl1 t)"
      using bucket_index_less [OF ht_core_pow2(2) [OF assms]] by (simp add: rehashing_iff)
    from mset_concat_update [OF this, of c] show ?thesis
      using True by (simp add: bucket_for_def set_bucket_for_def ht_entries_def Let_def algebra_simps)
  next
    case False
    from mset_concat_update [OF i, of c] show ?thesis
      using False by (auto simp: bucket_for_def set_bucket_for_def ht_entries_def Let_def algebra_simps)
  qed
qed

lemma length_entries_set_bucket_for:
  assumes "ht_core t"
  shows "length (ht_entries (set_bucket_for k c t)) + length (bucket_for k t) = length (ht_entries t) + length c"
  using arg_cong [OF mset_entries_set_bucket_for [OF assms, of k c], of size] by simp

lemma set_bucket_for_inv:
  assumes inv: "ht_inv t" and d: "distinct (map fst c)"
    and keys: "fst ` set c \<subseteq> insert k (fst ` set (bucket_for k t))"
    and num: "num = length (ht_entries (set_bucket_for k c t))"
  shows "ht_inv ((set_bucket_for k c t)\<lparr>num_entries := num\<rparr>)"
proof -
  let ?i = "bucket_index (hash_key k) (length (tbl0 t))"
  let ?j = "bucket_index (hash_key k) (length (tbl1 t))"
  have core: "ht_core t" using inv by simp
  have i: "?i < length (tbl0 t)"
    using bucket_index_less [OF ht_core_pow2(1) [OF core]] .
  have k: "fst p = k \<or> (\<exists>q \<in> set (bucket_for k t). fst p = fst q)" if "p \<in> set c" for p
    using that keys by auto
  show ?thesis
  proof (cases "rehashing t \<and> ?i < rehash_idx t")
    case True
    then have j: "?j < length (tbl1 t)"
      using bucket_index_less [OF ht_core_pow2(2) [OF core]] by (simp add: rehashing_iff)
    have b: "bucket_for k t = tbl1 t ! ?j" using True by (simp add: bucket_for_def Let_def)
    have "chain_ok (length (tbl1 t)) ?j c"
      "\<forall>p \<in> set c. bucket_index (hash_key (fst p)) (length (tbl0 t)) < rehash_idx t"
      using core j d k b True by (fastforce simp: ht_core_def chain_ok_def)+
    then have "\<forall>j < length (tbl1 t). chain_ok (length (tbl1 t)) j ((tbl1 t)[?j := c] ! j) \<and>
        (\<forall>p \<in> set ((tbl1 t)[?j := c] ! j). bucket_index (hash_key (fst p)) (length (tbl0 t)) < rehash_idx t)"
      using core j by (simp add: ht_core_def nth_list_update)
    then show ?thesis
      using inv True num
      by (simp add: ht_inv_def ht_core_def set_bucket_for_def Let_def ht_entries_def rehashing_iff)
  next
    case False
    have b: "bucket_for k t = tbl0 t ! ?i" using False by (auto simp: bucket_for_def Let_def)
    have "chain_ok (length (tbl0 t)) ?i c"
      using core i d k b by (fastforce simp: ht_core_def chain_ok_def)
    then have "\<forall>i < length (tbl0 t). chain_ok (length (tbl0 t)) i ((tbl0 t)[?i := c] ! i)"
      using core i by (simp add: ht_core_def nth_list_update)
    moreover have "\<not> ?i < rehash_idx t"
      using False core by (auto simp: ht_core_def rehashing_iff)
    ultimately show ?thesis
      using inv False num
      by (simp add: ht_inv_def ht_core_def set_bucket_for_def Let_def ht_entries_def)
  qed
qed

lemma set_bucket_for_num [simp]: "num_entries (set_bucket_for k c t) = num_entries t"
  by (simp add: set_bucket_for_def Let_def)

lemma chain_replace_simps [simp]:
  "map fst (chain_replace k v c) = map fst c" "length (chain_replace k v c) = length c"
  "map_of (chain_replace k v c) k' = (if k' = k \<and> map_of c k \<noteq> None then Some v else map_of c k')"
  by (induction c) auto

lemma set_chain_unlink: "set (chain_unlink k c) \<subseteq> set c"
  by (induction k c rule: chain_unlink.induct) auto

lemma map_of_chain_unlink:
  "distinct (map fst c) \<Longrightarrow> map_of (chain_unlink k c) k' = (if k' = k then None else map_of c k')"
  by (induction k c rule: chain_unlink.induct) (auto simp: map_of_eq_None_iff [THEN iffD2])

lemma distinct_chain_unlink:
  "distinct (map fst c) \<Longrightarrow> distinct (map fst (chain_unlink k c))"
proof (induction k c rule: chain_unlink.induct)
  case (2 key k w rest)
  then show ?case using set_chain_unlink [of key rest] by auto
qed simp

lemma length_chain_unlink: "map_of c k \<noteq> None \<Longrightarrow> Suc (length (chain_unlink k c)) = length c"
  by (induction c) auto

lemma ht_find_num_entries [simp]: "ht_find k (t\<lparr>num_entries := n\<rparr>) = ht_find k t"
  by (simp add: ht_find_def bucket_for_def rehashing_def Let_def)

lemma map_of_bucket_for: "map_of (bucket_for k t) k = ht_find k t"
  by (simp add: ht_find_def)

lemma ht_inv_empty: "ht_inv empty_table"
  by (auto simp: ht_inv_def ht_core_def empty_table_def ht_entries_def chain_ok_def is_pow2_def
        kInitialBucketCount_def intro: exI [of _ 4])

lemma ht_set_correct:
  assumes inv: "ht_inv t"
  shows "ht_inv (snd (ht_set k v t))"
    "ht_find k' (snd (ht_set k v t)) = (if k' = k then Some v else ht_find k' t)"
    "fst (ht_set k v t) \<longleftrightarrow> ht_find k t = None"
proof -
  define s where "s = snd (rehash_step 1 t)"
  define head where "head = bucket_for k s"
  have s: "ht_inv s" "ht_core s" "ht_find q s = ht_find q t" for q
    using rehash_step_inv(1) [OF inv, of 1] inv by (auto simp: s_def)
  have d: "distinct (map fst head)" using bucket_for_chain_ok(1) [OF s(2)] by (simp add: head_def)
  have hit: "map_of head k = ht_find k t" using s(3) by (simp add: head_def map_of_bucket_for)
  have "ht_inv (snd (ht_set k v t)) \<and>
      ht_find k' (snd (ht_set k v t)) = (if k' = k then Some v else ht_find k' t) \<and>
      (fst (ht_set k v t) \<longleftrightarrow> ht_find k t = None)"
  proof (cases "map_of head k = None")
    case False
    let ?c = "chain_replace k v head"
    have e: "ht_set k v t = (False, set_bucket_for k ?c s)"
      using False by (simp add: ht_set_def s_def head_def Let_def)
    have "length (ht_entries (set_bucket_for k ?c s)) = num_entries s"
      using length_entries_set_bucket_for [OF s(2), of k ?c] num_entries_eq [OF s(1)] by (simp add: head_def)
    moreover have "fst ` set ?c = fst ` set head" by (metis chain_replace_simps(1) list.set_map)
    ultimately have "ht_inv ((set_bucket_for k ?c s)\<lparr>num_entries := num_entries s\<rparr>)"
      using s(1) d by (intro set_bucket_for_inv) (auto simp: head_def)
    then have "ht_inv (set_bucket_for k ?c s)"
      by (metis hash_table.surjective hash_table.update_convs(4) set_bucket_for_num)
    moreover have "ht_find k' (set_bucket_for k ?c s) = (if k' = k then Some v else ht_find k' t)"
      using False s(3) by (subst ht_find_set_bucket_for [OF s(2)]) (auto simp: head_def)
    ultimately show ?thesis using e False hit by simp
  next
    case True
    let ?t = "(set_bucket_for k ((k, v) # head) s)\<lparr>num_entries := num_entries s + 1\<rparr>"
    have e: "ht_set k v t = (True, maybe_resize ?t)"
      using True by (simp add: ht_set_def s_def head_def Let_def)
    have "length (ht_entries (set_bucket_for k ((k, v) # head) s)) = num_entries s + 1"
      using length_entries_set_bucket_for [OF s(2), of k "(k, v) # head"] num_entries_eq [OF s(1)]
      by (simp add: head_def)
    then have "ht_inv ?t"
      using s(1) d True by (intro set_bucket_for_inv) (auto simp: head_def map_of_eq_None_iff)
    moreover have "ht_find k' (set_bucket_for k ((k, v) # head) s) =
        (if k' = k then map_of ((k, v) # head) k else ht_find k' s)"
      by (rule ht_find_set_bucket_for [OF s(2)]) (simp add: head_def)
    then have "ht_find k' ?t = (if k' = k then Some v else ht_find k' t)"
      using s(3) by simp
    ultimately show ?thesis
      using e True hit maybe_resize_inv(1) [of ?t] ht_find_maybe_resize [of ?t] by simp
  qed
  then show "ht_inv (snd (ht_set k v t))"
    "ht_find k' (snd (ht_set k v t)) = (if k' = k then Some v else ht_find k' t)"
    "fst (ht_set k v t) \<longleftrightarrow> ht_find k t = None"
    by blast+
qed

lemma ht_assign_correct:
  assumes inv: "ht_inv t" and hit: "ht_find k t \<noteq> None"
  shows "ht_inv (ht_assign k v t)"
    "ht_find k' (ht_assign k v t) = (if k' = k then Some v else ht_find k' t)"
proof -
  let ?c = "chain_replace k v (bucket_for k t)"
  have core: "ht_core t" using inv by simp
  have "length (ht_entries (set_bucket_for k ?c t)) = num_entries t"
    using length_entries_set_bucket_for [OF core, of k ?c] num_entries_eq [OF inv] by simp
  moreover have "fst ` set ?c = fst ` set (bucket_for k t)" by (metis chain_replace_simps(1) list.set_map)
  ultimately have "ht_inv ((set_bucket_for k ?c t)\<lparr>num_entries := num_entries t\<rparr>)"
    using inv bucket_for_chain_ok(1) [OF core] by (intro set_bucket_for_inv) auto
  then show "ht_inv (ht_assign k v t)"
    unfolding ht_assign_def
    by (metis hash_table.surjective hash_table.update_convs(4) set_bucket_for_num)
  show "ht_find k' (ht_assign k v t) = (if k' = k then Some v else ht_find k' t)"
    using hit unfolding ht_assign_def
    by (subst ht_find_set_bucket_for [OF core]) (auto simp: map_of_bucket_for)
qed

lemma ht_del_correct:
  assumes inv: "ht_inv t"
  shows "ht_inv (snd (ht_del k t))"
    "ht_find k' (snd (ht_del k t)) = (if k' = k then None else ht_find k' t)"
    "fst (ht_del k t) \<longleftrightarrow> ht_find k t \<noteq> None"
proof -
  define s where "s = snd (rehash_step 1 t)"
  define head where "head = bucket_for k s"
  have s: "ht_inv s" "ht_core s" "ht_find q s = ht_find q t" for q
    using rehash_step_inv(1) [OF inv, of 1] inv by (auto simp: s_def)
  have d: "distinct (map fst head)" using bucket_for_chain_ok(1) [OF s(2)] by (simp add: head_def)
  have hit: "map_of head k = ht_find k t" using s(3) by (simp add: head_def map_of_bucket_for)
  have "ht_inv (snd (ht_del k t)) \<and>
      ht_find k' (snd (ht_del k t)) = (if k' = k then None else ht_find k' t) \<and>
      (fst (ht_del k t) \<longleftrightarrow> ht_find k t \<noteq> None)"
  proof (cases "map_of head k = None")
    case True
    then show ?thesis
      using s hit by (simp add: ht_del_def s_def head_def Let_def)
  next
    case False
    let ?c = "chain_unlink k head"
    let ?t = "(set_bucket_for k ?c s)\<lparr>num_entries := num_entries s - 1\<rparr>"
    have e: "ht_del k t = (True, maybe_resize ?t)"
      using False by (auto simp: ht_del_def s_def head_def Let_def)
    have "length (ht_entries (set_bucket_for k ?c s)) = num_entries s - 1"
      using length_entries_set_bucket_for [OF s(2), of k ?c] num_entries_eq [OF s(1)]
        length_chain_unlink [OF False] by (simp add: head_def)
    then have "ht_inv ?t"
      using s(1) distinct_chain_unlink [OF d] set_chain_unlink [of k head]
      by (intro set_bucket_for_inv) (auto simp: head_def)
    moreover have "ht_find k' (set_bucket_for k ?c s) = (if k' = k then map_of ?c k else ht_find k' s)"
      using map_of_chain_unlink [OF d] by (intro ht_find_set_bucket_for [OF s(2)]) (simp add: head_def)
    then have "ht_find k' ?t = (if k' = k then None else ht_find k' t)"
      using s(3) map_of_chain_unlink [OF d] by simp
    ultimately show ?thesis
      using e False hit maybe_resize_inv(1) [of ?t] ht_find_maybe_resize [of ?t] by simp
  qed
  then show "ht_inv (snd (ht_del k t))"
    "ht_find k' (snd (ht_del k t)) = (if k' = k then None else ht_find k' t)"
    "fst (ht_del k t) \<longleftrightarrow> ht_find k t \<noteq> None"
    by blast+
qed

section \<open>The interface the store relies on\<close>

locale kv_table =
  fixes invar :: "'t \<Rightarrow> bool"
    and empty :: "'t"
    and find :: "bytes \<Rightarrow> 't \<Rightarrow> 'v option"
    and put :: "bytes \<Rightarrow> 'v \<Rightarrow> 't \<Rightarrow> bool \<times> 't"
    and assign :: "bytes \<Rightarrow> 'v \<Rightarrow> 't \<Rightarrow> 't"
    and del :: "bytes \<Rightarrow> 't \<Rightarrow> bool \<times> 't"
    and advance :: "nat \<Rightarrow> 't \<Rightarrow> bool \<times> 't"
    and count :: "'t \<Rightarrow> nat"
    and entries :: "'t \<Rightarrow> (bytes \<times> 'v) list"
  assumes invar_empty: "invar empty"
    and find_empty: "find k empty = None"
    and invar_put: "invar t \<Longrightarrow> invar (snd (put k v t))"
    and find_put: "invar t \<Longrightarrow> find k' (snd (put k v t)) = (if k' = k then Some v else find k' t)"
    and put_fresh: "invar t \<Longrightarrow> fst (put k v t) \<longleftrightarrow> find k t = None"
    and invar_assign: "invar t \<Longrightarrow> find k t \<noteq> None \<Longrightarrow> invar (assign k v t)"
    and find_assign: "invar t \<Longrightarrow> find k t \<noteq> None \<Longrightarrow>
       find k' (assign k v t) = (if k' = k then Some v else find k' t)"
    and invar_del: "invar t \<Longrightarrow> invar (snd (del k t))"
    and find_del: "invar t \<Longrightarrow> find k' (snd (del k t)) = (if k' = k then None else find k' t)"
    and del_hit: "invar t \<Longrightarrow> fst (del k t) \<longleftrightarrow> find k t \<noteq> None"
    and invar_advance: "invar t \<Longrightarrow> invar (snd (advance n t))"
    and find_advance: "invar t \<Longrightarrow> find k (snd (advance n t)) = find k t"
    and count_entries: "invar t \<Longrightarrow> count t = length (entries t)"
    and map_of_entries: "invar t \<Longrightarrow> map_of (entries t) = (\<lambda>k. find k t)"
    and distinct_entries: "invar t \<Longrightarrow> distinct (map fst (entries t))"
begin

lemmas invars = invar_empty invar_put invar_assign invar_del invar_advance
lemmas finds = find_empty find_put find_assign find_del find_advance

definition keys :: "'t \<Rightarrow> bytes set" where
  "keys t = {k. find k t \<noteq> None}"

lemma mem_keys: "k \<in> keys t \<longleftrightarrow> find k t \<noteq> None"
  by (simp add: keys_def)

lemma keys_entries: "invar t \<Longrightarrow> keys t = fst ` set (entries t)"
  by (auto simp: keys_def dom_map_of_conv_image_fst [symmetric] map_of_entries dom_def)

lemma finite_keys [simp]: "invar t \<Longrightarrow> finite (keys t)"
  by (simp add: keys_entries)

lemma count_card: "invar t \<Longrightarrow> count t = card (keys t)"
  using distinct_card [OF distinct_entries] by (simp add: keys_entries count_entries)

lemma keys_put: "invar t \<Longrightarrow> keys (snd (put k v t)) = insert k (keys t)"
  by (auto simp: keys_def find_put)

lemma keys_del: "invar t \<Longrightarrow> keys (snd (del k t)) = keys t - {k}"
  by (auto simp: keys_def find_del)

lemma count_put: "invar t \<Longrightarrow> count (snd (put k v t)) = (if find k t = None then count t + 1 else count t)"
  by (simp add: count_card invar_put keys_put card_insert_if mem_keys)

lemma count_del: "invar t \<Longrightarrow> count (snd (del k t)) = (if find k t = None then count t else count t - 1)"
  by (simp add: count_card invar_del keys_del card_Diff_singleton_if mem_keys)

lemma count_zero: "invar t \<Longrightarrow> count t = 0 \<longleftrightarrow> (\<forall>k. find k t = None)"
  by (simp add: count_card) (metis mem_keys empty_iff equals0I)

lemma find_entries: "invar t \<Longrightarrow> find k t = Some v \<longleftrightarrow> (k, v) \<in> set (entries t)"
  using map_of_eq_Some_iff [OF distinct_entries] map_of_entries by metis

end

lemma ht_find_empty: "ht_find k empty_table = None"
  using ht_find_iff [OF ht_core_of_inv [OF ht_inv_empty]]
  by (metis empty_table_def ht_entries_def hash_table.select_convs(1,2) append_Nil2 concat.simps(1)
      empty_iff list.set(1) make_table_simps(3) not_Some_eq)

interpretation ht: kv_table ht_inv empty_table ht_find ht_set ht_assign ht_del rehash_step ht_size ht_entries
  by unfold_locales
     (simp_all add: ht_inv_empty ht_find_empty ht_set_correct ht_assign_correct ht_del_correct
        rehash_step_inv(1) ht_size_def num_entries_eq map_of_ht_entries distinct_keys_ht_entries)

section \<open>A resize always ends\<close>

text \<open>
  What is left of the resizing work: how far the size under construction is from one that the
  thresholds accept, and how many old buckets have still to be visited.
\<close>

definition resize_distance :: "nat \<Rightarrow> nat \<Rightarrow> nat" where
  "resize_distance entries sz =
     (if load_above_max entries sz then Suc (4 * entries - 3 * sz)
      else if sz > kInitialBucketCount \<and> load_below_min entries sz then sz
      else 0)"

definition rehash_measure :: "'v hash_table \<Rightarrow> nat \<times> nat" where
  "rehash_measure t =
     (resize_distance (num_entries t) (length (tbl1 t)), length (tbl0 t) - rehash_idx t)"

lemma resize_distance_double:
  "load_above_max e sz \<Longrightarrow> 0 < sz \<Longrightarrow> resize_distance e (sz * 2) < resize_distance e sz"
  by (auto simp: resize_distance_def load_above_max_def load_below_min_def)

lemma resize_distance_half:
  assumes "\<not> load_above_max e sz" "sz > kInitialBucketCount" "load_below_min e sz"
  shows "resize_distance e (sz div 2) < resize_distance e sz"
  using assms
  by (auto simp: resize_distance_def load_above_max_def load_below_min_def kInitialBucketCount_def)

lemma rehash_step_measure:
  assumes inv: "ht_inv t" and re: "rehashing t" and n: "0 < n" and re': "rehashing (snd (rehash_step n t))"
  shows "(rehash_measure (snd (rehash_step n t)), rehash_measure t) \<in> less_than <*lex*> less_than"
proof -
  let ?l = "rehash_loop n (n * 10) t"
  have idx: "rehash_idx t < length (tbl0 t)" using inv by (simp add: ht_inv_def)
  have l: "same_contents t ?l"
    using inv re by (intro same_contents_rehash_loop) simp_all
  have adv: "rehash_idx t < rehash_idx ?l"
    using inv re idx n by (intro rehash_loop_progress) simp_all
  have step: "snd (rehash_step n t) = finish_rehash ?l"
    using re by (simp add: rehash_step_def Let_def)
  show ?thesis
  proof (cases "rehash_idx ?l = length (tbl0 ?l)")
    case False
    then show ?thesis
      using l adv idx by (auto simp: step finish_rehash_def rehash_measure_def same_contents_def)
  next
    case True
    let ?s = "?l\<lparr>tbl0 := tbl1 ?l, tbl1 := [], rehash_idx := 0\<rparr>"
    have fin: "finish_rehash ?l = maybe_resize ?s" using True by (simp add: finish_rehash_def)
    have sz: "length (tbl0 ?s) = length (tbl1 t)" "num_entries ?s = num_entries t" "0 < length (tbl1 t)"
      using l re by (auto simp: same_contents_def rehashing_iff)
    from re' have "rehashing (maybe_resize ?s)" by (simp add: step fin)
    then consider "load_above_max (num_entries t) (length (tbl1 t))"
        "length (tbl1 (maybe_resize ?s)) = length (tbl1 t) * 2"
      | "\<not> load_above_max (num_entries t) (length (tbl1 t))" "length (tbl1 t) > kInitialBucketCount"
        "load_below_min (num_entries t) (length (tbl1 t))"
        "length (tbl1 (maybe_resize ?s)) = length (tbl1 t) div 2"
      using sz by (fastforce simp: maybe_resize_def Let_def rehashing_iff split: if_splits)
    then have "resize_distance (num_entries t) (length (tbl1 (maybe_resize ?s))) <
        resize_distance (num_entries t) (length (tbl1 t))"
      using sz(3) by cases (simp_all add: resize_distance_double resize_distance_half)
    then show ?thesis
      using sz(2) by (simp add: step fin rehash_measure_def)
  qed
qed

lemma rehash_terminates:
  assumes "ht_inv t" "0 < n"
  shows "\<exists>m. \<not> rehashing (((\<lambda>s. snd (rehash_step n s)) ^^ m) t)"
proof -
  let ?R = "inv_image (less_than <*lex*> less_than) rehash_measure"
  have "wf ?R" by (intro wf_inv_image wf_lex_prod wf_less_than)
  then show ?thesis
    using assms(1)
  proof (induction t rule: wf_induct_rule)
    case (less t)
    let ?t = "snd (rehash_step n t)"
    show ?case
    proof (cases "rehashing t \<and> rehashing ?t")
      case True
      then have "(rehash_measure ?t, rehash_measure t) \<in> less_than <*lex*> less_than"
        using less.prems assms(2) by (intro rehash_step_measure) auto
      then obtain m where "\<not> rehashing (((\<lambda>s. snd (rehash_step n s)) ^^ m) ?t)"
        using less.IH rehash_step_inv(1) [OF less.prems] by (metis in_inv_image)
      then have "\<not> rehashing (((\<lambda>s. snd (rehash_step n s)) ^^ Suc m) t)"
        by (simp only: funpow_Suc_right o_apply) simp
      then show ?thesis by blast
    next
      case False
      then have "\<not> rehashing (((\<lambda>s. snd (rehash_step n s)) ^^ 0) t) \<or>
          \<not> rehashing (((\<lambda>s. snd (rehash_step n s)) ^^ 1) t)" by simp
      then show ?thesis by blast
    qed
  qed
qed

section \<open>Sampling\<close>

lemma live_bucket_entries:
  assumes inv: "ht_inv t" and i: "i < live_buckets t"
  shows "set (live_bucket t i) \<subseteq> set (ht_entries t)"
proof
  fix p assume p: "p \<in> set (live_bucket t i)"
  let ?first = "if rehashing t then rehash_idx t else 0"
  have first: "?first < length (tbl0 t)" using inv by (auto simp: ht_inv_def)
  show "p \<in> set (ht_entries t)"
  proof (cases "i < length (tbl0 t) - ?first")
    case True
    then have "?first + i < length (tbl0 t)" "p \<in> set (tbl0 t ! (?first + i))"
      using p by (auto simp: live_bucket_def Let_def)
    then show ?thesis unfolding mem_ht_entries by blast
  next
    case False
    let ?j = "i - (length (tbl0 t) - ?first)"
    have "?j < length (tbl1 t)" "p \<in> set (tbl1 t ! ?j)"
      using False p i first unfolding live_bucket_def live_buckets_def Let_def by simp_all
    then show ?thesis unfolding mem_ht_entries by blast
  qed
qed

lemma live_buckets_pos: "ht_inv t \<Longrightarrow> 0 < live_buckets t"
  by (auto simp: live_buckets_def ht_inv_def ht_core_def rehashing_iff)

lemma live_bucket_covers:
  assumes inv: "ht_inv t" and p: "p \<in> set (ht_entries t)"
  obtains i where "i < live_buckets t" "p \<in> set (live_bucket t i)"
proof -
  let ?first = "if rehashing t then rehash_idx t else 0"
  have first: "?first \<le> length (tbl0 t)" using inv by (simp add: ht_inv_def)
  consider i where "i < length (tbl0 t)" "p \<in> set (tbl0 t ! i)"
    | j where "j < length (tbl1 t)" "p \<in> set (tbl1 t ! j)"
    using p by (auto simp: mem_ht_entries)
  then show ?thesis
  proof cases
    case (1 i)
    have "?first \<le> i"
    proof (rule ccontr)
      assume "\<not> ?first \<le> i"
      then have "tbl0 t ! i = []" using inv by (auto simp: ht_inv_def ht_core_def split: if_splits)
      with 1 show False by simp
    qed
    then have "i - ?first < live_buckets t" "p \<in> set (live_bucket t (i - ?first))"
      using 1 by (auto simp: live_buckets_def live_bucket_def Let_def)
    then show ?thesis by (rule that)
  next
    case (2 j)
    let ?i = "length (tbl0 t) - ?first + j"
    have "?i < live_buckets t" "p \<in> set (live_bucket t ?i)"
      using 2 by (auto simp: live_buckets_def live_bucket_def Let_def)
    then show ?thesis by (rule that)
  qed
qed

lemma pick_bucket_mem:
  assumes "ht_inv t"
  shows "pick_bucket t draws = Some c \<Longrightarrow> c \<noteq> [] \<and> set c \<subseteq> set (ht_entries t)"
proof (induction draws)
  case (Cons i draws)
  have "set (live_bucket t (i mod live_buckets t)) \<subseteq> set (ht_entries t)"
    using assms live_buckets_pos [OF assms] by (intro live_bucket_entries) simp_all
  then show ?case
    using Cons by (auto simp: Let_def split: if_splits)
qed simp

section \<open>Sequences of operations\<close>

text \<open>What a client can do to a table, and what the same calls do to a finite map.\<close>

datatype 'v ht_op = OpSet bytes 'v | OpDel bytes | OpRehash nat

fun ht_apply :: "'v ht_op \<Rightarrow> 'v hash_table \<Rightarrow> bool \<times> 'v hash_table" where
  "ht_apply (OpSet k v) t = ht_set k v t"
| "ht_apply (OpDel k) t = ht_del k t"
| "ht_apply (OpRehash n) t = rehash_step n t"

fun map_apply :: "'v ht_op \<Rightarrow> (bytes \<rightharpoonup> 'v) \<Rightarrow> bool \<times> (bytes \<rightharpoonup> 'v)" where
  "map_apply (OpSet k v) m = (m k = None, m(k \<mapsto> v))"
| "map_apply (OpDel k) m = (m k \<noteq> None, m(k := None))"
| "map_apply (OpRehash n) m = (False, m)"

fun ht_run :: "'v ht_op list \<Rightarrow> 'v hash_table \<Rightarrow> 'v hash_table" where
  "ht_run [] t = t"
| "ht_run (op # ops) t = ht_run ops (snd (ht_apply op t))"

fun map_run :: "'v ht_op list \<Rightarrow> (bytes \<rightharpoonup> 'v) \<Rightarrow> (bytes \<rightharpoonup> 'v)" where
  "map_run [] m = m"
| "map_run (op # ops) m = map_run ops (snd (map_apply op m))"

lemma ht_apply_refines:
  assumes "ht_inv t"
  shows "ht_inv (snd (ht_apply op t))"
    "(\<lambda>k. ht_find k (snd (ht_apply op t))) = snd (map_apply op (\<lambda>k. ht_find k t))"
    "(\<forall>n. op \<noteq> OpRehash n) \<Longrightarrow> fst (ht_apply op t) = fst (map_apply op (\<lambda>k. ht_find k t))"
  using assms by (cases op; auto simp: ht.invars ht.finds ht.put_fresh ht.del_hit)+

lemma ht_run_refines:
  assumes "ht_inv t"
  shows "ht_inv (ht_run ops t) \<and> (\<lambda>k. ht_find k (ht_run ops t)) = map_run ops (\<lambda>k. ht_find k t)"
  using assms
  by (induction ops arbitrary: t) (simp_all add: ht_apply_refines)

lemma ht_run_empty:
  "ht_inv (ht_run ops empty_table)"
  "(\<lambda>k. ht_find k (ht_run ops empty_table)) = map_run ops Map.empty"
  using ht_run_refines [OF ht_inv_empty, of ops] by (auto simp: ht_find_empty)

lemma rehash_steps_same:
  assumes "ht_inv t"
  shows "ht_inv (((\<lambda>s. snd (rehash_step n s)) ^^ j) t) \<and>
    mset (ht_entries (((\<lambda>s. snd (rehash_step n s)) ^^ j) t)) = mset (ht_entries t) \<and>
    (\<forall>k. ht_find k (((\<lambda>s. snd (rehash_step n s)) ^^ j) t) = ht_find k t) \<and>
    num_entries (((\<lambda>s. snd (rehash_step n s)) ^^ j) t) = num_entries t"
proof (induction j)
  case (Suc j)
  then have "length (ht_entries (snd (rehash_step n (((\<lambda>s. snd (rehash_step n s)) ^^ j) t)))) = length (ht_entries t)"
    using rehash_step_inv(2) by (metis size_mset)
  with Suc assms show ?case
    by (auto simp: rehash_step_inv num_entries_eq)
qed (simp add: assms)

text \<open>A table with no resize in progress has a bucket count the thresholds accept.\<close>

definition settled :: "'v hash_table \<Rightarrow> bool" where
  "settled t \<longleftrightarrow> rehashing t \<or> \<not> load_above_max (num_entries t) (length (tbl0 t)) \<and>
     \<not> (kInitialBucketCount < length (tbl0 t) \<and> load_below_min (num_entries t) (length (tbl0 t)))"

lemma settled_maybe_resize: "0 < length (tbl0 t) \<Longrightarrow> settled (maybe_resize t)"
  by (auto simp: settled_def maybe_resize_def Let_def rehashing_def make_table_def kInitialBucketCount_def)

lemma settled_rehash_step:
  assumes "ht_inv t" "settled t"
  shows "settled (snd (rehash_step n t))"
proof (cases "rehashing t")
  case True
  let ?l = "rehash_loop n (n * 10) t"
  have "same_contents t ?l" using assms True by (intro same_contents_rehash_loop) simp_all
  then have "0 < length (tbl1 ?l)" using True by (auto simp: same_contents_def rehashing_iff)
  then show ?thesis
    using True by (auto simp: rehash_step_def Let_def finish_rehash_def settled_maybe_resize)
      (simp add: settled_def rehashing_def)
qed (use assms in \<open>simp add: rehash_step_def\<close>)

lemma set_bucket_for_sizes [simp]:
  "length (tbl0 (set_bucket_for k c t)) = length (tbl0 t)" "num_entries (set_bucket_for k c t) = num_entries t"
  "rehashing (set_bucket_for k c t) = rehashing t" "tbl0 (set_bucket_for k c t) = [] \<longleftrightarrow> tbl0 t = []"
  by (simp_all add: set_bucket_for_def Let_def rehashing_def)

lemma settled_apply:
  assumes "ht_inv t" "settled t"
  shows "settled (snd (ht_apply op t))"
proof -
  have s: "settled (snd (rehash_step 1 t))" using assms by (rule settled_rehash_step)
  have l: "0 < length (tbl0 (snd (rehash_step 1 t)))"
    using rehash_step_inv(1) [OF assms(1), of 1] by (auto simp: ht_inv_def)
  show ?thesis
  proof (cases op)
    case (OpSet k v)
    with s l show ?thesis
      by (auto simp: ht_set_def Let_def intro!: settled_maybe_resize) (simp add: settled_def)
  next
    case (OpDel k)
    with s l show ?thesis by (auto simp: ht_del_def Let_def intro!: settled_maybe_resize)
  qed (simp add: settled_rehash_step assms)
qed

lemma settled_run: "settled (ht_run ops empty_table)"
proof -
  have "settled (ht_run ops t)" if "ht_inv t" "settled t" for t :: "'a hash_table"
    using that by (induction ops arbitrary: t) (simp_all add: settled_apply ht_apply_refines)
  moreover have "settled (empty_table :: 'a hash_table)"
    by (simp add: settled_def empty_table_def make_table_def load_above_max_def kInitialBucketCount_def)
  ultimately show ?thesis using ht_inv_empty by blast
qed

lemma live_buckets_entries:
  assumes inv: "ht_inv t"
  shows "mset (concat (map (live_bucket t) [0..<live_buckets t])) = mset (ht_entries t)"
proof -
  let ?first = "if rehashing t then rehash_idx t else 0"
  have first: "?first \<le> length (tbl0 t)" using inv by (simp add: ht_inv_def)
  have "map (live_bucket t) [0..<live_buckets t] = drop ?first (tbl0 t) @ tbl1 t"
    using first by (intro nth_equalityI) (auto simp: live_buckets_def live_bucket_def Let_def nth_append)
  moreover have "concat (take ?first (tbl0 t)) = []"
    using inv by (auto simp: ht_inv_def ht_core_def in_set_conv_nth)
  moreover have "concat (tbl0 t) = concat (take ?first (tbl0 t)) @ concat (drop ?first (tbl0 t))"
    by (metis append_take_drop_id concat_append)
  ultimately show ?thesis by (simp add: ht_entries_def)
qed

lemma pick_bucket_returns:
  "pick_bucket t draws \<noteq> None \<longleftrightarrow> (\<exists>i \<in> set draws. live_bucket t (i mod live_buckets t) \<noteq> [])"
  by (induction draws) (auto simp: Let_def)

lemma pick_bucket_skip:
  "(\<forall>j \<in> set skipped. live_bucket t (j mod live_buckets t) = []) \<Longrightarrow>
     pick_bucket t (skipped @ rest) = pick_bucket t rest"
  by (induction skipped) (auto simp: Let_def)

section \<open>Properties\<close>

text \<open>
  C2. Whatever sequence of inserts, overwrites, deletes and rehashing steps is run on a new table,
  and so in whatever stage of a resize it is, the table holds exactly the finite map the same
  calls give: every lookup agrees, the walk of \<open>for_each\<close> visits each binding once, and the entry
  counter is the number of keys.
\<close>

theorem hash_table_implements_map:
  "let t = ht_run ops empty_table; m = map_run ops Map.empty in
     (\<forall>k. ht_find k t = m k) \<and> map_of (ht_entries t) = m \<and>
     distinct (map fst (ht_entries t)) \<and> ht_size t = card (dom m)"
proof -
  let ?t = "ht_run ops (empty_table :: 'a hash_table)"
  note inv = ht_run_empty(1) [of ops] and find = ht_run_empty(2) [of ops]
  have "ht_size ?t = card (ht.keys ?t)" using inv by (rule ht.count_card)
  moreover have "ht.keys ?t = dom (\<lambda>k. ht_find k ?t)" by (auto simp: ht.mem_keys)
  ultimately show ?thesis
    using find ht.map_of_entries [OF inv] ht.distinct_entries [OF inv] by (simp add: Let_def fun_eq_iff)
qed

text \<open>
  C11. The answers the operations give are the map's: after any sequence of operations on a new
  table, an insert reports whether the key was new, a delete whether it was present, and neither
  a resize in progress nor one that the call starts or ends can change that.
\<close>

theorem hash_table_results:
  "(fst (ht_set k v (ht_run ops empty_table)) \<longleftrightarrow> k \<notin> dom (map_run ops Map.empty)) \<and>
   (fst (ht_del k (ht_run ops empty_table)) \<longleftrightarrow> k \<in> dom (map_run ops Map.empty)) \<and>
   (ht_contains k (ht_run ops empty_table) \<longleftrightarrow> k \<in> dom (map_run ops Map.empty))"
  using ht_run_empty(1) [of ops] fun_cong [OF ht_run_empty(2) [of ops], of k]
  by (auto simp: ht.put_fresh ht.del_hit ht_contains_def)

text \<open>
  C23. Bucket counts stay powers of two of at least 16 whatever is done to a table, so masking a
  hash with the size minus one picks the bucket that reducing it modulo the size would pick, in
  the array in use and in the one a resize is filling.
\<close>

theorem bucket_mask_is_modulo:
  "let t = ht_run ops empty_table in
     (\<exists>k \<ge> 4. length (tbl0 t) = 2 ^ k) \<and> (\<exists>k \<ge> 4. bucket_count t = 2 ^ k) \<and>
     bucket_index h (length (tbl0 t)) = unat h mod length (tbl0 t) \<and>
     bucket_index h (bucket_count t) = unat h mod bucket_count t"
proof -
  let ?t = "ht_run ops (empty_table :: 'a hash_table)"
  have inv: "ht_core ?t" by (rule ht_core_of_inv [OF ht_run_empty(1)])
  have ge: "\<exists>k \<ge> 4. n = 2 ^ k" if "is_pow2 n" "kInitialBucketCount \<le> n" for n
  proof -
    from that obtain k where k: "n = 2 ^ k" by (auto simp: is_pow2_def)
    with that have "(2::nat) ^ 4 \<le> 2 ^ k" by (simp add: kInitialBucketCount_def)
    then have "4 \<le> k" by (rule power_le_imp_le_exp [rotated]) simp
    with k show ?thesis by blast
  qed
  have p0: "is_pow2 (length (tbl0 ?t))" "kInitialBucketCount \<le> length (tbl0 ?t)"
    using inv by (auto simp: ht_core_def)
  have p1: "is_pow2 (bucket_count ?t)"
    using p0 ht_core_pow2(2) [OF inv] by (simp add: bucket_count_def rehashing_iff)
  have "kInitialBucketCount \<le> bucket_count ?t"
    using inv by (auto simp: bucket_count_def rehashing_iff ht_core_def)
  then show ?thesis
    using ge [OF p0] ge [OF p1] bucket_index_mod [OF p0(1)] bucket_index_mod [OF p1] by (simp add: Let_def)
qed

text \<open>
  C16. A resize always ends, and costs nothing: repeating the rehashing step (as the server's timer
  does) reaches a table with no resize in progress, also when finishing one resize starts the next.
  None of the steps on the way changes what a lookup finds, the entries the table holds or their
  number, and the bucket count it ends with is one that the load thresholds accept.
\<close>

theorem rehash_completes:
  assumes "0 < n"
  shows "\<exists>m. let t = ht_run ops empty_table; after = (\<lambda>j. ((\<lambda>t. snd (rehash_step n t)) ^^ j) t) in
     \<not> rehashing (after m) \<and> \<not> load_above_max (ht_size t) (length (tbl0 (after m))) \<and>
     (kInitialBucketCount < length (tbl0 (after m)) \<longrightarrow> \<not> load_below_min (ht_size t) (length (tbl0 (after m)))) \<and>
     (\<forall>j. (\<forall>k. ht_find k (after j) = ht_find k t) \<and> mset (ht_entries (after j)) = mset (ht_entries t) \<and>
       ht_size (after j) = ht_size t)"
proof -
  let ?t = "ht_run ops (empty_table :: 'a hash_table)"
  note same = rehash_steps_same [OF ht_run_empty(1) [of ops], where n = n]
  obtain m where m: "\<not> rehashing (((\<lambda>t. snd (rehash_step n t)) ^^ m) ?t)"
    using rehash_terminates [OF ht_run_empty(1) assms] by blast
  moreover have "settled (((\<lambda>t. snd (rehash_step n t)) ^^ m) ?t)"
    using same by (induction m) (simp_all add: settled_run settled_rehash_step)
  ultimately show ?thesis
    using same by (intro exI [of _ m]) (auto simp: settled_def ht_size_def Let_def)
qed

text \<open>A table in the middle of a resize: the thirteenth key is one too many for sixteen buckets.\<close>

definition growing :: "nat ht_op list" where
  "growing = map (\<lambda>c. OpSet [c] 7) ''abcdefghijklm''"

lemma growing_rehashing: "rehashing (ht_run growing empty_table)"
  by code_simp

theorem rehash_completes_witness:
  "rehashing (ht_run growing empty_table) \<and>
   (\<exists>m. \<not> rehashing (((\<lambda>t. snd (rehash_step 3 t)) ^^ m) (ht_run growing empty_table)) \<and>
     (\<forall>k. ht_find k (((\<lambda>t. snd (rehash_step 3 t)) ^^ m) (ht_run growing empty_table)) =
       ht_find k (ht_run growing empty_table)))"
proof -
  have "0 < (3::nat)" by simp
  from rehash_completes [OF this, of growing] growing_rehashing show ?thesis unfolding Let_def by blast
qed

text \<open>
  C24. Sampling a table that is not empty, in any stage of a resize: the buckets it draws from hold
  the entries of the table, each once, and one of them is not empty; \<open>random_entry\<close> returns as
  soon as a draw reaches a bucket that is not empty, and not before; what it returns is an entry;
  and for every entry there are a bucket and a position that return it, however many empty buckets
  are drawn first.
\<close>

theorem random_entry_samples:
  assumes "t = ht_run ops empty_table" "ht_size t \<noteq> 0"
  shows "mset (concat (map (live_bucket t) [0..<live_buckets t])) = mset (ht_entries t) \<and>
    (\<exists>i < live_buckets t. live_bucket t i \<noteq> []) \<and>
    (random_entry draws e t \<noteq> None \<longleftrightarrow> (\<exists>i \<in> set draws. live_bucket t (i mod live_buckets t) \<noteq> [])) \<and>
    (\<forall>q. random_entry draws e t = Some q \<longrightarrow> (\<exists>p \<in> set (ht_entries t). q = Some p)) \<and>
    (\<forall>p \<in> set (ht_entries t). \<exists>i < live_buckets t. \<exists>e. \<forall>skipped rest.
       (\<forall>j \<in> set skipped. live_bucket t (j mod live_buckets t) = []) \<longrightarrow>
       random_entry (skipped @ i # rest) e t = Some (Some p))"
proof (intro conjI allI impI ballI)
  have inv: "ht_inv t" using assms(1) ht_run_empty(1) by blast
  have ne: "num_entries t \<noteq> 0" using assms(2) by (simp add: ht_size_def)
  show "mset (concat (map (live_bucket t) [0..<live_buckets t])) = mset (ht_entries t)"
    by (rule live_buckets_entries [OF inv])
  have "ht_entries t \<noteq> []" using ne inv by (auto simp: num_entries_eq)
  then obtain p where "p \<in> set (ht_entries t)" by (cases "ht_entries t") auto
  from live_bucket_covers [OF inv this] show "\<exists>i < live_buckets t. live_bucket t i \<noteq> []"
    by (metis emptyE list.set(1))
  show "random_entry draws e t \<noteq> None \<longleftrightarrow> (\<exists>i \<in> set draws. live_bucket t (i mod live_buckets t) \<noteq> [])"
    using ne pick_bucket_returns [of t draws] by (simp add: random_entry_def)
  show "\<exists>p \<in> set (ht_entries t). q = Some p" if "random_entry draws e t = Some q" for q
  proof -
    from that ne obtain c where c: "pick_bucket t draws = Some c" "q = Some (c ! (e mod length c))"
      by (auto simp: random_entry_def)
    then show ?thesis using pick_bucket_mem [OF inv c(1)] by (auto intro!: bexI nth_mem)
  qed
  show "\<exists>i < live_buckets t. \<exists>e. \<forall>skipped rest.
       (\<forall>j \<in> set skipped. live_bucket t (j mod live_buckets t) = []) \<longrightarrow>
       random_entry (skipped @ i # rest) e t = Some (Some p)" if "p \<in> set (ht_entries t)" for p
  proof -
    from live_bucket_covers [OF inv that] obtain i where i: "i < live_buckets t" "p \<in> set (live_bucket t i)" .
    then obtain e where "e < length (live_bucket t i)" "live_bucket t i ! e = p"
      by (auto simp: in_set_conv_nth)
    with i ne show ?thesis
      by (intro exI [of _ i] conjI exI [of _ e]) (auto simp: random_entry_def pick_bucket_skip Let_def)
  qed
qed

theorem random_entry_samples_witness:
  "\<exists>i < live_buckets (ht_run growing empty_table). \<exists>e. \<forall>skipped rest.
     (\<forall>j \<in> set skipped. live_bucket (ht_run growing empty_table) (j mod live_buckets (ht_run growing empty_table)) = []) \<longrightarrow>
     random_entry (skipped @ i # rest) e (ht_run growing empty_table) = Some (Some (''c'', 7))"
proof -
  have "ht_size (ht_run growing empty_table) \<noteq> 0" by code_simp
  note r = random_entry_samples [OF refl this]
  have "ht_find ''c'' (ht_run growing empty_table) = Some 7"
    using fun_cong [OF ht_run_empty(2) [of growing], of "''c''"] by (simp add: growing_def)
  then have "(''c'', 7) \<in> set (ht_entries (ht_run growing empty_table))"
    by (simp only: ht.find_entries [OF ht_run_empty(1)])
  with r show ?thesis by blast
qed

end
