(* ===== verification/Cluster_Slot.thy ===== *)
theory Cluster_Slot
  imports Std_Lib
begin

text \<open>
  The mapping of keys to the 16384 hash slots (\<^verbatim>\<open>cluster_slot.hpp\<close>,
  \<^verbatim>\<open>cluster_slot.cpp\<close>): the table-driven CRC16 and the hash-tag rule. The table-driven
  checksum is shown equal to the bitwise definition the table is built from.
\<close>

section \<open>CRC16\<close>

definition kSlots :: nat where
  "kSlots = 16384"

definition crc16_bit :: "u16 \<Rightarrow> u16" where
  "crc16_bit crc = (if crc AND 0x8000 \<noteq> 0 then push_bit 1 crc XOR 0x1021 else push_bit 1 crc)"

definition crc16_table :: "u16 list" where
  "crc16_table = map (\<lambda>i. (crc16_bit ^^ 8) (push_bit 8 (of_nat i))) [0..<256]"

definition crc16_step :: "u16 \<Rightarrow> char \<Rightarrow> u16" where
  "crc16_step crc c =
     push_bit 8 crc XOR crc16_table ! unat ((drop_bit 8 crc XOR of_char c) AND 0xFF)"

definition crc16 :: "bytes \<Rightarrow> u16" where
  "crc16 data = foldl crc16_step 0 data"

definition key_hash_slot :: "bytes \<Rightarrow> nat" where
  "key_hash_slot key =
     (let tagged =
        (case find_char (CHR 0x7B) key 0 of
           Some open \<Rightarrow>
             (case find_char (CHR 0x7D) key (open + 1) of
                Some close \<Rightarrow>
                  if close \<noteq> open + 1 then substr key (open + 1) (close - open - 1) else key
              | None \<Rightarrow> key)
         | None \<Rightarrow> key)
      in unat (crc16 tagged AND of_nat (kSlots - 1)))"

section \<open>The bitwise definition\<close>

text \<open>
  CRC-16/XMODEM as its definition has it: one message bit at a time through the shift register,
  each byte entering at the top.
\<close>

definition crc16_bitwise :: "bytes \<Rightarrow> u16" where
  "crc16_bitwise data = foldl (\<lambda>crc c. (crc16_bit ^^ 8) (crc XOR push_bit 8 (of_char c))) 0 data"

lemma and_0x8000: "(w :: u16) AND 0x8000 \<noteq> 0 \<longleftrightarrow> bit w 15"
proof -
  have "(0x8000 :: u16) = 2 ^ 15" by simp
  then show ?thesis by (metis and_exp_eq_0_iff_not_bit)
qed

lemma crc16_bit_if: "crc16_bit w = (if bit w 15 then push_bit 1 w XOR 0x1021 else push_bit 1 w)"
  unfolding crc16_bit_def and_0x8000 ..

lemma crc16_bit_xor: "crc16_bit (a XOR b) = crc16_bit a XOR crc16_bit b"
  unfolding crc16_bit_if
  by (auto simp: bit_xor_iff push_bit_xor xor.assoc xor.left_commute xor.commute)

lemma crc16_bit_funpow_xor: "(crc16_bit ^^ n) (a XOR b) = (crc16_bit ^^ n) a XOR (crc16_bit ^^ n) b"
  by (induction n) (simp_all add: crc16_bit_xor)

text \<open>Bits that stay below the top are only shifted.\<close>

lemma crc16_bit_funpow_low:
  assumes "\<And>i. 16 - n \<le> i \<Longrightarrow> \<not> bit w i" "n \<le> 16"
  shows "(crc16_bit ^^ n) w = push_bit n w"
  using assms
proof (induction n)
  case (Suc n)
  have IH: "(crc16_bit ^^ n) w = push_bit n w" by (rule Suc.IH) (use Suc.prems in auto)
  have "\<not> bit w (15 - n)" using Suc.prems by simp
  then have "\<not> bit (push_bit n w) 15" by (simp add: bit_push_bit_iff)
  then have "crc16_bit (push_bit n w) = push_bit (Suc n) w"
    unfolding crc16_bit_if by (simp only: if_False push_bit_push_bit) simp
  then show ?case by (simp add: IH)
qed simp

lemma crc16_table_nth: "i < 256 \<Longrightarrow> crc16_table ! i = (crc16_bit ^^ 8) (push_bit 8 (of_nat i))"
  by (simp add: crc16_table_def del: funpow.simps)

lemma crc16_step_bitwise: "crc16_step crc c = (crc16_bit ^^ 8) (crc XOR push_bit 8 (of_char c))"
proof -
  define t :: u16 where "t = (drop_bit 8 crc XOR of_char c) AND 0xFF"
  define lo where "lo = take_bit 8 crc"
  have mask: "(0xFF :: u16) = mask 8" by (simp add: mask_eq_exp_minus_1)
  have t: "t = take_bit 8 (drop_bit 8 crc XOR of_char c)"
    unfolding t_def mask by (simp add: take_bit_eq_mask)
  have "unat t < 256"
    unfolding t unsigned_take_bit_eq
    using take_bit_nat_less_exp [of 8 "unat (drop_bit 8 crc XOR of_char c)"] by simp
  then have tab: "crc16_table ! unat t = (crc16_bit ^^ 8) (push_bit 8 t)"
    using crc16_table_nth [of "unat t"] by (simp del: funpow.simps)
  have split: "crc XOR push_bit 8 (of_char c) = push_bit 8 t XOR lo"
    unfolding t lo_def
    by (rule bit_word_eqI)
      (auto simp: bit_xor_iff bit_push_bit_iff bit_take_bit_iff bit_drop_bit_eq)
  have "(crc16_bit ^^ 8) lo = push_bit 8 lo"
    by (rule crc16_bit_funpow_low) (auto simp: lo_def bit_take_bit_iff)
  moreover have "push_bit 8 lo = push_bit 8 crc"
    unfolding lo_def
    by (rule bit_word_eqI) (auto simp: bit_push_bit_iff bit_take_bit_iff)
  ultimately show ?thesis
    unfolding split crc16_bit_funpow_xor crc16_step_def t_def [symmetric] tab
    by (simp only: xor.commute)
qed

section \<open>Properties\<close>

text \<open>
  C19: the table-driven CRC16, one table look-up per byte, computes the bitwise CRC-16 (polynomial
  0x1021, initial value 0) of every message.
\<close>

theorem crc16_is_bitwise: "crc16 data = crc16_bitwise data"
  unfolding crc16_def crc16_bitwise_def crc16_step_bitwise [symmetric] ..

text \<open>The slot is the checksum modulo the number of slots.\<close>

lemma slot_mask: "unat (w AND of_nat (kSlots - Suc 0)) = unat w mod kSlots" for w :: u16
  using unat_and_of_nat_pow2_minus_1 [where h = w and k = 14] by (simp add: kSlots_def)

lemma key_hash_slot_less: "key_hash_slot key < kSlots"
  by (simp add: key_hash_slot_def Let_def slot_mask [simplified]) (simp add: kSlots_def)

lemma key_hash_slot_no_tag:
  assumes "CHR 0x7B \<notin> set key"
  shows "key_hash_slot key = unat (crc16 key) mod kSlots"
proof -
  have "find_char (CHR 0x7B) key 0 = None" using assms by (simp add: find_char_None)
  then show ?thesis by (simp add: key_hash_slot_def slot_mask)
qed

lemma find_open: "CHR 0x7B \<notin> set pre \<Longrightarrow> find_char (CHR 0x7B) (pre @ CHR 0x7B # rest) 0 = Some (length pre)"
  using find_char_append [of "CHR 0x7B" pre 0 "[]" rest] by simp

lemma key_hash_slot_unclosed:
  assumes "CHR 0x7B \<notin> set pre" "CHR 0x7D \<notin> set rest"
  shows "key_hash_slot (pre @ CHR 0x7B # rest) = unat (crc16 (pre @ CHR 0x7B # rest)) mod kSlots"
  using assms find_char_None [of "CHR 0x7D" "pre @ CHR 0x7B # rest" "length pre + 1"]
  by (simp add: key_hash_slot_def slot_mask find_open)

lemma key_hash_slot_tag:
  assumes "CHR 0x7B \<notin> set pre" "CHR 0x7D \<notin> set tag"
  shows "key_hash_slot (pre @ CHR 0x7B # tag @ CHR 0x7D # post) =
    unat (crc16 (if tag = [] then pre @ CHR 0x7B # tag @ CHR 0x7D # post else tag)) mod kSlots"
  using assms find_char_append [of "CHR 0x7D" tag "length pre + 1" "pre @ [CHR 0x7B]" post]
  by (simp add: key_hash_slot_def slot_mask find_open substr_def)

text \<open>
  C20: every key has a slot below 16384, and the hash-tag rule decides which: with a non-empty tag
  between the first opening brace and the first closing brace after it only the tag is hashed, so
  keys that share a tag share a slot; with no opening brace, no closing brace after it, or an empty
  tag, the whole key is hashed.
\<close>

theorem key_hash_slot_hash_tags:
  "key_hash_slot key < kSlots \<and>
   (CHR 0x7B \<notin> set pre \<and> CHR 0x7D \<notin> set tag \<longrightarrow>
      key_hash_slot (pre @ CHR 0x7B # tag @ CHR 0x7D # post) =
        unat (crc16_bitwise (if tag = [] then pre @ CHR 0x7B # tag @ CHR 0x7D # post else tag))
          mod kSlots) \<and>
   (CHR 0x7B \<notin> set pre \<and> CHR 0x7D \<notin> set rest \<longrightarrow>
      key_hash_slot (pre @ CHR 0x7B # rest) =
        unat (crc16_bitwise (pre @ CHR 0x7B # rest)) mod kSlots) \<and>
   (CHR 0x7B \<notin> set pre \<longrightarrow> key_hash_slot pre = unat (crc16_bitwise pre) mod kSlots)"
  unfolding crc16_bitwise_def crc16_step_bitwise [symmetric] crc16_def [symmetric]
  using key_hash_slot_less key_hash_slot_tag key_hash_slot_unclosed key_hash_slot_no_tag by blast

theorem key_hash_slot_hash_tags_witness:
  "key_hash_slot ''a{user1}b'' = key_hash_slot ''user1'' \<and>
   key_hash_slot ''x{}y'' = unat (crc16_bitwise ''x{}y'') mod kSlots \<and>
   key_hash_slot ''x{y'' = unat (crc16_bitwise ''x{y'') mod kSlots"
  using key_hash_slot_hash_tags [of "[]" "''a''" "''user1''" "''b''" "[]"]
    key_hash_slot_hash_tags [of "[]" "''user1''" "[]" "[]" "[]"]
    key_hash_slot_hash_tags [of "[]" "''x''" "[]" "''y''" "''y''"]
  by simp

end
