(* ===== verification/Store.thy ===== *)
theory Store
  imports Hash_Table Cluster_Slot
begin

text \<open>
  The keyspace (\<^verbatim>\<open>store.hpp\<close>, \<^verbatim>\<open>store.cpp\<close>): values, expiry times, LRU order, the index
  of keys by cluster slot, memory accounting and the deletions the store reports to its listener.

  The two hash tables are those of the theory of hash tables. A linked list is a list of nodes
  with their addresses, so that the iterators that entries hold are addresses: \<open>st_lru\<close> has the
  nodes of \<^verbatim>\<open>lru_\<close> with their keys, and each list of \<open>st_slots\<close> the nodes of one list of
  \<^verbatim>\<open>slots_\<close>, whose contents are addresses of nodes of \<^verbatim>\<open>lru_\<close>. The clock is an
  argument of every operation that reads it, once for each reading, and so are the draws of the
  random generator.
\<close>

section \<open>State\<close>

type_synonym node = nat

record entry =
  e_value :: bytes
  e_lru_pos :: node
  e_slot_pos :: node

datatype eviction_policy = kNoEviction | kAllKeysLru

record store =
  st_maxmemory :: nat
  st_policy :: eviction_policy
  st_dict :: "entry hash_table"
  st_expires :: "int hash_table"
  st_lru :: "(node \<times> bytes) list"
  st_slots :: "(node \<times> node) list list"
  st_next :: node
  st_passive :: bool
  st_used_memory :: nat
  st_expired_keys :: nat
  st_evicted_keys :: nat
  st_notified :: "bytes list"

definition make_store :: "nat \<Rightarrow> eviction_policy \<Rightarrow> store" where
  "make_store maxmemory policy =
     \<lparr>st_maxmemory = maxmemory, st_policy = policy, st_dict = empty_table, st_expires = empty_table,
      st_lru = [], st_slots = replicate kSlots [], st_next = 0, st_passive = False,
      st_used_memory = 0, st_expired_keys = 0, st_evicted_keys = 0, st_notified = []\<rparr>"

definition entry_cost :: "bytes \<Rightarrow> nat \<Rightarrow> nat" where
  "entry_cost key value_size = 128 + 2 * length key + value_size"

definition expire_cost :: "bytes \<Rightarrow> nat" where
  "expire_cost key = 64 + length key"

definition kExpireSamplesPerLoop :: nat where
  "kExpireSamplesPerLoop = 20"

text \<open>\<open>std::list::erase\<close> of the node at an address, and \<open>splice\<close> of it to the front.\<close>

definition list_erase :: "node \<Rightarrow> (node \<times> 'a) list \<Rightarrow> (node \<times> 'a) list" where
  "list_erase p l = filter (\<lambda>n. fst n \<noteq> p) l"

definition list_splice_front :: "node \<Rightarrow> (node \<times> 'a) list \<Rightarrow> (node \<times> 'a) list" where
  "list_splice_front p l = filter (\<lambda>n. fst n = p) l @ list_erase p l"

section \<open>Operations\<close>

text \<open>The listener's calls are recorded in order.\<close>

definition notify_deleted :: "bytes \<Rightarrow> store \<Rightarrow> store" where
  "notify_deleted key st = st\<lparr>st_notified := st_notified st @ [key]\<rparr>"

definition clear_expire :: "bytes \<Rightarrow> store \<Rightarrow> bool \<times> store" where
  "clear_expire key st =
     (case ht_del key (st_expires st) of
        (False, t) \<Rightarrow> (False, st\<lparr>st_expires := t\<rparr>)
      | (True, t) \<Rightarrow>
          (True, st\<lparr>st_expires := t, st_used_memory := st_used_memory st - expire_cost key\<rparr>))"

definition store_remove :: "bytes \<Rightarrow> store \<Rightarrow> bool \<times> store" where
  "store_remove key st =
     (case ht_find key (st_dict st) of
        None \<Rightarrow> (False, st)
      | Some e \<Rightarrow>
          (let st = st\<lparr>st_used_memory := st_used_memory st - entry_cost key (length (e_value e))\<rparr>;
               s = key_hash_slot key;
               st = st\<lparr>st_slots := (st_slots st)[s := list_erase (e_slot_pos e) (st_slots st ! s)]\<rparr>;
               st = st\<lparr>st_lru := list_erase (e_lru_pos e) (st_lru st)\<rparr>;
               st = st\<lparr>st_dict := snd (ht_del key (st_dict st))\<rparr>;
               st = snd (clear_expire key st)
           in (True, st)))"

definition expire_if_needed :: "int \<Rightarrow> bytes \<Rightarrow> store \<Rightarrow> bool \<times> store" where
  "expire_if_needed now key st =
     (if ht_size (st_expires st) = 0 then (False, st)
      else case ht_find key (st_expires st) of
        None \<Rightarrow> (False, st)
      | Some w \<Rightarrow>
          if w > now then (False, st)
          else if st_passive st then (True, st)
          else let st = snd (store_remove key st);
                   st = st\<lparr>st_expired_keys := st_expired_keys st + 1\<rparr>
               in (True, notify_deleted key st))"

text \<open>The entry pointer that is returned is read at once by the callers: its value is returned.\<close>

definition lookup :: "int \<Rightarrow> bytes \<Rightarrow> bool \<Rightarrow> store \<Rightarrow> entry option \<times> store" where
  "lookup now key touch st =
     (case expire_if_needed now key st of
        (True, st) \<Rightarrow> (None, st)
      | (False, st) \<Rightarrow>
          (case ht_find key (st_dict st) of
             None \<Rightarrow> (None, st)
           | Some e \<Rightarrow>
               (Some e, if touch then st\<lparr>st_lru := list_splice_front (e_lru_pos e) (st_lru st)\<rparr> else st)))"

definition store_get :: "int \<Rightarrow> bytes \<Rightarrow> store \<Rightarrow> bytes option \<times> store" where
  "store_get now key st =
     (case lookup now key True st of (e, st) \<Rightarrow> (map_option e_value e, st))"

definition store_exists :: "int \<Rightarrow> bytes \<Rightarrow> store \<Rightarrow> bool \<times> store" where
  "store_exists now key st = (case lookup now key True st of (e, st) \<Rightarrow> (e \<noteq> None, st))"

definition store_contains :: "int \<Rightarrow> bytes \<Rightarrow> store \<Rightarrow> bool \<times> store" where
  "store_contains now key st = (case lookup now key False st of (e, st) \<Rightarrow> (e \<noteq> None, st))"

text \<open>The new nodes of the two lists get the next two addresses.\<close>

definition store_set :: "int \<Rightarrow> bytes \<Rightarrow> bytes \<Rightarrow> bool \<Rightarrow> store \<Rightarrow> store" where
  "store_set now key value keep_ttl st =
     (case lookup now key True st of
        (Some e, st) \<Rightarrow>
          (let st = st\<lparr>st_used_memory := st_used_memory st - length (e_value e) + length value\<rparr>;
               st = st\<lparr>st_dict := ht_assign key (e\<lparr>e_value := value\<rparr>) (st_dict st)\<rparr>
           in if \<not> keep_ttl then snd (clear_expire key st) else st)
      | (None, st) \<Rightarrow>
          (let st = (if st_passive st then snd (store_remove key st) else st);
               st = st\<lparr>st_used_memory := st_used_memory st + entry_cost key (length value)\<rparr>;
               p = st_next st; i = Suc p; s = key_hash_slot key;
               st = st\<lparr>st_lru := (p, key) # st_lru st\<rparr>;
               st = st\<lparr>st_slots := (st_slots st)[s := (i, p) # st_slots st ! s], st_next := Suc i\<rparr>
           in st\<lparr>st_dict :=
                snd (ht_set key \<lparr>e_value = value, e_lru_pos = p, e_slot_pos = i\<rparr> (st_dict st))\<rparr>))"

definition store_del :: "int \<Rightarrow> bytes \<Rightarrow> store \<Rightarrow> bool \<times> store" where
  "store_del now key st =
     (case lookup now key False st of (e, st) \<Rightarrow> (e \<noteq> None, snd (store_remove key st)))"

definition store_set_expire :: "int \<Rightarrow> int \<Rightarrow> bytes \<Rightarrow> int \<Rightarrow> store \<Rightarrow> bool \<times> store" where
  "store_set_expire now now' key when_ms st =
     (case lookup now key True st of
        (None, st) \<Rightarrow> (False, st)
      | (Some _, st) \<Rightarrow>
          if when_ms \<le> now' \<and> \<not> st_passive st then (True, snd (store_remove key st))
          else (True,
            case ht_find key (st_expires st) of
              Some _ \<Rightarrow> st\<lparr>st_expires := ht_assign key when_ms (st_expires st)\<rparr>
            | None \<Rightarrow> st\<lparr>st_expires := snd (ht_set key when_ms (st_expires st)),
                          st_used_memory := st_used_memory st + expire_cost key\<rparr>))"

definition store_persist :: "int \<Rightarrow> bytes \<Rightarrow> store \<Rightarrow> bool \<times> store" where
  "store_persist now key st =
     (case lookup now key True st of
        (None, st) \<Rightarrow> (False, st)
      | (Some _, st) \<Rightarrow> clear_expire key st)"

definition store_pttl :: "int \<Rightarrow> int \<Rightarrow> bytes \<Rightarrow> store \<Rightarrow> int \<times> store" where
  "store_pttl now now' key st =
     (case lookup now key False st of
        (None, st) \<Rightarrow> (- 2, st)
      | (Some _, st) \<Rightarrow>
          (case ht_find key (st_expires st) of
             None \<Rightarrow> (- 1, st)
           | Some w \<Rightarrow> (w - now', st)))"

partial_function (option) evict_loop :: "store \<Rightarrow> (bool \<times> store) option" where
  "evict_loop st =
     (if st_used_memory st > st_maxmemory st then
        if st_policy st = kNoEviction \<or> st_lru st = [] then Some (False, st)
        else let victim = snd (last (st_lru st));
                 st = snd (store_remove victim st);
                 st = st\<lparr>st_evicted_keys := st_evicted_keys st + 1\<rparr>
             in evict_loop (notify_deleted victim st)
      else Some (True, st))"

definition evict_if_needed :: "store \<Rightarrow> (bool \<times> store) option" where
  "evict_if_needed st = (if st_maxmemory st = 0 then Some (True, st) else evict_loop st)"

text \<open>
  The sampling loop of one round: \<open>i\<close> samples to go, one pair of draws for each. \<^const>\<open>None\<close> is a
  loop that has used up its draws.
\<close>

fun expire_samples ::
  "nat \<Rightarrow> int \<Rightarrow> (nat list \<times> nat) list \<Rightarrow> nat \<Rightarrow> store \<Rightarrow> (nat \<times> store) option" where
  "expire_samples 0 now draws expired st = Some (expired, st)"
| "expire_samples (Suc i) now draws expired st =
     (if ht_size (st_expires st) > 0 then
        (case draws of
           [] \<Rightarrow> None
         | d # draws \<Rightarrow>
             (case random_entry (fst d) (snd d) (st_expires st) of
                Some (Some (key, when)) \<Rightarrow>
                  if when \<le> now
                  then expire_samples i now draws (Suc expired)
                         (notify_deleted key (snd (store_remove key st)))
                  else expire_samples i now draws expired st
              | _ \<Rightarrow> None))
      else Some (expired, st))"

text \<open>
  What a round reads of its surroundings: the clock, the random draws, and whether the deadline
  has passed at its end.
\<close>

record expire_round =
  er_now :: int
  er_draws :: "(nat list \<times> nat) list"
  er_timeup :: bool

fun active_expire_loop :: "expire_round list \<Rightarrow> nat \<Rightarrow> store \<Rightarrow> (nat \<times> store) option" where
  "active_expire_loop rounds total_expired st =
     (if ht_size (st_expires st) > 0 then
        (case rounds of
           [] \<Rightarrow> None
         | r # rounds \<Rightarrow>
             (let sampled = min kExpireSamplesPerLoop (ht_size (st_expires st)) in
              case expire_samples sampled (er_now r) (er_draws r) 0 st of
                None \<Rightarrow> None
              | Some (expired, st) \<Rightarrow>
                  let total_expired = total_expired + expired in
                  if expired * 4 \<le> sampled \<or> er_timeup r then Some (total_expired, st)
                  else active_expire_loop rounds total_expired st))
      else Some (total_expired, st))"

declare active_expire_loop.simps [simp del]

definition active_expire_cycle :: "expire_round list \<Rightarrow> store \<Rightarrow> (nat \<times> store) option" where
  "active_expire_cycle rounds st =
     (if st_passive st then Some (0, st)
      else case active_expire_loop rounds 0 st of
        None \<Rightarrow> None
      | Some (total_expired, st) \<Rightarrow> Some (total_expired, st\<lparr>st_expired_keys := st_expired_keys st + total_expired\<rparr>))"

text \<open>The argument says, pass by pass, whether the deadline has passed.\<close>

fun active_rehash_loop :: "bool list \<Rightarrow> store \<Rightarrow> store option" where
  "active_rehash_loop timeups st =
     (if rehashing (st_dict st) \<or> rehashing (st_expires st) then
        let st = st\<lparr>st_dict := snd (rehash_step 100 (st_dict st)),
                    st_expires := snd (rehash_step 100 (st_expires st))\<rparr> in
        (case timeups of
           [] \<Rightarrow> None
         | timeup # timeups \<Rightarrow> if timeup then Some st else active_rehash_loop timeups st)
      else Some st)"

declare active_rehash_loop.simps [simp del]

definition active_rehash :: "bool list \<Rightarrow> store \<Rightarrow> (bool \<times> store) option" where
  "active_rehash timeups st =
     map_option (\<lambda>st. (rehashing (st_dict st) \<or> rehashing (st_expires st), st))
       (active_rehash_loop timeups st)"

definition store_clear :: "store \<Rightarrow> store" where
  "store_clear st =
     st\<lparr>st_dict := empty_table, st_expires := empty_table, st_lru := [],
        st_slots := replicate kSlots [], st_used_memory := 0\<rparr>"

definition set_passive_expiry :: "bool \<Rightarrow> store \<Rightarrow> store" where
  "set_passive_expiry on st = st\<lparr>st_passive := on\<rparr>"

text \<open>Following a pointer to a key in a node of \<^verbatim>\<open>lru_\<close>.\<close>

definition node_key :: "store \<Rightarrow> node \<Rightarrow> bytes" where
  "node_key st p = the (map_of (st_lru st) p)"

definition keys_in_slot :: "nat \<Rightarrow> nat \<Rightarrow> store \<Rightarrow> bytes list" where
  "keys_in_slot slot limit st = take limit (map (\<lambda>n. node_key st (snd n)) (st_slots st ! slot))"

definition count_keys_in_slot :: "nat \<Rightarrow> store \<Rightarrow> nat" where
  "count_keys_in_slot slot st = length (st_slots st ! slot)"

partial_function (option) delete_slot_loop :: "nat \<Rightarrow> nat \<Rightarrow> store \<Rightarrow> (nat \<times> store) option" where
  "delete_slot_loop slot deleted st =
     (if st_slots st ! slot \<noteq> [] then
        let victim = node_key st (snd (hd (st_slots st ! slot)));
            st = snd (store_remove victim st)
        in delete_slot_loop slot (deleted + 1) (notify_deleted victim st)
      else Some (deleted, st))"

definition delete_slot :: "nat \<Rightarrow> store \<Rightarrow> (nat \<times> store) option" where
  "delete_slot slot st = delete_slot_loop slot 0 st"

text \<open>What \<open>for_each\<close> passes to its argument: the expiry is \<open>-1\<close> for a key that has none.\<close>

definition store_for_each :: "store \<Rightarrow> (bytes \<times> bytes \<times> int) list" where
  "store_for_each st =
     map (\<lambda>(key, e). (key, e_value e,
            case ht_find key (st_expires st) of Some w \<Rightarrow> w | None \<Rightarrow> - 1)) (ht_entries (st_dict st))"

definition store_size :: "store \<Rightarrow> nat" where
  "store_size st = ht_size (st_dict st)"

end
