(* ===== verification/Store_Refinement.thy ===== *)
theory Store_Refinement
  imports Store
begin

text \<open>
  The store against its specification. The specification has no hash tables, list nodes, iterators
  or counters: a finite map from keys to values with an optional expiry, the order of use, and the
  log of reported deletions. The invariant says when a store represents such a state (every
  iterator an entry holds points at the node of its key, the slot lists index exactly the keys,
  the memory counter is the sum of the costs); every operation is shown to keep it and to answer
  and change the state as the specification does.
\<close>

section \<open>Specification\<close>

record kv =
  kv_map :: "bytes \<rightharpoonup> bytes \<times> int option"
  kv_order :: "bytes list"
  kv_log :: "bytes list"

definition kv_cost :: "(bytes \<rightharpoonup> bytes \<times> int option) \<Rightarrow> bytes \<Rightarrow> nat" where
  "kv_cost m k =
     (case m k of
        None \<Rightarrow> 0
      | Some (v, w) \<Rightarrow> entry_cost k (length v) + (if w = None then 0 else expire_cost k))"

definition kv_used :: "kv \<Rightarrow> nat" where
  "kv_used s = sum_list (map (kv_cost (kv_map s)) (kv_order s))"

definition kv_expired :: "int \<Rightarrow> bytes \<Rightarrow> kv \<Rightarrow> bool" where
  "kv_expired now k s \<longleftrightarrow> (\<exists>v w. kv_map s k = Some (v, Some w) \<and> w \<le> now)"

definition kv_live :: "int \<Rightarrow> bytes \<Rightarrow> kv \<Rightarrow> bool" where
  "kv_live now k s \<longleftrightarrow> kv_map s k \<noteq> None \<and> \<not> kv_expired now k s"

definition kv_delete :: "bytes \<Rightarrow> kv \<Rightarrow> kv" where
  "kv_delete k s = s\<lparr>kv_map := (kv_map s)(k := None), kv_order := removeAll k (kv_order s)\<rparr>"

definition kv_report :: "bytes \<Rightarrow> kv \<Rightarrow> kv" where
  "kv_report k s = s\<lparr>kv_log := kv_log s @ [k]\<rparr>"

definition kv_touch :: "bytes \<Rightarrow> kv \<Rightarrow> kv" where
  "kv_touch k s = s\<lparr>kv_order := k # removeAll k (kv_order s)\<rparr>"

text \<open>Reaping: an expired key that is accessed is deleted and reported, unless expiry is passive.\<close>

definition kv_reap :: "bool \<Rightarrow> int \<Rightarrow> bytes \<Rightarrow> kv \<Rightarrow> kv" where
  "kv_reap passive now k s = (if kv_expired now k s \<and> \<not> passive then kv_report k (kv_delete k s) else s)"

text \<open>Access: reap, then touch what is live.\<close>

definition kv_access :: "bool \<Rightarrow> int \<Rightarrow> bytes \<Rightarrow> bool \<Rightarrow> kv \<Rightarrow> kv" where
  "kv_access passive now k touch s =
     (if kv_live now k s \<and> touch then kv_touch k s else kv_reap passive now k s)"

definition kv_put :: "bytes \<Rightarrow> bytes \<Rightarrow> int option \<Rightarrow> kv \<Rightarrow> kv" where
  "kv_put k v w s = s\<lparr>kv_map := (kv_map s)(k \<mapsto> (v, w)), kv_order := k # removeAll k (kv_order s)\<rparr>"

definition kv_ttl :: "bytes \<Rightarrow> kv \<Rightarrow> int option" where
  "kv_ttl k s = Option.bind (kv_map s k) snd"

section \<open>Representation\<close>

definition st_kv :: "store \<Rightarrow> kv" where
  "st_kv st =
     \<lparr>kv_map = (\<lambda>k. map_option (\<lambda>e. (e_value e, ht_find k (st_expires st))) (ht_find k (st_dict st))),
      kv_order = map snd (st_lru st), kv_log = st_notified st\<rparr>"

text \<open>The LRU list has one node for each entry, at the address the entry holds.\<close>

definition lru_ok :: "entry hash_table \<Rightarrow> (node \<times> bytes) list \<Rightarrow> node \<Rightarrow> bool" where
  "lru_ok dict lru next \<longleftrightarrow>
     distinct (map fst lru) \<and> distinct (map snd lru) \<and> (\<forall>n \<in> set lru. fst n < next) \<and>
     (\<forall>p k. (p, k) \<in> set lru \<longleftrightarrow> (\<exists>e. ht_find k dict = Some e \<and> e_lru_pos e = p))"

text \<open>The list of a slot has one node for each entry of the slot, pointing at its LRU node.\<close>

definition slot_ok :: "entry hash_table \<Rightarrow> nat \<Rightarrow> (node \<times> node) list \<Rightarrow> node \<Rightarrow> bool" where
  "slot_ok dict s l next \<longleftrightarrow>
     distinct (map fst l) \<and> (\<forall>n \<in> set l. fst n < next) \<and>
     (\<forall>i p. (i, p) \<in> set l \<longleftrightarrow>
        (\<exists>k e. ht_find k dict = Some e \<and> key_hash_slot k = s \<and> e_slot_pos e = i \<and> e_lru_pos e = p))"

definition slots_ok :: "entry hash_table \<Rightarrow> (node \<times> node) list list \<Rightarrow> node \<Rightarrow> bool" where
  "slots_ok dict slots next \<longleftrightarrow> length slots = kSlots \<and> (\<forall>s < kSlots. slot_ok dict s (slots ! s) next)"

definition store_inv :: "store \<Rightarrow> bool" where
  "store_inv st \<longleftrightarrow>
     ht_inv (st_dict st) \<and> ht_inv (st_expires st) \<and>
     lru_ok (st_dict st) (st_lru st) (st_next st) \<and>
     slots_ok (st_dict st) (st_slots st) (st_next st) \<and>
     (\<forall>k. ht_find k (st_expires st) \<noteq> None \<longrightarrow> ht_find k (st_dict st) \<noteq> None) \<and>
     st_used_memory st = kv_used (st_kv st)"

text \<open>What the specification's states satisfy.\<close>

definition kv_ok :: "kv \<Rightarrow> bool" where
  "kv_ok s \<longleftrightarrow> distinct (kv_order s) \<and> set (kv_order s) = dom (kv_map s)"

lemma store_inv_kv_ok:
  assumes "store_inv st"
  shows "kv_ok (st_kv st)"
proof -
  have l: "lru_ok (st_dict st) (st_lru st) (st_next st)" using assms by (simp add: store_inv_def)
  have "k \<in> snd ` set (st_lru st) \<longleftrightarrow> ht_find k (st_dict st) \<noteq> None" for k
  proof -
    have "k \<in> snd ` set (st_lru st) \<longleftrightarrow> (\<exists>p. (p, k) \<in> set (st_lru st))" by force
    also have "\<dots> \<longleftrightarrow> ht_find k (st_dict st) \<noteq> None" using l by (auto simp: lru_ok_def)
    finally show ?thesis .
  qed
  then show ?thesis using l by (auto simp: kv_ok_def st_kv_def dom_def lru_ok_def)
qed

section \<open>Memory\<close>

lemma sum_list_removeAll:
  fixes f :: "'a \<Rightarrow> nat"
  shows "distinct xs \<Longrightarrow> x \<in> set xs \<Longrightarrow> sum_list (map f xs) = f x + sum_list (map f (removeAll x xs))"
  by (simp add: distinct_remove1_removeAll [symmetric] sum_list_map_remove1)

lemma kv_cost_upd_other: "k \<notin> set xs \<Longrightarrow> map (kv_cost (m(k := x))) xs = map (kv_cost m) xs"
  by (auto simp: kv_cost_def)

lemma kv_used_split:
  assumes "kv_ok s" "kv_map s k \<noteq> None"
  shows "kv_used s = kv_cost (kv_map s) k + sum_list (map (kv_cost (kv_map s)) (removeAll k (kv_order s)))"
  unfolding kv_used_def by (rule sum_list_removeAll) (use assms in \<open>auto simp: kv_ok_def\<close>)

lemma kv_used_delete:
  "kv_ok s \<Longrightarrow> kv_map s k \<noteq> None \<Longrightarrow> kv_used (kv_delete k s) = kv_used s - kv_cost (kv_map s) k"
  by (simp add: kv_used_split) (simp add: kv_used_def kv_delete_def kv_cost_upd_other)

lemma kv_used_touch: "kv_ok s \<Longrightarrow> kv_map s k \<noteq> None \<Longrightarrow> kv_used (kv_touch k s) = kv_used s"
  by (simp add: kv_used_split) (simp add: kv_used_def kv_touch_def)

lemma kv_used_put:
  "kv_ok s \<Longrightarrow> kv_used (kv_put k v w s) =
     kv_used s - kv_cost (kv_map s) k + entry_cost k (length v) + (if w = None then 0 else expire_cost k)"
proof (cases "kv_map s k")
  case None
  assume ok: "kv_ok s"
  then have "k \<notin> set (kv_order s)" using None by (auto simp: kv_ok_def)
  then show ?thesis
    using None by (simp add: kv_used_def kv_put_def kv_cost_upd_other) (simp add: kv_cost_def)
next
  case (Some x)
  assume "kv_ok s"
  from kv_used_split [OF this, of k] Some
  have "kv_used s - kv_cost (kv_map s) k = sum_list (map (kv_cost (kv_map s)) (removeAll k (kv_order s)))"
    by simp
  moreover have "kv_used (kv_put k v w s) = entry_cost k (length v) + (if w = None then 0 else expire_cost k) +
      sum_list (map (kv_cost (kv_map s)) (removeAll k (kv_order s)))"
    by (simp add: kv_used_def kv_put_def kv_cost_upd_other) (simp add: kv_cost_def)
  ultimately show ?thesis by simp
qed

text \<open>Changing the binding of a key that is present, where it is.\<close>

lemma kv_used_update:
  assumes "kv_ok s" "kv_map s k = Some x"
  shows "kv_used (s\<lparr>kv_map := (kv_map s)(k \<mapsto> (v, w))\<rparr>) =
    kv_used s - kv_cost (kv_map s) k + entry_cost k (length v) + (if w = None then 0 else expire_cost k)"
proof -
  let ?s = "s\<lparr>kv_map := (kv_map s)(k \<mapsto> (v, w))\<rparr>"
  have ok: "kv_ok ?s" using assms by (auto simp: kv_ok_def)
  have "kv_used ?s = kv_cost (kv_map ?s) k + sum_list (map (kv_cost (kv_map ?s)) (removeAll k (kv_order ?s)))"
    by (rule kv_used_split [OF ok]) simp
  moreover have "kv_used s = kv_cost (kv_map s) k + sum_list (map (kv_cost (kv_map s)) (removeAll k (kv_order s)))"
    by (rule kv_used_split [OF assms(1)]) (simp add: assms(2))
  ultimately show ?thesis by (simp add: kv_cost_upd_other) (simp add: kv_cost_def)
qed

section \<open>Lists of nodes\<close>

lemma set_list_erase: "set (list_erase p l) = {n \<in> set l. fst n \<noteq> p}"
  by (auto simp: list_erase_def)

lemma distinct_list_erase: "distinct (map f l) \<Longrightarrow> distinct (map f (list_erase p l))"
  by (simp add: list_erase_def distinct_map_filter)

text \<open>Erasing the node of a key, in a list with one node for each key.\<close>

lemma map_snd_list_erase:
  assumes "distinct (map fst l)" "distinct (map snd l)" "(p, k) \<in> set l"
  shows "map snd (list_erase p l) = removeAll k (map snd l)"
proof -
  have "fst n = p \<longleftrightarrow> snd n = k" if "n \<in> set l" for n
    using that assms by (metis eq_key_imp_eq_value fst_conv snd_conv inj_onD distinct_map)
  then have "list_erase p l = filter (\<lambda>n. snd n \<noteq> k) l"
    unfolding list_erase_def by (intro filter_cong) auto
  then show ?thesis by (simp add: removeAll_filter_not_eq filter_map comp_def eq_commute)
qed

lemma map_snd_list_splice:
  assumes "distinct (map fst l)" "distinct (map snd l)" "(p, k) \<in> set l"
  shows "map snd (list_splice_front p l) = k # removeAll k (map snd l)"
proof -
  have "filter (\<lambda>n. fst n = p) l = [(p, k)]"
    using assms(1,3)
  proof (induction l)
    case (Cons a l)
    show ?case
    proof (cases "fst a = p")
      case True
      then have "a = (p, k)" "filter (\<lambda>n. fst n = p) l = []"
        using Cons.prems by (auto simp: filter_empty_conv image_iff)
      then show ?thesis by simp
    qed (use Cons in auto)
  qed simp
  then show ?thesis using map_snd_list_erase [OF assms] by (simp add: list_splice_front_def)
qed

lemma set_list_splice: "set (list_splice_front p l) = set l"
  by (auto simp: list_splice_front_def list_erase_def)

lemma distinct_list_splice:
  "distinct (map f l) \<Longrightarrow> distinct (map f (list_splice_front p l))"
  using mset_map [of f "list_splice_front p l"]
  by (metis list_splice_front_def list_erase_def mset_append mset_filter mset_map multiset_partition
      mset_eq_imp_distinct_iff union_commute)

section \<open>The indexes under changes of the dictionary\<close>

lemma lru_ok_pos_inj:
  assumes "lru_ok dict lru nx" "ht_find k dict = Some e" "ht_find k' dict = Some e'"
    "e_lru_pos e = e_lru_pos e'"
  shows "k = k'"
proof -
  have "(e_lru_pos e, k) \<in> set lru" "(e_lru_pos e, k') \<in> set lru"
    using assms by (auto simp: lru_ok_def)
  moreover have "distinct (map fst lru)" using assms(1) by (simp add: lru_ok_def)
  ultimately show ?thesis using eq_key_imp_eq_value by metis
qed

lemma slot_ok_pos_inj:
  assumes "slot_ok dict s l nx" "lru_ok dict lru nx'" "ht_find k dict = Some e" "ht_find k' dict = Some e'"
    "key_hash_slot k = s" "key_hash_slot k' = s" "e_slot_pos e = e_slot_pos e'"
  shows "k = k'"
proof -
  have "(e_slot_pos e, e_lru_pos e) \<in> set l" "(e_slot_pos e, e_lru_pos e') \<in> set l"
    using assms unfolding slot_ok_def by metis+
  moreover have "distinct (map fst l)" using assms(1) by (simp add: slot_ok_def)
  ultimately have "e_lru_pos e = e_lru_pos e'" using eq_key_imp_eq_value by metis
  with assms(2-4) show ?thesis by (rule lru_ok_pos_inj)
qed

lemma lru_ok_del:
  assumes inv: "ht_inv dict" and ok: "lru_ok dict lru nx" and e: "ht_find k dict = Some e"
  shows "lru_ok (snd (ht_del k dict)) (list_erase (e_lru_pos e) lru) nx"
  using ok lru_ok_pos_inj [OF ok _ e]
  unfolding lru_ok_def
  by (auto simp: distinct_list_erase set_list_erase ht.find_del [OF inv] e)

lemma ex_find_del:
  "ht_inv dict \<Longrightarrow> (\<exists>k' e. ht_find k' (snd (ht_del k dict)) = Some e \<and> P k' e) \<longleftrightarrow>
     (\<exists>k' e. k' \<noteq> k \<and> ht_find k' dict = Some e \<and> P k' e)"
  by (auto simp: ht.find_del split: if_splits)

lemma ex_find_put:
  "ht_inv dict \<Longrightarrow> ht_find k dict = None \<Longrightarrow>
     (\<exists>k' e'. ht_find k' (snd (ht_set k e dict)) = Some e' \<and> P k' e') \<longleftrightarrow>
     P k e \<or> (\<exists>k' e'. ht_find k' dict = Some e' \<and> P k' e')"
  by (auto simp: ht.find_put split: if_splits) (metis option.distinct(1))

lemma slot_ok_del:
  assumes inv: "ht_inv dict" and ok: "slot_ok dict s l nx" and lru: "lru_ok dict lru nx'"
    and e: "ht_find k dict = Some e"
  shows "slot_ok (snd (ht_del k dict)) s (if s = key_hash_slot k then list_erase (e_slot_pos e) l else l) nx"
proof -
  have iff: "(i, p) \<in> set l \<longleftrightarrow>
      (\<exists>k e. ht_find k dict = Some e \<and> key_hash_slot k = s \<and> e_slot_pos e = i \<and> e_lru_pos e = p)" for i p
    using ok unfolding slot_ok_def by blast
  have mem: "(i, p) \<in> set (if s = key_hash_slot k then list_erase (e_slot_pos e) l else l) \<longleftrightarrow>
      (\<exists>k' e'. k' \<noteq> k \<and> ht_find k' dict = Some e' \<and> key_hash_slot k' = s \<and> e_slot_pos e' = i \<and> e_lru_pos e' = p)"
    (is "?l \<longleftrightarrow> ?r") for i p
  proof (cases "s = key_hash_slot k")
    case True
    have "?l \<longleftrightarrow> (i, p) \<in> set l \<and> i \<noteq> e_slot_pos e" unfolding if_P [OF True] set_list_erase by simp
    also have "\<dots> \<longleftrightarrow> ?r"
    proof
      assume "(i, p) \<in> set l \<and> i \<noteq> e_slot_pos e"
      then obtain k' e' where "ht_find k' dict = Some e'" "key_hash_slot k' = s" "e_slot_pos e' = i"
        "e_lru_pos e' = p" "i \<noteq> e_slot_pos e" unfolding iff by blast
      moreover from this have "k' \<noteq> k" using e by auto
      ultimately show ?r by blast
    next
      assume ?r
      then obtain k' e' where "k' \<noteq> k" and f: "ht_find k' dict = Some e'" "key_hash_slot k' = s"
        "e_slot_pos e' = i" "e_lru_pos e' = p" by blast
      moreover from this have "i \<noteq> e_slot_pos e"
        using slot_ok_pos_inj [OF ok lru f(1) e f(2)] True by auto
      ultimately show "(i, p) \<in> set l \<and> i \<noteq> e_slot_pos e" unfolding iff by blast
    qed
    finally show ?thesis .
  next
    case False
    then have "k' \<noteq> k" if "key_hash_slot k' = s" for k' using that by blast
    then show ?thesis unfolding if_not_P [OF False] iff by metis
  qed
  have "distinct (map fst l)" "\<forall>n \<in> set l. fst n < nx" using ok unfolding slot_ok_def by blast+
  then have "distinct (map fst (if s = key_hash_slot k then list_erase (e_slot_pos e) l else l))"
    "\<forall>n \<in> set (if s = key_hash_slot k then list_erase (e_slot_pos e) l else l). fst n < nx"
    by (simp_all add: distinct_list_erase set_list_erase)
  with mem show ?thesis unfolding slot_ok_def ex_find_del [OF inv] by blast
qed

lemma slots_ok_del:
  assumes inv: "ht_inv dict" and ok: "slots_ok dict slots nx" and lru: "lru_ok dict lru nx'"
    and e: "ht_find k dict = Some e" and s: "s = key_hash_slot k"
  shows "slots_ok (snd (ht_del k dict)) (slots[s := list_erase (e_slot_pos e) (slots ! s)]) nx"
  unfolding slots_ok_def
proof (intro conjI allI impI)
  fix t assume t: "t < kSlots"
  then have "slot_ok dict t (slots ! t) nx" using ok by (simp add: slots_ok_def)
  from slot_ok_del [OF inv this lru e] ok t s
  show "slot_ok (snd (ht_del k dict)) t (slots[s := list_erase (e_slot_pos e) (slots ! s)] ! t) nx"
    by (auto simp: slots_ok_def nth_list_update split: if_splits)
qed (use ok in \<open>simp add: slots_ok_def\<close>)

lemma lru_ok_put:
  assumes inv: "ht_inv dict" and ok: "lru_ok dict lru nx" and k: "ht_find k dict = None"
    and p: "nx \<le> p" "p < nx'" "e_lru_pos e = p"
  shows "lru_ok (snd (ht_set k e dict)) ((p, k) # lru) nx'"
proof -
  have "k \<notin> snd ` set lru" using ok k unfolding lru_ok_def by (metis imageE option.distinct(1) prod.collapse)
  moreover have "p \<notin> fst ` set lru" using ok p(1) unfolding lru_ok_def by fastforce
  ultimately show ?thesis
    using ok p k unfolding lru_ok_def by (auto simp: ht.find_put [OF inv])
qed

lemma slot_ok_put:
  assumes inv: "ht_inv dict" and ok: "slot_ok dict s l nx" and k: "ht_find k dict = None"
    and p: "nx \<le> i" "i < nx'" "e_slot_pos e = i" "e_lru_pos e = p"
  shows "slot_ok (snd (ht_set k e dict)) s (if s = key_hash_slot k then (i, p) # l else l) nx'"
proof -
  have "i \<notin> fst ` set l" using ok p(1) unfolding slot_ok_def by fastforce
  moreover have "\<forall>n \<in> set l. fst n < nx'" using ok p(1,2) unfolding slot_ok_def by fastforce
  ultimately show ?thesis
    using ok p unfolding slot_ok_def ex_find_put [OF inv k] by auto
qed

lemma slots_ok_put:
  assumes inv: "ht_inv dict" and ok: "slots_ok dict slots nx" and k: "ht_find k dict = None"
    and p: "nx \<le> i" "i < nx'" "e_slot_pos e = i" "e_lru_pos e = p" and s: "s = key_hash_slot k"
  shows "slots_ok (snd (ht_set k e dict)) (slots[s := (i, p) # slots ! s]) nx'"
  unfolding slots_ok_def
proof (intro conjI allI impI)
  fix t assume t: "t < kSlots"
  then have "slot_ok dict t (slots ! t) nx" using ok by (simp add: slots_ok_def)
  from slot_ok_put [OF inv this k p] ok t s
  show "slot_ok (snd (ht_set k e dict)) t (slots[s := (i, p) # slots ! s] ! t) nx'"
    by (auto simp: slots_ok_def nth_list_update split: if_splits)
qed (use ok in \<open>simp add: slots_ok_def\<close>)

lemma lru_ok_assign:
  assumes inv: "ht_inv dict" and ok: "lru_ok dict lru nx" and e: "ht_find k dict = Some e"
    and p: "e_lru_pos e' = e_lru_pos e"
  shows "lru_ok (ht_assign k e' dict) lru nx"
proof -
  have "ht_find k' (ht_assign k e' dict) = (if k' = k then Some e' else ht_find k' dict)" for k'
    by (rule ht.find_assign [OF inv]) (simp add: e)
  then show ?thesis using ok e p unfolding lru_ok_def by auto
qed

lemma ex_find_assign:
  assumes "ht_inv dict" "ht_find k dict = Some e" "P k e' \<longleftrightarrow> P k e"
  shows "(\<exists>k' e''. ht_find k' (ht_assign k e' dict) = Some e'' \<and> P k' e'') \<longleftrightarrow>
    (\<exists>k' e''. ht_find k' dict = Some e'' \<and> P k' e'')"
proof -
  have f: "ht_find k' (ht_assign k e' dict) = (if k' = k then Some e' else ht_find k' dict)" for k'
    by (rule ht.find_assign [OF assms(1)]) (simp add: assms(2))
  have "(\<exists>e''. ht_find k' (ht_assign k e' dict) = Some e'' \<and> P k' e'') \<longleftrightarrow>
      (\<exists>e''. ht_find k' dict = Some e'' \<and> P k' e'')" for k'
    using assms(2,3) by (cases "k' = k") (simp_all add: f)
  then show ?thesis by blast
qed

lemma slots_ok_assign:
  assumes inv: "ht_inv dict" and ok: "slots_ok dict slots nx" and e: "ht_find k dict = Some e"
    and p: "e_lru_pos e' = e_lru_pos e" "e_slot_pos e' = e_slot_pos e"
  shows "slots_ok (ht_assign k e' dict) slots nx"
proof -
  have eq: "(\<exists>k'' e''. ht_find k'' (ht_assign k e' dict) = Some e'' \<and> key_hash_slot k'' = s \<and>
        e_slot_pos e'' = i \<and> e_lru_pos e'' = q) \<longleftrightarrow>
      (\<exists>k'' e''. ht_find k'' dict = Some e'' \<and> key_hash_slot k'' = s \<and>
        e_slot_pos e'' = i \<and> e_lru_pos e'' = q)" for s i q
    by (rule ex_find_assign [OF inv e]) (simp add: p)
  show ?thesis using ok unfolding slots_ok_def slot_ok_def eq .
qed

lemma lru_ok_splice: "lru_ok dict lru nx \<Longrightarrow> lru_ok dict (list_splice_front p lru) nx"
  unfolding lru_ok_def by (simp add: set_list_splice distinct_list_splice)

section \<open>Removal\<close>

text \<open>A step to a store that represents \<open>s\<close>, with the configuration unchanged.\<close>

definition settings :: "store \<Rightarrow> nat \<times> eviction_policy \<times> bool" where
  "settings st = (st_maxmemory st, st_policy st, st_passive st)"

definition step_ok :: "store \<Rightarrow> kv \<Rightarrow> store \<Rightarrow> bool" where
  "step_ok st s st' \<longleftrightarrow> store_inv st' \<and> st_kv st' = s \<and> settings st' = settings st"

lemma step_ok_refl: "store_inv st \<Longrightarrow> step_ok st (st_kv st) st"
  by (simp add: step_ok_def)

lemma step_ok_trans: "step_ok st s st' \<Longrightarrow> step_ok st' s' st'' \<Longrightarrow> step_ok st s' st''"
  by (simp add: step_ok_def)

lemma step_okD:
  "step_ok st s st' \<Longrightarrow> store_inv st'"
  "step_ok st s st' \<Longrightarrow> st_kv st' = s"
  "step_ok st s st' \<Longrightarrow> st_passive st' = st_passive st"
  "step_ok st s st' \<Longrightarrow> st_maxmemory st' = st_maxmemory st"
  "step_ok st s st' \<Longrightarrow> st_policy st' = st_policy st"
  by (simp_all add: step_ok_def settings_def)

lemma kv_map_st_kv:
  "kv_map (st_kv st) k = map_option (\<lambda>e. (e_value e, ht_find k (st_expires st))) (ht_find k (st_dict st))"
  by (simp add: st_kv_def)

lemma kv_delete_absent: "kv_ok s \<Longrightarrow> kv_map s k = None \<Longrightarrow> kv_delete k s = s"
  unfolding kv_delete_def kv_ok_def
  by (subst removeAll_id) (auto simp: fun_upd_idem intro!: kv.equality)

lemma store_remove_Some:
  assumes "ht_find k (st_dict st) = Some e" "ht_inv (st_expires st)"
  shows "store_remove k st = (True, st\<lparr>
    st_dict := snd (ht_del k (st_dict st)), st_expires := snd (ht_del k (st_expires st)),
    st_lru := list_erase (e_lru_pos e) (st_lru st),
    st_slots := (st_slots st)[key_hash_slot k := list_erase (e_slot_pos e) (st_slots st ! key_hash_slot k)],
    st_used_memory := st_used_memory st - kv_cost (kv_map (st_kv st)) k\<rparr>)"
  using assms ht.del_hit [OF assms(2), of k]
  by (cases "ht_del k (st_expires st)")
    (auto simp: store_remove_def clear_expire_def Let_def kv_cost_def kv_map_st_kv split: bool.splits)

lemma store_remove_ok:
  assumes inv: "store_inv st"
  shows "step_ok st (kv_delete k (st_kv st)) (snd (store_remove k st))"
    and "fst (store_remove k st) \<longleftrightarrow> kv_map (st_kv st) k \<noteq> None"
proof -
  have ht: "ht_inv (st_dict st)" "ht_inv (st_expires st)"
    and lru: "lru_ok (st_dict st) (st_lru st) (st_next st)"
    and sl: "slots_ok (st_dict st) (st_slots st) (st_next st)"
    and sub: "\<And>k. ht_find k (st_expires st) \<noteq> None \<Longrightarrow> ht_find k (st_dict st) \<noteq> None"
    and mem: "st_used_memory st = kv_used (st_kv st)"
    using inv by (auto simp: store_inv_def)
  have "step_ok st (kv_delete k (st_kv st)) (snd (store_remove k st)) \<and>
    (fst (store_remove k st) \<longleftrightarrow> kv_map (st_kv st) k \<noteq> None)"
  proof (cases "ht_find k (st_dict st)")
    case None
    then have "kv_map (st_kv st) k = None" by (simp add: kv_map_st_kv)
    then show ?thesis
      using None step_ok_refl [OF inv] kv_delete_absent [OF store_inv_kv_ok [OF inv]]
      by (simp add: store_remove_def)
  next
    case (Some e)
    note eq = store_remove_Some [OF Some ht(2)]
    let ?st = "snd (store_remove k st)"
    have pk: "(e_lru_pos e, k) \<in> set (st_lru st)" using lru Some by (simp add: lru_ok_def)
    have "kv_order (st_kv ?st) = removeAll k (kv_order (st_kv st))"
      using map_snd_list_erase [OF _ _ pk] lru by (simp add: eq st_kv_def lru_ok_def)
    moreover have "kv_map (st_kv ?st) = (kv_map (st_kv st))(k := None)"
      by (rule ext) (simp add: kv_map_st_kv eq ht.find_del ht)
    moreover have "kv_log (st_kv ?st) = kv_log (st_kv st)" by (simp add: eq st_kv_def)
    ultimately have kv: "st_kv ?st = kv_delete k (st_kv st)" by (simp add: kv_delete_def)
    have "kv_map (st_kv st) k \<noteq> None" using Some by (simp add: kv_map_st_kv)
    with kv_used_delete [OF store_inv_kv_ok [OF inv]]
    have "st_used_memory ?st = kv_used (st_kv ?st)" unfolding kv by (simp add: eq mem)
    moreover have "lru_ok (st_dict ?st) (st_lru ?st) (st_next ?st)"
      using lru_ok_del [OF ht(1) lru Some] by (simp add: eq)
    moreover have "slots_ok (st_dict ?st) (st_slots ?st) (st_next ?st)"
      using slots_ok_del [OF ht(1) sl lru Some refl] by (simp add: eq)
    moreover have "ht_inv (st_dict ?st)" "ht_inv (st_expires ?st)" using ht by (simp_all add: eq ht.invar_del)
    moreover have "ht_find k' (st_expires ?st) \<noteq> None \<Longrightarrow> ht_find k' (st_dict ?st) \<noteq> None" for k'
      using sub [of k'] by (simp add: eq ht.find_del ht split: if_splits)
    ultimately have "store_inv ?st" unfolding store_inv_def by blast
    then show ?thesis using kv Some by (simp add: step_ok_def eq settings_def kv_map_st_kv)
  qed
  then show "step_ok st (kv_delete k (st_kv st)) (snd (store_remove k st))"
    "fst (store_remove k st) \<longleftrightarrow> kv_map (st_kv st) k \<noteq> None" by blast+
qed

text \<open>Changes of counters and of the log do not concern the representation.\<close>

lemma store_inv_counters [simp]:
  "store_inv (st\<lparr>st_expired_keys := n\<rparr>) = store_inv st"
  "store_inv (st\<lparr>st_evicted_keys := n\<rparr>) = store_inv st"
  "st_kv (st\<lparr>st_expired_keys := n\<rparr>) = st_kv st"
  "st_kv (st\<lparr>st_evicted_keys := n\<rparr>) = st_kv st"
  by (simp_all add: store_inv_def st_kv_def)

lemma kv_used_report [simp]: "kv_used (kv_report k s) = kv_used s"
  by (simp add: kv_used_def kv_report_def)

lemma st_kv_notify: "st_kv (notify_deleted k st) = kv_report k (st_kv st)"
  by (simp add: st_kv_def kv_report_def notify_deleted_def)

lemma store_inv_notify [simp]: "store_inv (notify_deleted k st) = store_inv st"
  using st_kv_notify [of k st] by (simp add: store_inv_def) (simp add: notify_deleted_def)

lemma step_ok_notify: "step_ok st s st' \<Longrightarrow> step_ok st (kv_report k s) (notify_deleted k st')"
  by (auto simp: step_ok_def st_kv_notify settings_def) (simp_all add: notify_deleted_def)

lemma step_ok_counters:
  "step_ok st s st' \<Longrightarrow> step_ok st s (st'\<lparr>st_expired_keys := n\<rparr>)"
  "step_ok st s st' \<Longrightarrow> step_ok st s (st'\<lparr>st_evicted_keys := n\<rparr>)"
  by (simp_all add: step_ok_def settings_def)

section \<open>Lookup\<close>

lemma expired_iff:
  assumes "store_inv st"
  shows "kv_expired now k (st_kv st) \<longleftrightarrow> (\<exists>w. ht_find k (st_expires st) = Some w \<and> w \<le> now)"
  using assms by (auto simp: kv_expired_def kv_map_st_kv store_inv_def)

lemma expire_if_needed_ok:
  assumes inv: "store_inv st"
  shows "step_ok st (kv_reap (st_passive st) now k (st_kv st)) (snd (expire_if_needed now k st))"
    and "fst (expire_if_needed now k st) \<longleftrightarrow> kv_expired now k (st_kv st)"
proof -
  have ht: "ht_inv (st_expires st)" using inv by (simp add: store_inv_def)
  have "ht_size (st_expires st) = 0 \<Longrightarrow> ht_find k (st_expires st) = None"
    using ht.count_zero [OF ht] by simp
  then have eq: "expire_if_needed now k st =
    (if kv_expired now k (st_kv st) then
       if st_passive st then (True, st)
       else (True, notify_deleted k ((snd (store_remove k st))
               \<lparr>st_expired_keys := st_expired_keys (snd (store_remove k st)) + 1\<rparr>))
     else (False, st))"
    unfolding expired_iff [OF inv] expire_if_needed_def Let_def by (auto split: option.splits)
  show "fst (expire_if_needed now k st) \<longleftrightarrow> kv_expired now k (st_kv st)" by (simp add: eq)
  show "step_ok st (kv_reap (st_passive st) now k (st_kv st)) (snd (expire_if_needed now k st))"
    using step_ok_notify [OF step_ok_counters(1) [OF store_remove_ok(1) [OF inv, of k]]] step_ok_refl [OF inv]
    by (simp add: eq kv_reap_def)
qed

lemma kv_live_iff:
  "store_inv st \<Longrightarrow> kv_live now k (st_kv st) \<longleftrightarrow>
     ht_find k (st_dict st) \<noteq> None \<and> \<not> kv_expired now k (st_kv st)"
  by (simp add: kv_live_def kv_map_st_kv)

lemma splice_ok:
  assumes inv: "store_inv st" and e: "ht_find k (st_dict st) = Some e"
  shows "step_ok st (kv_touch k (st_kv st)) (st\<lparr>st_lru := list_splice_front (e_lru_pos e) (st_lru st)\<rparr>)"
proof -
  let ?st = "st\<lparr>st_lru := list_splice_front (e_lru_pos e) (st_lru st)\<rparr>"
  have lru: "lru_ok (st_dict st) (st_lru st) (st_next st)" using inv by (simp add: store_inv_def)
  have pk: "(e_lru_pos e, k) \<in> set (st_lru st)" using lru e by (simp add: lru_ok_def)
  have kv: "st_kv ?st = kv_touch k (st_kv st)"
    using map_snd_list_splice [OF _ _ pk] lru by (simp add: st_kv_def lru_ok_def kv_touch_def)
  have "kv_map (st_kv st) k \<noteq> None" using e by (simp add: kv_map_st_kv)
  from kv_used_touch [OF store_inv_kv_ok [OF inv] this] have "store_inv ?st"
    using inv lru_ok_splice [OF lru] unfolding store_inv_def kv by simp
  then show ?thesis using kv by (simp add: step_ok_def settings_def)
qed

lemma lookup_eq:
  assumes inv: "store_inv st"
  shows "lookup now k touch st =
    (if kv_live now k (st_kv st) then
       (ht_find k (st_dict st),
        if touch then st\<lparr>st_lru := list_splice_front (e_lru_pos (the (ht_find k (st_dict st)))) (st_lru st)\<rparr> else st)
     else (None, snd (expire_if_needed now k st)))"
proof (cases "kv_expired now k (st_kv st)")
  case True
  then show ?thesis
    using expire_if_needed_ok(2) [OF inv, of now k]
    by (cases "expire_if_needed now k st") (simp add: lookup_def kv_live_def)
next
  case False
  then have "expire_if_needed now k st = (False, st)"
    unfolding expired_iff [OF inv] expire_if_needed_def Let_def by (auto split: option.splits)
  then show ?thesis
    using False by (auto simp: lookup_def kv_live_iff [OF inv] split: option.splits)
qed

lemma lookup_ok:
  assumes inv: "store_inv st"
  shows "step_ok st (kv_access (st_passive st) now k touch (st_kv st)) (snd (lookup now k touch st))"
    and "fst (lookup now k touch st) = (if kv_live now k (st_kv st) then ht_find k (st_dict st) else None)"
proof -
  have reap: "kv_live now k (st_kv st) \<Longrightarrow> kv_reap (st_passive st) now k (st_kv st) = st_kv st"
    by (simp add: kv_live_def kv_reap_def)
  show "step_ok st (kv_access (st_passive st) now k touch (st_kv st)) (snd (lookup now k touch st))"
    using splice_ok [OF inv, of k] expire_if_needed_ok(1) [OF inv, of now k] step_ok_refl [OF inv] reap
    by (auto simp: lookup_eq [OF inv] kv_access_def kv_live_iff [OF inv])
  show "fst (lookup now k touch st) = (if kv_live now k (st_kv st) then ht_find k (st_dict st) else None)"
    by (simp add: lookup_eq [OF inv])
qed

lemma lookup_live:
  assumes inv: "store_inv st" and l: "lookup now k touch st = (Some e, st')"
  shows "kv_live now k (st_kv st)" "ht_find k (st_dict st) = Some e"
    "st_dict st' = st_dict st" "st_expires st' = st_expires st"
    "kv_map (st_kv st) k = Some (e_value e, ht_find k (st_expires st))"
  using l by (auto simp: lookup_eq [OF inv] kv_map_st_kv split: if_splits)

lemma lookup_dead:
  assumes inv: "store_inv st" and l: "lookup now k touch st = (None, st')"
  shows "\<not> kv_live now k (st_kv st)"
  using l by (auto simp: lookup_eq [OF inv] kv_live_iff [OF inv] split: if_splits)

section \<open>Changing one binding\<close>

lemma clear_expire_ok:
  assumes inv: "store_inv st" and e: "ht_find k (st_dict st) = Some e"
  shows "step_ok st ((st_kv st)\<lparr>kv_map := (kv_map (st_kv st))(k \<mapsto> (e_value e, None))\<rparr>) (snd (clear_expire k st))"
    and "fst (clear_expire k st) \<longleftrightarrow> kv_ttl k (st_kv st) \<noteq> None"
proof -
  have ht: "ht_inv (st_dict st)" "ht_inv (st_expires st)" using inv by (auto simp: store_inv_def)
  let ?st = "snd (clear_expire k st)"
  have eq: "clear_expire k st = (ht_find k (st_expires st) \<noteq> None,
    st\<lparr>st_expires := snd (ht_del k (st_expires st)), st_used_memory := st_used_memory st -
      (if ht_find k (st_expires st) = None then 0 else expire_cost k)\<rparr>)"
    using ht.del_hit [OF ht(2), of k]
    by (cases "ht_del k (st_expires st)") (auto simp: clear_expire_def split: bool.splits)
  have km: "kv_map (st_kv st) k = Some (e_value e, ht_find k (st_expires st))" using e by (simp add: kv_map_st_kv)
  show "fst (clear_expire k st) \<longleftrightarrow> kv_ttl k (st_kv st) \<noteq> None" by (simp add: eq kv_ttl_def km)
  have "kv_map (st_kv ?st) = (kv_map (st_kv st))(k \<mapsto> (e_value e, None))"
    by (rule ext) (simp add: kv_map_st_kv eq ht.find_del ht e)
  then have kv: "st_kv ?st = (st_kv st)\<lparr>kv_map := (kv_map (st_kv st))(k \<mapsto> (e_value e, None))\<rparr>"
    by (simp add: st_kv_def eq)
  have "kv_used (st_kv ?st) = kv_used (st_kv st) - kv_cost (kv_map (st_kv st)) k + entry_cost k (length (e_value e))"
    unfolding kv using kv_used_update [OF store_inv_kv_ok [OF inv] km] by simp
  moreover have "kv_cost (kv_map (st_kv st)) k \<le> kv_used (st_kv st)"
    using kv_used_split [OF store_inv_kv_ok [OF inv], of k] km by simp
  ultimately have "st_used_memory ?st = kv_used (st_kv ?st)"
    using inv km by (auto simp: eq store_inv_def kv_cost_def)
  then have "store_inv ?st"
    using inv by (auto simp: store_inv_def eq ht.find_del ht.invar_del split: if_splits)
  then show "step_ok st ((st_kv st)\<lparr>kv_map := (kv_map (st_kv st))(k \<mapsto> (e_value e, None))\<rparr>) ?st"
    using kv by (simp add: step_ok_def settings_def eq)
qed

lemma assign_value_ok:
  assumes inv: "store_inv st" and e: "ht_find k (st_dict st) = Some e"
  shows "step_ok st ((st_kv st)\<lparr>kv_map := (kv_map (st_kv st))(k \<mapsto> (v, ht_find k (st_expires st)))\<rparr>)
    (st\<lparr>st_used_memory := st_used_memory st - length (e_value e) + length v,
        st_dict := ht_assign k (e\<lparr>e_value := v\<rparr>) (st_dict st)\<rparr>)" (is "step_ok st ?kv ?st")
proof -
  have ht: "ht_inv (st_dict st)" using inv by (auto simp: store_inv_def)
  have f: "ht_find k' (st_dict ?st) = (if k' = k then Some (e\<lparr>e_value := v\<rparr>) else ht_find k' (st_dict st))" for k'
    using ht.find_assign [OF ht, of k k'] e by simp
  have km: "kv_map (st_kv st) k = Some (e_value e, ht_find k (st_expires st))" using e by (simp add: kv_map_st_kv)
  have "kv_map (st_kv ?st) = (kv_map (st_kv st))(k \<mapsto> (v, ht_find k (st_expires st)))"
    by (rule ext) (use f in \<open>simp add: kv_map_st_kv\<close>)
  then have kv: "st_kv ?st = ?kv" by (simp add: st_kv_def)
  have "kv_used (st_kv ?st) = kv_used (st_kv st) - kv_cost (kv_map (st_kv st)) k + entry_cost k (length v) +
      (if ht_find k (st_expires st) = None then 0 else expire_cost k)"
    unfolding kv using kv_used_update [OF store_inv_kv_ok [OF inv] km] by simp
  moreover have "kv_cost (kv_map (st_kv st)) k \<le> kv_used (st_kv st)"
    using kv_used_split [OF store_inv_kv_ok [OF inv], of k] km by simp
  ultimately have mem: "st_used_memory ?st = kv_used (st_kv ?st)"
    using inv km by (auto simp: store_inv_def kv_cost_def entry_cost_def)
  have inv': "ht_inv (st_dict ?st)" using ht.invar_assign [OF ht, of k] e by simp
  have "lru_ok (st_dict ?st) (st_lru ?st) (st_next ?st)" "slots_ok (st_dict ?st) (st_slots ?st) (st_next ?st)"
    using lru_ok_assign [OF ht _ e] slots_ok_assign [OF ht _ e] inv by (simp_all add: store_inv_def)
  moreover have "ht_find k' (st_expires ?st) \<noteq> None \<Longrightarrow> ht_find k' (st_dict ?st) \<noteq> None" for k'
    using inv unfolding f by (auto simp: store_inv_def)
  ultimately have "store_inv ?st" unfolding store_inv_def using mem inv' inv by (auto simp: store_inv_def)
  then show ?thesis using kv by (simp add: step_ok_def settings_def)
qed

lemma set_ttl_ok:
  assumes inv: "store_inv st" and e: "ht_find k (st_dict st) = Some e"
  shows "step_ok st ((st_kv st)\<lparr>kv_map := (kv_map (st_kv st))(k \<mapsto> (e_value e, Some w))\<rparr>)
    (case ht_find k (st_expires st) of
       Some _ \<Rightarrow> st\<lparr>st_expires := ht_assign k w (st_expires st)\<rparr>
     | None \<Rightarrow> st\<lparr>st_expires := snd (ht_set k w (st_expires st)),
                   st_used_memory := st_used_memory st + expire_cost k\<rparr>)" (is "step_ok st ?kv ?st")
proof -
  have ht: "ht_inv (st_expires st)" using inv by (auto simp: store_inv_def)
  have f: "ht_find k' (st_expires ?st) = (if k' = k then Some w else ht_find k' (st_expires st))" for k'
    by (simp add: ht.find_assign [OF ht] ht.find_put [OF ht] split: option.splits)
  have same: "st_dict ?st = st_dict st" "st_lru ?st = st_lru st" "st_slots ?st = st_slots st"
    "st_next ?st = st_next st" "st_notified ?st = st_notified st" "settings ?st = settings st"
    by (simp_all add: settings_def split: option.splits)
  have inv': "ht_inv (st_expires ?st)"
    using ht.invar_assign [OF ht, of k w] ht.invar_put [OF ht, of k w] by (simp split: option.splits)
  have km: "kv_map (st_kv st) k = Some (e_value e, ht_find k (st_expires st))" using e by (simp add: kv_map_st_kv)
  have "kv_map (st_kv ?st) = (kv_map (st_kv st))(k \<mapsto> (e_value e, Some w))"
    by (rule ext) (simp only: kv_map_st_kv f same, simp add: e kv_map_st_kv)
  then have kv: "st_kv ?st = ?kv" by (simp add: st_kv_def same)
  have "kv_used (st_kv ?st) = kv_used (st_kv st) - kv_cost (kv_map (st_kv st)) k +
      entry_cost k (length (e_value e)) + expire_cost k"
    unfolding kv using kv_used_update [OF store_inv_kv_ok [OF inv] km] by simp
  moreover have "kv_cost (kv_map (st_kv st)) k \<le> kv_used (st_kv st)"
    using kv_used_split [OF store_inv_kv_ok [OF inv], of k] km by simp
  ultimately have mem: "st_used_memory ?st = kv_used (st_kv ?st)"
    using inv km by (auto simp: store_inv_def kv_cost_def split: option.splits)
  have "store_inv ?st"
    unfolding store_inv_def same using inv inv' mem e f by (auto simp: store_inv_def)
  then show ?thesis using kv same by (simp add: step_ok_def)
qed

lemma insert_ok:
  assumes inv: "store_inv st" and k: "ht_find k (st_dict st) = None"
  shows "step_ok st (kv_put k v None (st_kv st))
    (st\<lparr>st_used_memory := st_used_memory st + entry_cost k (length v),
        st_lru := (st_next st, k) # st_lru st,
        st_slots := (st_slots st)[key_hash_slot k :=
          (Suc (st_next st), st_next st) # st_slots st ! key_hash_slot k],
        st_next := Suc (Suc (st_next st)),
        st_dict := snd (ht_set k \<lparr>e_value = v, e_lru_pos = st_next st, e_slot_pos = Suc (st_next st)\<rparr>
          (st_dict st))\<rparr>)" (is "step_ok st ?kv ?st")
proof -
  let ?e = "\<lparr>e_value = v, e_lru_pos = st_next st, e_slot_pos = Suc (st_next st)\<rparr>"
  have ht: "ht_inv (st_dict st)" using inv by (auto simp: store_inv_def)
  have x: "ht_find k (st_expires st) = None" using inv k by (auto simp: store_inv_def)
  have ok: "kv_ok (st_kv st)" and km: "kv_map (st_kv st) k = None"
    using store_inv_kv_ok [OF inv] k by (simp_all add: kv_map_st_kv)
  then have nk: "k \<notin> set (kv_order (st_kv st))" by (auto simp: kv_ok_def)
  have "kv_map (st_kv ?st) = (kv_map (st_kv st))(k \<mapsto> (v, None))"
    by (rule ext) (simp add: kv_map_st_kv ht.find_put [OF ht] x)
  then have kv: "st_kv ?st = ?kv" using nk by (simp add: st_kv_def kv_put_def removeAll_id)
  have mem: "st_used_memory ?st = kv_used (st_kv ?st)"
    unfolding kv kv_used_put [OF ok] using inv km by (simp add: store_inv_def kv_cost_def)
  have "lru_ok (st_dict ?st) (st_lru ?st) (st_next ?st)"
    using lru_ok_put [OF ht _ k, of "st_lru st" "st_next st" "st_next st" _ ?e] inv by (simp add: store_inv_def)
  moreover have "slots_ok (st_dict ?st) (st_slots ?st) (st_next ?st)"
    using slots_ok_put [OF ht _ k, of "st_slots st" "st_next st" "Suc (st_next st)" _ ?e] inv
    by (simp add: store_inv_def)
  moreover have "ht_find k' (st_expires ?st) \<noteq> None \<Longrightarrow> ht_find k' (st_dict ?st) \<noteq> None" for k'
    using inv by (simp add: ht.find_put [OF ht] store_inv_def)
  ultimately have "store_inv ?st"
    unfolding store_inv_def using mem inv ht.invar_put [OF ht] by (simp add: store_inv_def)
  then show ?thesis using kv by (simp add: step_ok_def settings_def)
qed

section \<open>The operations against the specification\<close>

definition kv_set :: "bool \<Rightarrow> int \<Rightarrow> bytes \<Rightarrow> bytes \<Rightarrow> bool \<Rightarrow> kv \<Rightarrow> kv" where
  "kv_set passive now k v keep_ttl s =
     (if kv_live now k s then kv_put k v (if keep_ttl then kv_ttl k s else None) s
      else kv_put k v None (kv_reap passive now k s))"

definition kv_del :: "bool \<Rightarrow> int \<Rightarrow> bytes \<Rightarrow> kv \<Rightarrow> kv" where
  "kv_del passive now k s = kv_delete k (kv_reap passive now k s)"

definition kv_set_expire :: "bool \<Rightarrow> int \<Rightarrow> int \<Rightarrow> bytes \<Rightarrow> int \<Rightarrow> kv \<Rightarrow> kv" where
  "kv_set_expire passive now now' k w s =
     (if \<not> kv_live now k s then kv_reap passive now k s
      else if w \<le> now' \<and> \<not> passive then kv_delete k s
      else kv_put k (fst (the (kv_map s k))) (Some w) s)"

definition kv_persist :: "bool \<Rightarrow> int \<Rightarrow> bytes \<Rightarrow> kv \<Rightarrow> kv" where
  "kv_persist passive now k s =
     (if kv_live now k s then kv_put k (fst (the (kv_map s k))) None s else kv_reap passive now k s)"

lemma kv_put_touch: "(kv_touch k s)\<lparr>kv_map := (kv_map (kv_touch k s))(k \<mapsto> (v, w))\<rparr> = kv_put k v w s"
  by (simp add: kv_touch_def kv_put_def)

lemma kv_delete_touch: "kv_delete k (kv_touch k s) = kv_delete k s"
  by (simp add: kv_touch_def kv_delete_def)

lemma kv_map_touch [simp]: "kv_map (kv_touch k s) = kv_map s"
  by (simp add: kv_touch_def)

lemma kv_put_put: "(kv_put k v w s)\<lparr>kv_map := (kv_map (kv_put k v w s))(k \<mapsto> (v, w'))\<rparr> = kv_put k v w' s"
  by (cases s) (simp add: kv_put_def)

lemma kv_put_delete: "kv_put k v w (kv_delete k s) = kv_put k v w s"
  by (simp add: kv_put_def kv_delete_def)

lemma lookup_pair:
  assumes inv: "store_inv st" and l: "lookup now k touch st = (r, st')"
  shows "step_ok st (kv_access (st_passive st) now k touch (st_kv st)) st'"
    "r = (if kv_live now k (st_kv st) then ht_find k (st_dict st) else None)"
  using lookup_ok [OF inv, of now k touch] l by simp_all

text \<open>After a look-up that missed, the key is gone unless expiry is passive.\<close>

lemma kv_reap_dead:
  "\<not> kv_live now k s \<Longrightarrow> \<not> passive \<Longrightarrow> kv_map (kv_reap passive now k s) k = None"
  by (cases "kv_map s k") (auto simp: kv_live_def kv_reap_def kv_report_def kv_delete_def)

lemma store_set_ok:
  assumes inv: "store_inv st"
  shows "step_ok st (kv_set (st_passive st) now k v keep (st_kv st)) (store_set now k v keep st)"
proof (cases "lookup now k True st")
  case (Pair r st1)
  note ok1 = lookup_pair [OF inv Pair]
  note inv1 = step_okD(1) [OF ok1(1)] and kv1 = step_okD(2) [OF ok1(1)] and pas = step_okD(3) [OF ok1(1)]
  show ?thesis
  proof (cases r)
    case (Some e)
    note live = lookup_live [OF inv Pair [unfolded Some]]
    have kv1': "st_kv st1 = kv_touch k (st_kv st)" using kv1 live(1) by (simp add: kv_access_def)
    have e1: "ht_find k (st_dict st1) = Some e" using live by simp
    let ?st2 = "st1\<lparr>st_used_memory := st_used_memory st1 - length (e_value e) + length v,
      st_dict := ht_assign k (e\<lparr>e_value := v\<rparr>) (st_dict st1)\<rparr>"
    have a: "step_ok st1 (kv_put k v (kv_ttl k (st_kv st)) (st_kv st)) ?st2"
      using assign_value_ok [OF inv1 e1, of v] live(4,5)
      by (simp add: kv1' kv_ttl_def kv_put_touch [simplified])
    have inv2: "store_inv ?st2" by (rule step_okD(1) [OF a])
    have e2: "ht_find k (st_dict ?st2) = Some (e\<lparr>e_value := v\<rparr>)"
      using ht.find_assign [of "st_dict st1" k k] inv1 e1 by (simp add: store_inv_def)
    have ev: "e_value (e\<lparr>e_value := v\<rparr>) = v" by simp
    have "step_ok ?st2 (kv_put k v None (st_kv st)) (snd (clear_expire k ?st2))"
      using clear_expire_ok(1) [OF inv2 e2] unfolding step_okD(2) [OF a] ev kv_put_put .
    then have "step_ok st1 (kv_put k v None (st_kv st)) (snd (clear_expire k ?st2))"
      by (rule step_ok_trans [OF a])
    then have "step_ok st1 (kv_set (st_passive st) now k v keep (st_kv st)) (store_set now k v keep st)"
      using a Pair Some live(1) by (simp add: store_set_def Let_def kv_set_def)
    then show ?thesis by (rule step_ok_trans [OF ok1(1)])
  next
    case None
    have dead: "\<not> kv_live now k (st_kv st)" by (rule lookup_dead [OF inv Pair [unfolded None]])
    have kv1': "st_kv st1 = kv_reap (st_passive st) now k (st_kv st)" using kv1 dead by (simp add: kv_access_def)
    define st2 where "st2 = (if st_passive st1 then snd (store_remove k st1) else st1)"
    have s2: "step_ok st1 (if st_passive st then kv_delete k (st_kv st1) else st_kv st1) st2"
      using store_remove_ok(1) [OF inv1, of k] step_ok_refl [OF inv1] pas by (simp add: st2_def)
    have "kv_map (st_kv st2) k = None"
      using step_okD(2) [OF s2] kv_reap_dead [OF dead] kv1' by (simp add: kv_delete_def)
    then have k2: "ht_find k (st_dict st2) = None" by (simp add: kv_map_st_kv)
    have "store_set now k v keep st = st2\<lparr>st_used_memory := st_used_memory st2 + entry_cost k (length v),
        st_lru := (st_next st2, k) # st_lru st2,
        st_slots := (st_slots st2)[key_hash_slot k :=
          (Suc (st_next st2), st_next st2) # st_slots st2 ! key_hash_slot k],
        st_next := Suc (Suc (st_next st2)),
        st_dict := snd (ht_set k \<lparr>e_value = v, e_lru_pos = st_next st2, e_slot_pos = Suc (st_next st2)\<rparr>
          (st_dict st2))\<rparr>"
      using Pair None by (simp add: store_set_def Let_def st2_def)
    with insert_ok [OF step_okD(1) [OF s2] k2, of v] dead kv1'
    have "step_ok st2 (kv_set (st_passive st) now k v keep (st_kv st)) (store_set now k v keep st)"
      by (cases "st_passive st") (simp_all add: kv_set_def step_okD(2) [OF s2] kv_put_delete)
    then show ?thesis by (rule step_ok_trans [OF step_ok_trans [OF ok1(1) s2]])
  qed
qed

lemma store_del_ok:
  assumes inv: "store_inv st"
  shows "step_ok st (kv_del (st_passive st) now k (st_kv st)) (snd (store_del now k st))"
    and "fst (store_del now k st) \<longleftrightarrow> kv_live now k (st_kv st)"
proof -
  obtain r st1 where l: "lookup now k False st = (r, st1)" by fastforce
  note ok1 = lookup_pair [OF inv l]
  have "step_ok st1 (kv_delete k (st_kv st1)) (snd (store_remove k st1))"
    by (rule store_remove_ok(1) [OF step_okD(1) [OF ok1(1)]])
  from step_ok_trans [OF ok1(1) this]
  show "step_ok st (kv_del (st_passive st) now k (st_kv st)) (snd (store_del now k st))"
    using step_okD(2) [OF ok1(1)] by (simp add: store_del_def l kv_access_def kv_del_def)
  show "fst (store_del now k st) \<longleftrightarrow> kv_live now k (st_kv st)"
    using ok1(2) by (auto simp: store_del_def l kv_live_iff [OF inv])
qed

lemma store_set_expire_ok:
  assumes inv: "store_inv st"
  shows "step_ok st (kv_set_expire (st_passive st) now now' k w (st_kv st)) (snd (store_set_expire now now' k w st))"
    and "fst (store_set_expire now now' k w st) \<longleftrightarrow> kv_live now k (st_kv st)"
proof -
  obtain r st1 where l: "lookup now k True st = (r, st1)" by fastforce
  note ok1 = lookup_pair [OF inv l]
  note inv1 = step_okD(1) [OF ok1(1)] and kv1 = step_okD(2) [OF ok1(1)] and pas = step_okD(3) [OF ok1(1)]
  show "fst (store_set_expire now now' k w st) \<longleftrightarrow> kv_live now k (st_kv st)"
    using ok1(2) by (auto simp: store_set_expire_def l kv_live_iff [OF inv] split: option.splits)
  show "step_ok st (kv_set_expire (st_passive st) now now' k w (st_kv st)) (snd (store_set_expire now now' k w st))"
  proof (cases r)
    case None
    then show ?thesis
      using ok1(1) lookup_dead [OF inv] l
      by (simp add: store_set_expire_def kv_set_expire_def kv_access_def)
  next
    case (Some e)
    note live = lookup_live [OF inv l [unfolded Some]]
    have kv1': "st_kv st1 = kv_touch k (st_kv st)" using kv1 live(1) by (simp add: kv_access_def)
    have e1: "ht_find k (st_dict st1) = Some e" using live by simp
    have "step_ok st1 (kv_delete k (st_kv st)) (snd (store_remove k st1))"
      using store_remove_ok(1) [OF inv1, of k] by (simp add: kv1' kv_delete_touch)
    from step_ok_trans [OF ok1(1) this]
    have del: "step_ok st (kv_delete k (st_kv st)) (snd (store_remove k st1))" .
    have put: "step_ok st (kv_put k (e_value e) (Some w) (st_kv st))
      (case ht_find k (st_expires st1) of
         Some _ \<Rightarrow> st1\<lparr>st_expires := ht_assign k w (st_expires st1)\<rparr>
       | None \<Rightarrow> st1\<lparr>st_expires := snd (ht_set k w (st_expires st1)),
                      st_used_memory := st_used_memory st1 + expire_cost k\<rparr>)"
      using step_ok_trans [OF ok1(1) set_ttl_ok [OF inv1 e1, of w]] unfolding kv1' kv_put_touch .
    show ?thesis
      using del put live(1,5) l Some pas by (simp add: store_set_expire_def kv_set_expire_def)
  qed
qed

lemma store_persist_ok:
  assumes inv: "store_inv st"
  shows "step_ok st (kv_persist (st_passive st) now k (st_kv st)) (snd (store_persist now k st))"
    and "fst (store_persist now k st) \<longleftrightarrow> kv_live now k (st_kv st) \<and> kv_ttl k (st_kv st) \<noteq> None"
proof -
  obtain r st1 where l: "lookup now k True st = (r, st1)" by fastforce
  note ok1 = lookup_pair [OF inv l]
  note inv1 = step_okD(1) [OF ok1(1)] and kv1 = step_okD(2) [OF ok1(1)]
  have "step_ok st (kv_persist (st_passive st) now k (st_kv st)) (snd (store_persist now k st)) \<and>
    (fst (store_persist now k st) \<longleftrightarrow> kv_live now k (st_kv st) \<and> kv_ttl k (st_kv st) \<noteq> None)"
  proof (cases r)
    case None
    then show ?thesis
      using ok1(1) lookup_dead [OF inv] l by (simp add: store_persist_def kv_persist_def kv_access_def)
  next
    case (Some e)
    note live = lookup_live [OF inv l [unfolded Some]]
    have kv1': "st_kv st1 = kv_touch k (st_kv st)" using kv1 live(1) by (simp add: kv_access_def)
    have e1: "ht_find k (st_dict st1) = Some e" using live by simp
    have "step_ok st (kv_put k (e_value e) None (st_kv st)) (snd (clear_expire k st1))"
      using step_ok_trans [OF ok1(1) clear_expire_ok(1) [OF inv1 e1]] unfolding kv1' kv_put_touch .
    moreover have "fst (clear_expire k st1) \<longleftrightarrow> kv_ttl k (st_kv st) \<noteq> None"
      using clear_expire_ok(2) [OF inv1 e1] by (simp add: kv1' kv_ttl_def)
    ultimately show ?thesis using live(1,5) l Some by (simp add: store_persist_def kv_persist_def)
  qed
  then show "step_ok st (kv_persist (st_passive st) now k (st_kv st)) (snd (store_persist now k st))"
    "fst (store_persist now k st) \<longleftrightarrow> kv_live now k (st_kv st) \<and> kv_ttl k (st_kv st) \<noteq> None" by blast+
qed

text \<open>The reads: get and exists touch the key, contains and pttl do not.\<close>

lemma store_reads_ok:
  assumes inv: "store_inv st"
  shows "step_ok st (kv_access (st_passive st) now k True (st_kv st)) (snd (store_get now k st))"
    "step_ok st (kv_access (st_passive st) now k True (st_kv st)) (snd (store_exists now k st))"
    "step_ok st (kv_access (st_passive st) now k False (st_kv st)) (snd (store_contains now k st))"
    "step_ok st (kv_access (st_passive st) now k False (st_kv st)) (snd (store_pttl now now' k st))"
    "fst (store_get now k st) = (if kv_live now k (st_kv st) then map_option fst (kv_map (st_kv st) k) else None)"
    "fst (store_exists now k st) \<longleftrightarrow> kv_live now k (st_kv st)"
    "fst (store_contains now k st) \<longleftrightarrow> kv_live now k (st_kv st)"
    "fst (store_pttl now now' k st) =
       (if \<not> kv_live now k (st_kv st) then - 2
        else case kv_ttl k (st_kv st) of None \<Rightarrow> - 1 | Some w \<Rightarrow> w - now')"
proof -
  note t = lookup_ok [OF inv, of now k True] and f = lookup_ok [OF inv, of now k False]
  show "step_ok st (kv_access (st_passive st) now k True (st_kv st)) (snd (store_get now k st))"
    "step_ok st (kv_access (st_passive st) now k True (st_kv st)) (snd (store_exists now k st))"
    "step_ok st (kv_access (st_passive st) now k False (st_kv st)) (snd (store_contains now k st))"
    "fst (store_get now k st) = (if kv_live now k (st_kv st) then map_option fst (kv_map (st_kv st) k) else None)"
    "fst (store_exists now k st) \<longleftrightarrow> kv_live now k (st_kv st)"
    "fst (store_contains now k st) \<longleftrightarrow> kv_live now k (st_kv st)"
    using t f
    by (auto simp: store_get_def store_exists_def store_contains_def kv_live_iff [OF inv] kv_map_st_kv
        option.map_comp comp_def split: prod.splits if_splits)
  obtain r st1 where l: "lookup now k False st = (r, st1)" by fastforce
  note ok = lookup_pair [OF inv l]
  have "snd (store_pttl now now' k st) = st1"
    by (simp add: store_pttl_def l split: option.splits)
  then show "step_ok st (kv_access (st_passive st) now k False (st_kv st)) (snd (store_pttl now now' k st))"
    using ok(1) by simp
  show "fst (store_pttl now now' k st) = (if \<not> kv_live now k (st_kv st) then - 2
      else case kv_ttl k (st_kv st) of None \<Rightarrow> - 1 | Some w \<Rightarrow> w - now')"
  proof (cases r)
    case (Some e)
    from lookup_live [OF inv l [unfolded Some]] show ?thesis
      by (simp add: store_pttl_def l Some kv_ttl_def split: option.splits)
  qed (use lookup_dead [OF inv] l in \<open>simp add: store_pttl_def\<close>)
qed

lemma store_clear_ok:
  assumes inv: "store_inv st"
  shows "step_ok st ((st_kv st)\<lparr>kv_map := Map.empty, kv_order := []\<rparr>) (store_clear st)"
  by (auto simp: step_ok_def store_inv_def store_clear_def st_kv_def settings_def lru_ok_def slots_ok_def
      slot_ok_def kv_used_def ht.invar_empty ht.find_empty)

lemma make_store_ok:
  "store_inv (make_store maxmemory policy)"
  "st_kv (make_store maxmemory policy) = \<lparr>kv_map = Map.empty, kv_order = [], kv_log = []\<rparr>"
  by (auto simp: store_inv_def make_store_def st_kv_def lru_ok_def slots_ok_def
      slot_ok_def kv_used_def ht.invar_empty ht.find_empty)

end
