(* ===== verification/Store_Properties.thy ===== *)
theory Store_Properties
  imports Store_Refinement
begin

text \<open>
  The loops of the store (eviction, active expiry, emptying a slot, incremental rehashing), the
  specification of all operations as a step relation, and the properties of every store that can
  be reached by any sequence of calls.
\<close>

section \<open>Eviction\<close>

function kv_evict :: "nat \<Rightarrow> kv \<Rightarrow> kv" where
  "kv_evict limit s =
     (if kv_used s > limit \<and> kv_order s \<noteq> []
      then kv_evict limit (kv_report (last (kv_order s)) (kv_delete (last (kv_order s)) s))
      else s)"
  by pat_completeness auto
termination
proof (relation "measure (\<lambda>(limit, s). length (kv_order s))", goal_cases)
  case (2 limit s)
  then have "last (kv_order s) \<in> set (kv_order s)" by simp
  then show ?case using length_removeAll_less by (simp add: kv_report_def kv_delete_def)
qed simp

declare kv_evict.simps [simp del]

lemma store_remove_lru_shrinks:
  assumes "store_inv st" "st_lru st \<noteq> []"
  shows "length (st_lru (snd (store_remove (snd (last (st_lru st))) st))) < length (st_lru st)"
proof -
  let ?k = "snd (last (st_lru st))"
  have "st_kv (snd (store_remove ?k st)) = kv_delete ?k (st_kv st)"
    by (rule step_okD(2) [OF store_remove_ok(1) [OF assms(1)]])
  then have "map snd (st_lru (snd (store_remove ?k st))) = removeAll ?k (map snd (st_lru st))"
    by (simp add: st_kv_def kv_delete_def)
  then have "length (st_lru (snd (store_remove ?k st))) = length (removeAll ?k (map snd (st_lru st)))"
    by (metis length_map)
  also have "\<dots> < length (map snd (st_lru st))"
    by (rule length_removeAll_less) (use assms(2) in auto)
  finally show ?thesis by simp
qed

lemma kv_used_empty: "kv_order s = [] \<Longrightarrow> kv_used s = 0"
  by (simp add: kv_used_def)

lemma evict_loop_ok:
  "store_inv st \<Longrightarrow> st_policy st = kAllKeysLru \<Longrightarrow>
     \<exists>st'. evict_loop st = Some (True, st') \<and> step_ok st (kv_evict (st_maxmemory st) (st_kv st)) st'"
proof (induction "length (st_lru st)" arbitrary: st rule: less_induct)
  case less
  have mem: "st_used_memory st = kv_used (st_kv st)" using less.prems(1) by (simp add: store_inv_def)
  have ord: "kv_order (st_kv st) = map snd (st_lru st)" by (simp add: st_kv_def)
  show ?case
  proof (cases "st_used_memory st > st_maxmemory st")
    case False
    then show ?thesis
      using step_ok_refl [OF less.prems(1)] mem by (simp add: evict_loop.simps kv_evict.simps)
  next
    case over: True
    then have ne: "st_lru st \<noteq> []" using mem kv_used_empty [of "st_kv st"] ord by auto
    define v where "v = snd (last (st_lru st))"
    have v: "v = last (kv_order (st_kv st))" using ne by (simp add: v_def ord last_map)
    define st1 where "st1 = (snd (store_remove v st))\<lparr>st_evicted_keys :=
      st_evicted_keys (snd (store_remove v st)) + 1\<rparr>"
    define st2 where "st2 = notify_deleted v st1"
    have s2: "step_ok st (kv_report v (kv_delete v (st_kv st))) st2"
      unfolding st2_def st1_def
      by (rule step_ok_notify [OF step_ok_counters(2) [OF store_remove_ok(1) [OF less.prems(1)]]])
    have "length (st_lru st2) < length (st_lru st)"
      using store_remove_lru_shrinks [OF less.prems(1) ne]
      by (simp add: st2_def st1_def v_def notify_deleted_def)
    from less.hyps [OF this step_okD(1) [OF s2]] step_okD(4,5) [OF s2] less.prems(2)
    obtain st' where st': "evict_loop st2 = Some (True, st')"
      "step_ok st2 (kv_evict (st_maxmemory st) (st_kv st2)) st'" by auto
    have "evict_loop st = Some (True, st')"
      using over ne less.prems(2) st'(1)
      by (subst evict_loop.simps) (simp add: Let_def st2_def st1_def v_def)
    moreover have "kv_evict (st_maxmemory st) (st_kv st) = kv_evict (st_maxmemory st) (st_kv st2)"
      using over mem ne ord step_okD(2) [OF s2] v by (subst kv_evict.simps) simp
    ultimately show ?thesis using step_ok_trans [OF s2 st'(2)] by auto
  qed
qed

definition kv_evict_if_needed :: "nat \<times> eviction_policy \<times> bool \<Rightarrow> kv \<Rightarrow> bool \<times> kv" where
  "kv_evict_if_needed cfg s =
     (case cfg of (limit, policy, _) \<Rightarrow>
        if limit = 0 then (True, s)
        else if policy = kNoEviction then (kv_used s \<le> limit, s)
        else (True, kv_evict limit s))"

lemma evict_if_needed_ok:
  assumes inv: "store_inv st"
  shows "\<exists>st'. evict_if_needed st = Some (fst (kv_evict_if_needed (settings st) (st_kv st)), st') \<and>
    step_ok st (snd (kv_evict_if_needed (settings st) (st_kv st))) st'"
proof (cases "st_policy st")
  case kNoEviction
  have "st_used_memory st = kv_used (st_kv st)" using inv by (simp add: store_inv_def)
  then show ?thesis
    using kNoEviction step_ok_refl [OF inv]
    by (auto simp: evict_if_needed_def evict_loop.simps kv_evict_if_needed_def settings_def)
next
  case kAllKeysLru
  then show ?thesis
    using evict_loop_ok [OF inv kAllKeysLru] step_ok_refl [OF inv]
    by (auto simp: evict_if_needed_def kv_evict_if_needed_def settings_def)
qed

text \<open>What eviction does, without the loop: it drops a tail of the order of use, no longer than needed.\<close>

definition kv_drop :: "bytes list \<Rightarrow> kv \<Rightarrow> kv" where
  "kv_drop ks s = fold (\<lambda>k s. kv_report k (kv_delete k s)) ks s"

lemma kv_drop_simps:
  "kv_map (kv_drop ks s) = (\<lambda>k. if k \<in> set ks then None else kv_map s k)"
  "kv_order (kv_drop ks s) = filter (\<lambda>k. k \<notin> set ks) (kv_order s)"
  "kv_log (kv_drop ks s) = kv_log s @ ks"
  unfolding kv_drop_def
  by (induction ks arbitrary: s)
    (auto simp: kv_report_def kv_delete_def removeAll_filter_not_eq intro: filter_cong)

lemma kv_drop_Nil [simp]: "kv_drop [] s = s"
  by (simp add: kv_drop_def)

lemma kv_drop_append: "kv_drop (ks @ [k]) s = kv_report k (kv_delete k (kv_drop ks s))"
  by (simp add: kv_drop_def)

lemma kv_drop_Cons: "kv_drop (k # ks) s = kv_drop ks (kv_report k (kv_delete k s))"
  by (simp add: kv_drop_def)

lemma kv_ok_delete: "kv_ok s \<Longrightarrow> kv_ok (kv_delete k s)"
  by (auto simp: kv_ok_def kv_delete_def distinct_removeAll)

lemma kv_ok_report [simp]: "kv_ok (kv_report k s) = kv_ok s"
  by (simp add: kv_ok_def kv_report_def)

definition minimal_eviction :: "nat \<Rightarrow> kv \<Rightarrow> bytes list \<Rightarrow> bool" where
  "minimal_eviction limit s victims \<longleftrightarrow>
     kv_order s = kv_order (kv_drop victims s) @ rev victims \<and>
     kv_used (kv_drop victims s) \<le> limit \<and>
     (\<forall>vs v. victims = vs @ [v] \<longrightarrow> kv_used (kv_drop vs s) > limit)"

lemma kv_evict_minimal:
  "kv_ok s \<Longrightarrow> \<exists>victims. kv_evict limit s = kv_drop victims s \<and> minimal_eviction limit s victims"
proof (induction limit s rule: kv_evict.induct)
  case (1 limit s)
  show ?case
  proof (cases "kv_used s > limit \<and> kv_order s \<noteq> []")
    case False
    then have "kv_used s \<le> limit" using kv_used_empty [of s] by auto
    then show ?thesis
      using False by (intro exI [of _ "[]"]) (simp add: kv_evict.simps minimal_eviction_def)
  next
    case True
    define v where "v = last (kv_order s)"
    define s1 where "s1 = kv_report v (kv_delete v s)"
    have split: "kv_order s = butlast (kv_order s) @ [v]" using True by (simp add: v_def)
    have "distinct (kv_order s)" using 1(2) by (simp add: kv_ok_def)
    then have "removeAll v (kv_order s) = butlast (kv_order s)"
      using split by (metis distinct_append distinct_butlast not_distinct_conv_prefix removeAll_append
          removeAll_id append_Nil2 removeAll.simps disjoint_insert(1) list.simps(15))
    then have ord: "kv_order s = kv_order s1 @ [v]"
      using split by (simp add: s1_def kv_report_def kv_delete_def)
    have "kv_ok s1" using 1(2) by (simp add: s1_def kv_ok_delete)
    with 1(1) [OF True] obtain vs where vs: "kv_evict limit s1 = kv_drop vs s1" "minimal_eviction limit s1 vs"
      unfolding s1_def v_def by blast
    have drop: "kv_drop (v # ws) s = kv_drop ws s1" for ws by (simp add: kv_drop_Cons s1_def)
    have "minimal_eviction limit s (v # vs)"
      unfolding minimal_eviction_def drop
    proof (intro conjI allI impI)
      show "kv_order s = kv_order (kv_drop vs s1) @ rev (v # vs)"
        using vs(2) ord by (simp add: minimal_eviction_def)
      show "kv_used (kv_drop vs s1) \<le> limit" using vs(2) by (simp add: minimal_eviction_def)
      fix ws w assume "v # vs = ws @ [w]"
      then show "kv_used (kv_drop ws s) > limit"
        using True vs(2) drop by (cases ws) (auto simp: minimal_eviction_def)
    qed
    moreover have "kv_evict limit s = kv_drop (v # vs) s"
      using True vs(1) by (subst kv_evict.simps) (simp add: kv_drop_Cons s1_def v_def)
    ultimately show ?thesis by blast
  qed
qed

section \<open>Active expiry\<close>

lemma random_entry_find:
  assumes "ht_inv t" "random_entry draws e t = Some (Some (k, w))"
  shows "ht_find k t = Some w"
proof -
  obtain c where c: "pick_bucket t draws = Some c" "(k, w) = c ! (e mod length c)"
    using assms(2) by (auto simp: random_entry_def split: if_splits)
  then have "(k, w) \<in> set (ht_entries t)"
    using pick_bucket_mem [OF assms(1) c(1)] by (metis length_greater_0_conv mod_less_divisor nth_mem subsetD)
  then show ?thesis using ht.find_entries [OF assms(1)] by simp
qed

lemma kv_expired_drop: "kv_expired now k (kv_drop ks s) \<longleftrightarrow> k \<notin> set ks \<and> kv_expired now k s"
  by (auto simp: kv_expired_def kv_drop_simps)

lemma kv_drop_drop: "kv_drop ks' (kv_drop ks s) = kv_drop (ks @ ks') s"
  by (simp add: kv_drop_def)

lemma expire_samples_ok:
  "store_inv st \<Longrightarrow> expire_samples i now draws n st = Some (n', st') \<Longrightarrow>
     \<exists>ks. distinct ks \<and> (\<forall>k \<in> set ks. kv_expired now k (st_kv st)) \<and> n' = n + length ks \<and>
       step_ok st (kv_drop ks (st_kv st)) st'"
proof (induction i now draws n st rule: expire_samples.induct)
  case (1 now draws n st)
  then show ?case using step_ok_refl by (intro exI [of _ "[]"]) simp
next
  case (2 i now draws n st)
  note inv = 2(3) and run = 2(4)
  have ht: "ht_inv (st_expires st)" using inv by (simp add: store_inv_def)
  show ?case
  proof (cases "ht_size (st_expires st) > 0")
    case False
    then show ?thesis using run step_ok_refl [OF inv] by (intro exI [of _ "[]"]) simp
  next
    case True
    then obtain d ds k w where d: "draws = d # ds"
      and re: "random_entry (fst d) (snd d) (st_expires st) = Some (Some (k, w))"
      using run by (auto split: list.splits option.splits)
    show ?thesis
    proof (cases "w \<le> now")
      case False
      then show ?thesis using 2(2) [OF True d re refl refl False inv] run True d re by simp
    next
      case le: True
      let ?st1 = "notify_deleted k (snd (store_remove k st))"
      have x: "kv_expired now k (st_kv st)"
        using expired_iff [OF inv] random_entry_find [OF ht re] le by blast
      have s1: "step_ok st (kv_drop [k] (st_kv st)) ?st1"
        using step_ok_notify [OF store_remove_ok(1) [OF inv]] by (simp add: kv_drop_def)
      have run1: "expire_samples i now ds (Suc n) ?st1 = Some (n', st')"
        using run True d re le by simp
      from 2(1) [OF True d re refl refl le step_okD(1) [OF s1] run1]
      obtain ks where ks: "distinct ks" "\<forall>k' \<in> set ks. kv_expired now k' (st_kv ?st1)"
        "n' = Suc n + length ks" "step_ok ?st1 (kv_drop ks (st_kv ?st1)) st'" by blast
      have kv1: "st_kv ?st1 = kv_drop [k] (st_kv st)" by (rule step_okD(2) [OF s1])
      have "step_ok st (kv_drop (k # ks) (st_kv st)) st'"
        using step_ok_trans [OF s1 ks(4)] unfolding kv1 kv_drop_drop by simp
      moreover have "k \<notin> set ks" "\<forall>k' \<in> set ks. kv_expired now k' (st_kv st)"
        using ks(2) unfolding kv1 kv_expired_drop by auto
      ultimately show ?thesis using ks(1,3) x by (intro exI [of _ "k # ks"]) simp
    qed
  qed
qed

lemma active_expire_loop_ok:
  "store_inv st \<Longrightarrow> active_expire_loop rounds n st = Some (n', st') \<Longrightarrow>
     \<exists>ks. distinct ks \<and> (\<forall>k \<in> set ks. \<exists>r \<in> set rounds. kv_expired (er_now r) k (st_kv st)) \<and>
       n' = n + length ks \<and> step_ok st (kv_drop ks (st_kv st)) st'"
proof (induction rounds arbitrary: n st)
  case Nil
  then show ?case
    using step_ok_refl [OF Nil.prems(1)]
    by (intro exI [of _ "[]"]) (simp add: active_expire_loop.simps split: if_splits)
next
  case (Cons r rounds)
  note inv = Cons.prems(1) and run = Cons.prems(2)
  let ?sampled = "min kExpireSamplesPerLoop (ht_size (st_expires st))"
  show ?case
  proof (cases "ht_size (st_expires st) > 0")
    case False
    then show ?thesis
      using run step_ok_refl [OF inv] by (intro exI [of _ "[]"]) (simp add: active_expire_loop.simps)
  next
    case True
    then obtain m st1 where es: "expire_samples ?sampled (er_now r) (er_draws r) 0 st = Some (m, st1)"
      using run by (subst (asm) active_expire_loop.simps) (auto simp: Let_def split: option.splits)
    from expire_samples_ok [OF inv es] obtain ks where ks: "distinct ks"
      "\<forall>k \<in> set ks. kv_expired (er_now r) k (st_kv st)" "m = length ks"
      and s1: "step_ok st (kv_drop ks (st_kv st)) st1" by auto
    show ?thesis
    proof (cases "m * 4 \<le> ?sampled \<or> er_timeup r")
      case stop: True
      then have "n' = n + m" "st' = st1"
        using run True es by (subst (asm) active_expire_loop.simps, auto simp: Let_def)+
      then show ?thesis using ks s1 by (intro exI [of _ ks]) auto
    next
      case False
      then have "active_expire_loop rounds (n + m) st1 = Some (n', st')"
        using run True es by (subst (asm) active_expire_loop.simps) (auto simp: Let_def)
      from Cons.IH [OF step_okD(1) [OF s1] this] obtain ks' where ks': "distinct ks'"
        "\<forall>k \<in> set ks'. \<exists>r \<in> set rounds. kv_expired (er_now r) k (st_kv st1)" "n' = n + m + length ks'"
        and s2: "step_ok st1 (kv_drop ks' (st_kv st1)) st'" by auto
      have kv1: "st_kv st1 = kv_drop ks (st_kv st)" by (rule step_okD(2) [OF s1])
      have "step_ok st (kv_drop (ks @ ks') (st_kv st)) st'"
        using step_ok_trans [OF s1 s2] unfolding kv1 kv_drop_drop .
      then show ?thesis
        using ks ks' unfolding kv1 kv_expired_drop by (intro exI [of _ "ks @ ks'"]) auto
    qed
  qed
qed

section \<open>The keys of a slot\<close>

definition slot_keys :: "nat \<Rightarrow> store \<Rightarrow> bytes list" where
  "slot_keys s st = map (\<lambda>n. node_key st (snd n)) (st_slots st ! s)"

lemma slot_node_key:
  assumes inv: "store_inv st" and s: "s < kSlots" and n: "(i, p) \<in> set (st_slots st ! s)"
  shows "\<exists>e. ht_find (node_key st p) (st_dict st) = Some e \<and> key_hash_slot (node_key st p) = s \<and>
    e_slot_pos e = i \<and> e_lru_pos e = p"
proof -
  have lru: "lru_ok (st_dict st) (st_lru st) (st_next st)" and
    sl: "slot_ok (st_dict st) s (st_slots st ! s) (st_next st)"
    using inv s by (auto simp: store_inv_def slots_ok_def)
  from n sl obtain k e where k: "ht_find k (st_dict st) = Some e" "key_hash_slot k = s"
    "e_slot_pos e = i" "e_lru_pos e = p" by (auto simp: slot_ok_def)
  then have "(p, k) \<in> set (st_lru st)" using lru by (auto simp: lru_ok_def)
  then have "node_key st p = k" using lru by (simp add: node_key_def lru_ok_def)
  then show ?thesis using k by blast
qed

lemma slot_nodes_inj:
  assumes inv: "store_inv st" and s: "s < kSlots"
    and "n \<in> set (st_slots st ! s)" "n' \<in> set (st_slots st ! s)"
    "node_key st (snd n) = node_key st (snd n')"
  shows "n = n'"
  using slot_node_key [OF inv s, of "fst n" "snd n"] slot_node_key [OF inv s, of "fst n'" "snd n'"] assms(3-5)
  by (auto intro: prod_eqI)

lemma slot_keys_index:
  assumes inv: "store_inv st" and s: "s < kSlots"
  shows "set (slot_keys s st) = {k. kv_map (st_kv st) k \<noteq> None \<and> key_hash_slot k = s}"
    and "distinct (slot_keys s st)"
proof -
  have sl: "slot_ok (st_dict st) s (st_slots st ! s) (st_next st)"
    and lru: "lru_ok (st_dict st) (st_lru st) (st_next st)"
    using inv s by (auto simp: store_inv_def slots_ok_def)
  have "k \<in> set (slot_keys s st)" if e: "ht_find k (st_dict st) = Some e" "key_hash_slot k = s" for k e
  proof -
    have "(e_slot_pos e, e_lru_pos e) \<in> set (st_slots st ! s)" using sl e by (auto simp: slot_ok_def)
    moreover have "(e_lru_pos e, k) \<in> set (st_lru st)" using lru e(1) by (auto simp: lru_ok_def)
    then have "node_key st (e_lru_pos e) = k" using lru by (simp add: node_key_def lru_ok_def)
    ultimately show ?thesis by (force simp: slot_keys_def)
  qed
  then show "set (slot_keys s st) = {k. kv_map (st_kv st) k \<noteq> None \<and> key_hash_slot k = s}"
    using slot_node_key [OF inv s] by (fastforce simp: slot_keys_def kv_map_st_kv)
  have "distinct (st_slots st ! s)" using sl by (simp add: slot_ok_def distinct_map)
  then show "distinct (slot_keys s st)"
    using slot_nodes_inj [OF inv s] by (auto simp: slot_keys_def distinct_map intro: inj_onI)
qed

lemma map_of_list_erase: "map_of (list_erase p l) q = (if q = p then None else map_of l q)"
  by (induction l) (auto simp: list_erase_def)

lemma slot_keys_remove:
  assumes inv: "store_inv st" and s: "s < kSlots" and n: "st_slots st ! s = (i, p) # rest"
  shows "slot_keys s st = node_key st p # slot_keys s (snd (store_remove (node_key st p) st))"
    "st_slots (snd (store_remove (node_key st p) st)) ! s = rest"
proof -
  let ?k = "node_key st p"
  obtain e where e: "ht_find ?k (st_dict st) = Some e" "key_hash_slot ?k = s" "e_slot_pos e = i" "e_lru_pos e = p"
    using slot_node_key [OF inv s, of i p] n by auto
  have ht: "ht_inv (st_expires st)" and len: "length (st_slots st) = kSlots"
    and d: "distinct (map fst (st_slots st ! s))"
    using inv s by (auto simp: store_inv_def slots_ok_def slot_ok_def)
  note eq = store_remove_Some [OF e(1) ht]
  have "list_erase i ((i, p) # rest) = rest"
    using d n by (auto simp: list_erase_def filter_id_conv)
  then show rest: "st_slots (snd (store_remove ?k st)) ! s = rest"
    using e s len n by (simp add: eq)
  have "node_key (snd (store_remove ?k st)) (snd n') = node_key st (snd n')" if "n' \<in> set rest" for n'
  proof -
    have "fst n' \<noteq> i" using d n that by (metis fst_conv distinct.simps(2) imageI list.set_map list.simps(9))
    then have "snd n' \<noteq> p"
      using slot_nodes_inj [OF inv s, of n' "(i, p)"] that n by (cases n') auto
    moreover have "st_lru (snd (store_remove ?k st)) = list_erase p (st_lru st)" by (simp add: eq e(4))
    ultimately show ?thesis
      by (simp only: node_key_def [of "snd (store_remove ?k st)"] node_key_def [of st "snd n'"]
          map_of_list_erase if_False)
  qed
  then show "slot_keys s st = ?k # slot_keys s (snd (store_remove ?k st))"
    by (simp add: slot_keys_def n rest)
qed

lemma node_key_notify [simp]: "slot_keys s (notify_deleted k st) = slot_keys s st"
  "st_slots (notify_deleted k st) = st_slots st"
  by (simp_all add: slot_keys_def node_key_def notify_deleted_def)

lemma delete_slot_loop_ok:
  "store_inv st \<Longrightarrow> s < kSlots \<Longrightarrow>
     \<exists>st'. delete_slot_loop s n st = Some (n + length (slot_keys s st), st') \<and>
       step_ok st (kv_drop (slot_keys s st) (st_kv st)) st'"
proof (induction "st_slots st ! s" arbitrary: n st)
  case Nil
  then have "st_slots st ! s = []" by simp
  then show ?case
    using step_ok_refl [OF Nil.prems(1)] by (simp add: slot_keys_def delete_slot_loop.simps)
next
  case (Cons x rest)
  obtain i p where x: "x = (i, p)" by (cases x)
  have eq: "st_slots st ! s = (i, p) # rest" using Cons.hyps(2) x by simp
  let ?k = "node_key st p"
  let ?st1 = "notify_deleted ?k (snd (store_remove ?k st))"
  note r = slot_keys_remove [OF Cons.prems eq]
  have s1: "step_ok st (kv_drop [?k] (st_kv st)) ?st1"
    using step_ok_notify [OF store_remove_ok(1) [OF Cons.prems(1)]] by (simp add: kv_drop_def)
  have "rest = st_slots ?st1 ! s" using r(2) by simp
  from Cons.hyps(1) [OF this step_okD(1) [OF s1] Cons.prems(2), of "n + 1"]
  obtain st' where st': "delete_slot_loop s (n + 1) ?st1 = Some (n + 1 + length (slot_keys s ?st1), st')"
    "step_ok ?st1 (kv_drop (slot_keys s ?st1) (st_kv ?st1)) st'" by auto
  have "step_ok st (kv_drop (slot_keys s st) (st_kv st)) st'"
    using step_ok_trans [OF s1 st'(2)] unfolding step_okD(2) [OF s1] kv_drop_drop r(1) by simp
  moreover have "delete_slot_loop s n st = Some (n + length (slot_keys s st), st')"
    using st'(1) r(1) by (subst delete_slot_loop.simps) (simp add: eq Let_def)
  ultimately show ?case by blast
qed

section \<open>Incremental rehashing\<close>

lemma rehash_tables_ok:
  assumes inv: "store_inv st"
  shows "step_ok st (st_kv st)
    (st\<lparr>st_dict := snd (rehash_step n (st_dict st)), st_expires := snd (rehash_step m (st_expires st))\<rparr>)"
proof -
  have "ht_inv (st_dict st)" "ht_inv (st_expires st)" using inv by (auto simp: store_inv_def)
  note f = ht.find_advance [OF this(1)] ht.find_advance [OF this(2)] ht.invar_advance [OF this(1)]
    ht.invar_advance [OF this(2)]
  show ?thesis using inv
    by (simp add: step_ok_def store_inv_def st_kv_def settings_def lru_ok_def slots_ok_def slot_ok_def f)
qed

lemma active_rehash_loop_ok:
  "store_inv st \<Longrightarrow> active_rehash_loop timeups st = Some st' \<Longrightarrow> step_ok st (st_kv st) st'"
proof (induction timeups arbitrary: st)
  case (Cons t timeups)
  let ?st1 = "st\<lparr>st_dict := snd (rehash_step 100 (st_dict st)), st_expires := snd (rehash_step 100 (st_expires st))\<rparr>"
  have s1: "step_ok st (st_kv st) ?st1" by (rule rehash_tables_ok [OF Cons.prems(1)])
  show ?case
    using Cons.prems(2) s1 step_ok_refl [OF Cons.prems(1)]
      step_ok_trans [OF s1 Cons.IH [OF step_okD(1) [OF s1]]] step_okD(2) [OF s1]
    by (subst (asm) active_rehash_loop.simps) (auto simp: Let_def split: if_splits)
next
  case Nil
  then show ?case
    using step_ok_refl [OF Nil.prems(1)] by (subst (asm) active_rehash_loop.simps) (auto split: if_splits)
qed

section \<open>All operations\<close>

datatype store_op =
    SGet int bytes | SExists int bytes | SContains int bytes
  | SSet int bytes bytes bool | SDel int bytes
  | SExpire int int bytes int | SPersist int bytes | SPttl int int bytes
  | SEvict | SActiveExpire "expire_round list" | SRehash "bool list"
  | SClear | SDeleteSlot nat | SPassive bool

datatype store_res = RValue "bytes option" | RBool bool | RInt int | RCount nat | RNone

fun store_apply :: "store_op \<Rightarrow> store \<Rightarrow> (store_res \<times> store) option" where
  "store_apply (SGet now k) st = Some (apfst RValue (store_get now k st))"
| "store_apply (SExists now k) st = Some (apfst RBool (store_exists now k st))"
| "store_apply (SContains now k) st = Some (apfst RBool (store_contains now k st))"
| "store_apply (SSet now k v keep) st = Some (RNone, store_set now k v keep st)"
| "store_apply (SDel now k) st = Some (apfst RBool (store_del now k st))"
| "store_apply (SExpire now now' k w) st = Some (apfst RBool (store_set_expire now now' k w st))"
| "store_apply (SPersist now k) st = Some (apfst RBool (store_persist now k st))"
| "store_apply (SPttl now now' k) st = Some (apfst RInt (store_pttl now now' k st))"
| "store_apply SEvict st = map_option (apfst RBool) (evict_if_needed st)"
| "store_apply (SActiveExpire rounds) st = map_option (apfst RCount) (active_expire_cycle rounds st)"
| "store_apply (SRehash timeups) st = map_option (apfst RBool) (active_rehash timeups st)"
| "store_apply SClear st = Some (RNone, store_clear st)"
| "store_apply (SDeleteSlot s) st = map_option (apfst RCount) (delete_slot s st)"
| "store_apply (SPassive on) st = Some (RNone, set_passive_expiry on st)"

text \<open>The specification of a call: its answer and the state after it, from the state before it.\<close>

fun kv_step :: "nat \<times> eviction_policy \<times> bool \<Rightarrow> store_op \<Rightarrow> kv \<Rightarrow> store_res \<Rightarrow> kv \<Rightarrow> bool" where
  "kv_step (_, _, passive) (SGet now k) s r s' \<longleftrightarrow>
     r = RValue (if kv_live now k s then map_option fst (kv_map s k) else None) \<and>
     s' = kv_access passive now k True s"
| "kv_step (_, _, passive) (SExists now k) s r s' \<longleftrightarrow>
     r = RBool (kv_live now k s) \<and> s' = kv_access passive now k True s"
| "kv_step (_, _, passive) (SContains now k) s r s' \<longleftrightarrow>
     r = RBool (kv_live now k s) \<and> s' = kv_access passive now k False s"
| "kv_step (_, _, passive) (SSet now k v keep) s r s' \<longleftrightarrow>
     r = RNone \<and> s' = kv_set passive now k v keep s"
| "kv_step (_, _, passive) (SDel now k) s r s' \<longleftrightarrow>
     r = RBool (kv_live now k s) \<and> s' = kv_del passive now k s"
| "kv_step (_, _, passive) (SExpire now now' k w) s r s' \<longleftrightarrow>
     r = RBool (kv_live now k s) \<and> s' = kv_set_expire passive now now' k w s"
| "kv_step (_, _, passive) (SPersist now k) s r s' \<longleftrightarrow>
     r = RBool (kv_live now k s \<and> kv_ttl k s \<noteq> None) \<and> s' = kv_persist passive now k s"
| "kv_step (_, _, passive) (SPttl now now' k) s r s' \<longleftrightarrow>
     r = RInt (if \<not> kv_live now k s then - 2
               else case kv_ttl k s of None \<Rightarrow> - 1 | Some w \<Rightarrow> w - now') \<and>
     s' = kv_access passive now k False s"
| "kv_step cfg SEvict s r s' \<longleftrightarrow> (r, s') = apfst RBool (kv_evict_if_needed cfg s)"
| "kv_step (_, _, passive) (SActiveExpire rounds) s r s' \<longleftrightarrow>
     (\<exists>ks. distinct ks \<and> (passive \<longrightarrow> ks = []) \<and>
        (\<forall>k \<in> set ks. \<exists>rd \<in> set rounds. kv_expired (er_now rd) k s) \<and>
        r = RCount (length ks) \<and> s' = kv_drop ks s)"
| "kv_step cfg (SRehash timeups) s r s' \<longleftrightarrow> s' = s"
| "kv_step cfg SClear s r s' \<longleftrightarrow> r = RNone \<and> s' = s\<lparr>kv_map := Map.empty, kv_order := []\<rparr>"
| "kv_step cfg (SDeleteSlot sl) s r s' \<longleftrightarrow>
     (\<exists>ks. distinct ks \<and> set ks = {k. kv_map s k \<noteq> None \<and> key_hash_slot k = sl} \<and>
        r = RCount (length ks) \<and> s' = kv_drop ks s)"
| "kv_step cfg (SPassive on) s r s' \<longleftrightarrow> r = RNone \<and> s' = s"

text \<open>Slot numbers index a vector of 16384 lists.\<close>

definition op_ok :: "store_op \<Rightarrow> bool" where
  "op_ok op \<longleftrightarrow> (case op of SDeleteSlot sl \<Rightarrow> sl < kSlots | _ \<Rightarrow> True)"

text \<open>The two loops whose inputs (draws, clock, deadline) are lists here can run out of them.\<close>

definition needs_input :: "store_op \<Rightarrow> bool" where
  "needs_input op \<longleftrightarrow> (case op of SActiveExpire _ \<Rightarrow> True | SRehash _ \<Rightarrow> True | _ \<Rightarrow> False)"

definition settings_after :: "store_op \<Rightarrow> nat \<times> eviction_policy \<times> bool \<Rightarrow> nat \<times> eviction_policy \<times> bool" where
  "settings_after op cfg = (case op of SPassive on \<Rightarrow> (fst cfg, fst (snd cfg), on) | _ \<Rightarrow> cfg)"

definition apply_ok :: "store_op \<Rightarrow> store \<Rightarrow> bool" where
  "apply_ok op st \<longleftrightarrow>
     (case store_apply op st of
        Some (r, st') \<Rightarrow> store_inv st' \<and> kv_step (settings st) op (st_kv st) r (st_kv st') \<and>
          settings st' = settings_after op (settings st)
      | None \<Rightarrow> needs_input op)"

lemma apply_okI:
  "store_apply op st = Some (r, st') \<Longrightarrow> step_ok st s' st' \<Longrightarrow> \<forall>on. op \<noteq> SPassive on \<Longrightarrow>
     kv_step (settings st) op (st_kv st) r s' \<Longrightarrow> apply_ok op st"
  by (auto simp: apply_ok_def step_ok_def settings_after_def split: store_op.splits)

lemma active_expire_apply_ok:
  assumes inv: "store_inv st"
  shows "apply_ok (SActiveExpire rounds) st"
proof (cases "st_passive st")
  case True
  then show ?thesis
    using inv step_ok_refl [OF inv]
    by (intro apply_okI [where s' = "st_kv st"]) (auto simp: active_expire_cycle_def settings_def intro!: exI [of _ "[]"])
next
  case False
  show ?thesis
  proof (cases "active_expire_loop rounds 0 st")
    case None
    then show ?thesis using False by (simp add: apply_ok_def active_expire_cycle_def needs_input_def)
  next
    case (Some x)
    then obtain n st' where x: "active_expire_loop rounds 0 st = Some (n, st')" by (cases x) auto
    from active_expire_loop_ok [OF inv x] obtain ks where ks: "distinct ks"
      "\<forall>k \<in> set ks. \<exists>r \<in> set rounds. kv_expired (er_now r) k (st_kv st)" "n = length ks"
      "step_ok st (kv_drop ks (st_kv st)) st'" by auto
    show ?thesis
      using x ks False step_ok_counters(1) [OF ks(4)]
      by (intro apply_okI [where s' = "kv_drop ks (st_kv st)" and r = "RCount n"
            and st' = "st'\<lparr>st_expired_keys := st_expired_keys st' + n\<rparr>"])
        (auto simp: active_expire_cycle_def settings_def)
  qed
qed

lemma store_apply_ok:
  assumes inv: "store_inv st" and op: "op_ok op"
  shows "apply_ok op st"
proof (cases op)
  case SEvict
  from evict_if_needed_ok [OF inv] obtain st' where
    "evict_if_needed st = Some (fst (kv_evict_if_needed (settings st) (st_kv st)), st')"
    "step_ok st (snd (kv_evict_if_needed (settings st) (st_kv st))) st'" by blast
  then show ?thesis
    using SEvict by (intro apply_okI) (auto simp: prod_eq_iff)
next
  case (SActiveExpire rounds)
  then show ?thesis using active_expire_apply_ok [OF inv] by simp
next
  case (SRehash timeups)
  then show ?thesis
    using active_rehash_loop_ok [OF inv, of timeups]
    by (auto simp: apply_ok_def active_rehash_def needs_input_def step_ok_def settings_after_def split: option.splits)
next
  case (SDeleteSlot sl)
  then have sl: "sl < kSlots" using op by (simp add: op_ok_def)
  from delete_slot_loop_ok [OF inv sl, of 0] obtain st' where
    "delete_slot sl st = Some (length (slot_keys sl st), st')"
    "step_ok st (kv_drop (slot_keys sl st) (st_kv st)) st'" by (auto simp: delete_slot_def)
  then show ?thesis
    using SDeleteSlot slot_keys_index [OF inv sl] by (intro apply_okI) (auto intro: exI [of _ "slot_keys sl st"])
next
  case (SPassive on)
  have "store_inv (set_passive_expiry on st)" "st_kv (set_passive_expiry on st) = st_kv st"
    "settings (set_passive_expiry on st) = (fst (settings st), fst (snd (settings st)), on)"
    using inv by (simp_all add: set_passive_expiry_def store_inv_def st_kv_def settings_def)
  then show ?thesis using SPassive by (simp add: apply_ok_def settings_after_def)
qed (use store_reads_ok [OF inv] store_set_ok [OF inv] store_del_ok [OF inv] store_set_expire_ok [OF inv]
    store_persist_ok [OF inv] store_clear_ok [OF inv] in
    \<open>auto intro!: apply_okI simp: settings_def apfst_def map_prod_def split_beta\<close>)

section \<open>Reachable stores\<close>

inductive reachable :: "nat \<Rightarrow> eviction_policy \<Rightarrow> store \<Rightarrow> bool" for maxmemory policy where
  init: "reachable maxmemory policy (make_store maxmemory policy)"
| step: "reachable maxmemory policy st \<Longrightarrow> op_ok op \<Longrightarrow> store_apply op st = Some (r, st') \<Longrightarrow>
    reachable maxmemory policy st'"

lemma reachable_inv:
  "reachable maxmemory policy st \<Longrightarrow>
     store_inv st \<and> st_maxmemory st = maxmemory \<and> st_policy st = policy"
proof (induction rule: reachable.induct)
  case init
  then show ?case by (simp add: make_store_ok) (simp add: make_store_def)
next
  case (step st op r st')
  then have "apply_ok op st" using store_apply_ok by blast
  with step show ?case
    by (auto simp: apply_ok_def settings_after_def settings_def split: store_op.splits)
qed

lemma store_for_each_iff:
  assumes inv: "store_inv st"
  shows "distinct (map fst (store_for_each st))"
    "(k, v, w) \<in> set (store_for_each st) \<longleftrightarrow>
      (\<exists>t. kv_map (st_kv st) k = Some (v, t) \<and> w = (case t of Some w \<Rightarrow> w | None \<Rightarrow> - 1))"
proof -
  have ht: "ht_inv (st_dict st)" using inv by (simp add: store_inv_def)
  show "distinct (map fst (store_for_each st))"
    using ht.distinct_entries [OF ht] by (simp add: store_for_each_def comp_def split_beta)
  show "(k, v, w) \<in> set (store_for_each st) \<longleftrightarrow>
      (\<exists>t. kv_map (st_kv st) k = Some (v, t) \<and> w = (case t of Some w \<Rightarrow> w | None \<Rightarrow> - 1))"
    by (auto simp: store_for_each_def kv_map_st_kv ht.find_entries [OF ht] image_iff intro: rev_bexI)
qed

text \<open>
  C4: in every store that any sequence of calls can reach, in any order and with any clock readings
  and random draws, each call answers and changes the keyspace exactly as the specification says: a
  finite map with optional expiry times, an order of use and a log of reported deletions. In
  particular no expired value is ever returned, passive stores delete nothing on their own, and the
  iterators kept in entries always lead to the right list nodes. Calls return, except that the two
  loops driven by a deadline are followed only as far as their recorded inputs reach.
\<close>

theorem store_implements_keyspace:
  assumes "reachable maxmemory policy st" and "op_ok op"
  shows "case store_apply op st of
      Some (r, st') \<Rightarrow>
        reachable maxmemory policy st' \<and>
        kv_step (maxmemory, policy, st_passive st) op (st_kv st) r (st_kv st')
    | None \<Rightarrow> needs_input op"
proof -
  have inv: "store_inv st" "settings st = (maxmemory, policy, st_passive st)"
    using reachable_inv [OF assms(1)] by (simp_all add: settings_def)
  show ?thesis
    using store_apply_ok [OF inv(1) assms(2)] reachable.step [OF assms]
    by (auto simp: apply_ok_def inv(2) split: option.splits)
qed

theorem store_implements_keyspace_witness:
  "reachable 100 kAllKeysLru (make_store 100 kAllKeysLru) \<and>
   (case store_apply (SSet 5 ''k'' ''v'' False) (make_store 100 kAllKeysLru) of
      Some (r, st') \<Rightarrow>
        reachable 100 kAllKeysLru st' \<and>
        kv_step (100, kAllKeysLru, False) (SSet 5 ''k'' ''v'' False)
          (st_kv (make_store 100 kAllKeysLru)) r (st_kv st')
    | None \<Rightarrow> False)"
  using store_implements_keyspace [OF reachable.init, of "SSet 5 ''k'' ''v'' False" 100 kAllKeysLru]
    reachable.init [of 100 kAllKeysLru]
  by (simp add: op_ok_def needs_input_def make_store_def split: option.splits)

text \<open>
  C5: the bookkeeping is exact in every reachable store. The memory counter is the sum of the costs
  of the keys and their expiry entries (so no subtraction ever went below zero); the key count, the
  LRU list and the walk of all entries each cover every key once; and the index by hash slot lists
  exactly the keys of each slot, expired ones that are still there included.
\<close>

theorem store_bookkeeping_exact:
  assumes "reachable maxmemory policy st"
  shows "st_used_memory st = (\<Sum>k \<in> dom (kv_map (st_kv st)). kv_cost (kv_map (st_kv st)) k) \<and>
    store_size st = card (dom (kv_map (st_kv st))) \<and>
    distinct (map snd (st_lru st)) \<and> set (map snd (st_lru st)) = dom (kv_map (st_kv st)) \<and>
    distinct (map fst (store_for_each st)) \<and>
    (\<forall>k v w. (k, v, w) \<in> set (store_for_each st) \<longleftrightarrow>
       (\<exists>t. kv_map (st_kv st) k = Some (v, t) \<and> w = (case t of Some w \<Rightarrow> w | None \<Rightarrow> - 1))) \<and>
    (\<forall>s < kSlots. \<forall>n \<ge> count_keys_in_slot s st.
       distinct (keys_in_slot s n st) \<and> length (keys_in_slot s n st) = count_keys_in_slot s st \<and>
       set (keys_in_slot s n st) = {k \<in> dom (kv_map (st_kv st)). key_hash_slot k = s})"
proof -
  have inv: "store_inv st" using reachable_inv [OF assms] by blast
  have ht: "ht_inv (st_dict st)" using inv by (simp add: store_inv_def)
  note ok = store_inv_kv_ok [OF inv, unfolded kv_ok_def]
  have ord: "kv_order (st_kv st) = map snd (st_lru st)" by (simp add: st_kv_def)
  have dom: "dom (kv_map (st_kv st)) = ht.keys (st_dict st)"
    by (auto simp: kv_map_st_kv ht.mem_keys)
  have "st_used_memory st = (\<Sum>k \<in> dom (kv_map (st_kv st)). kv_cost (kv_map (st_kv st)) k)"
    using inv ok by (simp add: store_inv_def kv_used_def sum_list_distinct_conv_sum_set)
  moreover have "store_size st = card (dom (kv_map (st_kv st)))"
    unfolding dom store_size_def using ht by (rule ht.count_card)
  moreover note store_for_each_iff [OF inv]
  moreover have "distinct (keys_in_slot s n st) \<and> length (keys_in_slot s n st) = count_keys_in_slot s st \<and>
      set (keys_in_slot s n st) = {k \<in> dom (kv_map (st_kv st)). key_hash_slot k = s}"
    if "s < kSlots" "n \<ge> count_keys_in_slot s st" for s n
  proof -
    have "keys_in_slot s n st = slot_keys s st" "length (slot_keys s st) = count_keys_in_slot s st"
      using that(2) by (simp_all add: keys_in_slot_def slot_keys_def count_keys_in_slot_def)
    then show ?thesis using slot_keys_index [OF inv that(1)] by (auto simp: dom_def)
  qed
  ultimately show ?thesis using ok ord by auto
qed

theorem store_bookkeeping_exact_witness:
  "\<exists>st. reachable 0 kNoEviction st \<and> st_used_memory st = 131 \<and> store_size st = 1"
proof -
  let ?init = "make_store 0 kNoEviction"
  let ?st = "store_set 5 ''k'' ''v'' False ?init"
  have r: "reachable 0 kNoEviction ?st"
    by (rule reachable.step [OF reachable.init, of "SSet 5 ''k'' ''v'' False"]) (simp_all add: op_ok_def)
  have "st_kv ?st = kv_set False 5 ''k'' ''v'' False (st_kv ?init)"
    using step_okD(2) [OF store_set_ok [OF make_store_ok(1) [of 0 kNoEviction], of 5 "''k''" "''v''" False]]
    by (simp add: make_store_def)
  then have m: "kv_map (st_kv ?st) = [''k'' \<mapsto> (''v'', None)]"
    by (simp add: make_store_ok(2) kv_set_def kv_live_def kv_reap_def kv_expired_def kv_put_def)
  have "st_used_memory ?st = 131 \<and> store_size ?st = 1"
    using store_bookkeeping_exact [OF r] unfolding m by (simp add: kv_cost_def entry_cost_def)
  with r show ?thesis by blast
qed

text \<open>
  C13: with the LRU policy, making room always succeeds: the call returns, the store is within its
  limit, and the keys evicted are a tail of the order of use, reported in the order they were
  evicted, and no longer than needed (without the last one the store was still over the limit).
\<close>

theorem eviction_minimal_lru:
  assumes "reachable maxmemory kAllKeysLru st" and "0 < maxmemory"
  shows "\<exists>st' victims. evict_if_needed st = Some (True, st') \<and>
    st_used_memory st' \<le> maxmemory \<and> st_kv st' = kv_drop victims (st_kv st) \<and>
    map snd (st_lru st) = map snd (st_lru st') @ rev victims \<and>
    (\<forall>vs v. victims = vs @ [v] \<longrightarrow> kv_used (kv_drop vs (st_kv st)) > maxmemory)"
proof -
  have inv: "store_inv st" "st_maxmemory st = maxmemory" "st_policy st = kAllKeysLru"
    using reachable_inv [OF assms(1)] by auto
  from evict_loop_ok [OF inv(1,3)] obtain st' where
    e: "evict_loop st = Some (True, st')" and s: "step_ok st (kv_evict maxmemory (st_kv st)) st'"
    using inv(2) by auto
  from kv_evict_minimal [OF store_inv_kv_ok [OF inv(1)], of maxmemory] obtain vs where
    vs: "kv_evict maxmemory (st_kv st) = kv_drop vs (st_kv st)" "minimal_eviction maxmemory (st_kv st) vs"
    by blast
  have kv: "st_kv st' = kv_drop vs (st_kv st)" using step_okD(2) [OF s] vs(1) by simp
  have "st_used_memory st' = kv_used (st_kv st')" using step_okD(1) [OF s] by (simp add: store_inv_def)
  moreover have "kv_order (st_kv st) = map snd (st_lru st)" "kv_order (st_kv st') = map snd (st_lru st')"
    by (simp_all add: st_kv_def)
  moreover have "evict_if_needed st = Some (True, st')" using e assms(2) inv(2) by (simp add: evict_if_needed_def)
  ultimately show ?thesis
    using kv vs(2) unfolding minimal_eviction_def by (intro exI [of _ st'] exI [of _ vs]) auto
qed

theorem eviction_minimal_lru_witness:
  "\<exists>st st' victims. reachable 140 kAllKeysLru st \<and> evict_if_needed st = Some (True, st') \<and>
     st_kv st' = kv_drop victims (st_kv st) \<and> st_used_memory st' \<le> 140"
  using eviction_minimal_lru [OF reachable.init, of 140] reachable.init by fastforce

end
