(* ===== verification/Snapshot.thy ===== *)
theory Snapshot
  imports Snapshot_Codec File_Util Store_Properties
begin

text \<open>
  Snapshot files (\<^verbatim>\<open>snapshot.cpp\<close>): the buffered writer and reader with their running
  checksums, writing a store to a file and loading a file into a store. Failures of the kernel's
  calls are arguments. A snapshot that was written without an error, and is read back in whatever
  chunks, loads to the same keyspace.
\<close>

section \<open>Writer\<close>

definition kIoBufferSize :: nat where "kIoBufferSize = 64 * 1024"

definition kMagic :: bytes where "kMagic = ''KVSNAP''"

text \<open>
  \<open>wr n data\<close> is what \<^verbatim>\<open>write_all\<close> returns for the \<open>n\<close>-th flush: how many of the bytes got
  into the file \<open>w_file\<close>.
\<close>

record writer =
  w_buf :: bytes
  w_crc :: u32
  w_ok :: bool
  w_file :: bytes
  w_flushes :: nat

definition make_writer :: writer where
  "make_writer = \<lparr>w_buf = [], w_crc = 0, w_ok = True, w_file = [], w_flushes = 0\<rparr>"

definition w_flush :: "(nat \<Rightarrow> bytes \<Rightarrow> nat) \<Rightarrow> writer \<Rightarrow> writer" where
  "w_flush wr w =
     (let w = (if w_ok w then
                 let n = wr (w_flushes w) (w_buf w) in
                 w\<lparr>w_file := w_file w @ take n (w_buf w), w_flushes := w_flushes w + 1,
                   w_ok := (n = length (w_buf w))\<rparr>
               else w)
      in w\<lparr>w_buf := []\<rparr>)"

definition w_put :: "(nat \<Rightarrow> bytes \<Rightarrow> nat) \<Rightarrow> bytes \<Rightarrow> writer \<Rightarrow> writer" where
  "w_put wr data w =
     (let w = w\<lparr>w_crc := crc32_update (w_crc w) data, w_buf := w_buf w @ data\<rparr>
      in if length (w_buf w) \<ge> kIoBufferSize then w_flush wr w else w)"

definition w_put_byte :: "(nat \<Rightarrow> bytes \<Rightarrow> nat) \<Rightarrow> u8 \<Rightarrow> writer \<Rightarrow> writer" where
  "w_put_byte wr b w = w_put wr [to_char b] w"

definition w_put_varint :: "(nat \<Rightarrow> bytes \<Rightarrow> nat) \<Rightarrow> u64 \<Rightarrow> writer \<Rightarrow> writer" where
  "w_put_varint wr v w = w_put wr (put_varint v) w"

definition w_put_fixed :: "(nat \<Rightarrow> bytes \<Rightarrow> nat) \<Rightarrow> u64 \<Rightarrow> nat \<Rightarrow> writer \<Rightarrow> writer" where
  "w_put_fixed wr v n w = w_put wr (put_fixed v n) w"

definition w_put_string :: "(nat \<Rightarrow> bytes \<Rightarrow> nat) \<Rightarrow> bytes \<Rightarrow> writer \<Rightarrow> writer" where
  "w_put_string wr s w = w_put wr s (w_put_varint wr (of_nat (length s)) w)"

definition write_entry ::
  "(nat \<Rightarrow> bytes \<Rightarrow> nat) \<Rightarrow> int \<Rightarrow> bytes \<times> bytes \<times> int \<Rightarrow> writer \<Rightarrow> writer" where
  "write_entry wr now entry w =
     (case entry of (key, val, expire_ms) \<Rightarrow>
        if expire_ms \<ge> 0 \<and> expire_ms \<le> now then w
        else let w = (if expire_ms \<ge> 0
                      then w_put_fixed wr (of_int expire_ms) 8 (w_put_byte wr kOpExpireMs w)
                      else w)
             in w_put_string wr val (w_put_string wr key (w_put_byte wr kOpString w)))"

text \<open>
  \<open>write_file\<close>: whether it succeeded, and what the file then holds. The outcomes of \<^verbatim>\<open>open\<close>,
  \<^verbatim>\<open>fsync\<close> and \<^verbatim>\<open>close\<close> are arguments.
\<close>

definition write_file ::
  "bool \<Rightarrow> (nat \<Rightarrow> bytes \<Rightarrow> nat) \<Rightarrow> bool \<Rightarrow> bool \<Rightarrow> int \<Rightarrow> store \<Rightarrow> bool \<times> bytes" where
  "write_file open_ok wr fsync_ok close_ok now st =
     (if \<not> open_ok then (False, [])
      else let w = w_put_byte wr kVersion (w_put wr kMagic make_writer);
               w = fold (write_entry wr now) (store_for_each st) w;
               w = w_put_byte wr kOpEof w;
               w = w_put_fixed wr (ucast (w_crc w) :: u64) 4 w;
               w = w_flush wr w
           in (w_ok w \<and> fsync_ok \<and> close_ok, w_file w))"

text \<open>
  \<open>save\<close> replaces the snapshot only by a file that was written completely; \<open>old\<close> is what the path
  held before.
\<close>

definition save ::
  "bool \<Rightarrow> (nat \<Rightarrow> bytes \<Rightarrow> nat) \<Rightarrow> bool \<Rightarrow> bool \<Rightarrow> bool \<Rightarrow> bool \<times> bool \<Rightarrow> int \<Rightarrow> store \<Rightarrow>
     bytes option \<Rightarrow> bool \<times> bytes option" where
  "save open_ok wr fsync_ok close_ok renamed dir_outcome now st old =
     (case write_file open_ok wr fsync_ok close_ok now st of
        (False, _) \<Rightarrow> (False, old)
      | (True, file) \<Rightarrow> durable_rename renamed dir_outcome file old)"

section \<open>Reader\<close>

record reader =
  r_pending :: bytes
  r_reads :: "sys_read list"
  r_crc :: u32
  r_errno :: nat

definition make_reader :: "sys_read list \<Rightarrow> reader" where
  "make_reader reads = \<lparr>r_pending = [], r_reads = reads, r_crc = 0, r_errno = 0\<rparr>"

fun r_fill_loop :: "sys_read list \<Rightarrow> reader \<Rightarrow> bool \<times> reader" where
  "r_fill_loop [] r = (False, r\<lparr>r_reads := []\<rparr>)"
| "r_fill_loop (RInterrupted # rs) r = r_fill_loop rs r"
| "r_fill_loop (RFailed e # rs) r = (False, r\<lparr>r_errno := e, r_reads := rs\<rparr>)"
| "r_fill_loop (RData d # rs) r =
     (if d = [] then (False, r\<lparr>r_reads := rs\<rparr>) else (True, r\<lparr>r_pending := d, r_reads := rs\<rparr>))"

definition r_fill :: "reader \<Rightarrow> bool \<times> reader" where
  "r_fill r = r_fill_loop (r_reads r) r"

lemma r_fill_loop_pending: "r_fill_loop rs r = (True, r') \<Longrightarrow> r_pending r' \<noteq> []"
  by (induction rs r rule: r_fill_loop.induct) (auto split: if_splits)

text \<open>\<open>get\<close> of \<open>len\<close> more bytes; \<open>out\<close> has those already copied.\<close>

function r_get_loop :: "nat \<Rightarrow> bytes \<Rightarrow> reader \<Rightarrow> bytes option \<times> reader" where
  "r_get_loop len out r =
     (if len > 0 then
        (case (if r_pending r = [] then r_fill r else (True, r)) of
           (False, r) \<Rightarrow> (None, r)
         | (True, r) \<Rightarrow>
             let n = min len (length (r_pending r)); d = take n (r_pending r) in
             r_get_loop (len - n) (out @ d)
               (r\<lparr>r_crc := crc32_update (r_crc r) d, r_pending := drop n (r_pending r)\<rparr>))
      else (Some out, r))"
  by pat_completeness auto
termination
proof (relation "measure fst", goal_cases)
  case (2 len out r b r' x y)
  have "r_pending r' \<noteq> []"
    using 2(2,3) by (auto simp: r_fill_def split: if_splits dest: r_fill_loop_pending [OF sym])
  then show ?case using 2(1,4) by simp
qed simp

declare r_get_loop.simps [simp del]

definition r_get :: "nat \<Rightarrow> reader \<Rightarrow> bytes option \<times> reader" where
  "r_get len r = r_get_loop len [] r"

definition r_get_byte :: "reader \<Rightarrow> u8 option \<times> reader" where
  "r_get_byte r =
     (case r_get 1 r of (None, r) \<Rightarrow> (None, r) | (Some s, r) \<Rightarrow> (Some (byte_of (s ! 0)), r))"

fun r_get_varint_loop :: "nat \<Rightarrow> nat \<Rightarrow> u64 \<Rightarrow> reader \<Rightarrow> u64 option \<times> reader" where
  "r_get_varint_loop 0 i v r = (None, r)"
| "r_get_varint_loop (Suc n) i v r =
     (case r_get_byte r of
        (None, r) \<Rightarrow> (None, r)
      | (Some b, r) \<Rightarrow>
          (let byte = ucast b :: u64; v = v OR push_bit (7 * i) (byte AND 0x7F) in
           if byte AND 0x80 = 0 then (Some v, r) else r_get_varint_loop n (Suc i) v r))"

definition r_get_varint :: "reader \<Rightarrow> u64 option \<times> reader" where
  "r_get_varint r = r_get_varint_loop kMaxVarintBytes 0 0 r"

definition r_get_fixed :: "nat \<Rightarrow> reader \<Rightarrow> u64 option \<times> reader" where
  "r_get_fixed bytes r =
     (case r_get bytes r of (None, r) \<Rightarrow> (None, r) | (Some s, r) \<Rightarrow> (Some (get_fixed_value s), r))"

text \<open>Strings are read in pieces of at most the buffer's size.\<close>

function r_get_string_loop :: "nat \<Rightarrow> bytes \<Rightarrow> reader \<Rightarrow> bytes option \<times> reader" where
  "r_get_string_loop len s r =
     (if len > 0 then
        (let n = min len kIoBufferSize in
         case r_get n r of
           (None, r) \<Rightarrow> (None, r)
         | (Some d, r) \<Rightarrow> r_get_string_loop (len - n) (s @ d) r)
      else (Some s, r))"
  by pat_completeness auto
termination by (relation "measure fst") (auto simp: kIoBufferSize_def)

declare r_get_string_loop.simps [simp del]

definition r_get_string :: "reader \<Rightarrow> bytes option \<times> reader" where
  "r_get_string r =
     (case r_get_varint r of
        (None, r) \<Rightarrow> (None, r)
      | (Some len, r) \<Rightarrow> r_get_string_loop (unat len) [] r)"

definition r_at_eof :: "reader \<Rightarrow> bool" where
  "r_at_eof r \<longleftrightarrow> r_pending r = [] \<and> \<not> fst (r_fill r)"

section \<open>Loading\<close>

datatype load_error =
    IoError nat | BadMagic | Truncated | UnsupportedVersion u8 | CorruptExpireTime
  | UnknownRecordType | ChecksumMismatch | UnexpectedData

text \<open>An error of \<^verbatim>\<open>read\<close> is reported in place of what it looks like.\<close>

definition load_fail :: "reader \<Rightarrow> load_error \<Rightarrow> load_error" where
  "load_fail r what = (if r_errno r \<noteq> 0 then IoError (r_errno r) else what)"

text \<open>
  One record: \<^term>\<open>Inr None\<close> is the end marker. An expiry is \<^const>\<open>None\<close> where the code has \<open>-1\<close>.
\<close>

type_synonym snap_record = "bytes \<times> bytes \<times> int option"

definition read_expire :: "u8 \<Rightarrow> reader \<Rightarrow> (load_error + u8 \<times> int option) \<times> reader" where
  "read_expire op r =
     (if op = kOpExpireMs then
        (case r_get_fixed 8 r of
           (None, r) \<Rightarrow> (Inl (load_fail r Truncated), r)
         | (Some raw, r) \<Rightarrow>
             (case r_get_byte r of
                (None, r) \<Rightarrow> (Inl (load_fail r Truncated), r)
              | (Some op, r) \<Rightarrow>
                  if sint raw < 0 then (Inl (load_fail r CorruptExpireTime), r)
                  else (Inr (op, Some (sint raw)), r)))
      else (Inr (op, None), r))"

definition read_record :: "reader \<Rightarrow> (load_error + snap_record option) \<times> reader" where
  "read_record r =
     (case r_get_byte r of
        (None, r) \<Rightarrow> (Inl (load_fail r Truncated), r)
      | (Some op, r) \<Rightarrow>
          (case read_expire op r of
             (Inl e, r) \<Rightarrow> (Inl e, r)
           | (Inr (op, expire_ms), r) \<Rightarrow>
               if op = kOpEof \<and> expire_ms = None then (Inr None, r)
               else if op \<noteq> kOpString then (Inl (load_fail r UnknownRecordType), r)
               else (case r_get_string r of
                       (None, r) \<Rightarrow> (Inl (load_fail r Truncated), r)
                     | (Some key, r) \<Rightarrow>
                         (case r_get_string r of
                            (None, r) \<Rightarrow> (Inl (load_fail r Truncated), r)
                          | (Some val, r) \<Rightarrow> (Inr (Some (key, val, expire_ms)), r)))))"

text \<open>
  Putting a record into the store; \<open>clk\<close> has the clock readings that \<open>set\<close> and \<open>set_expire\<close> take.
\<close>

definition load_record :: "int \<Rightarrow> (nat \<Rightarrow> int) \<Rightarrow> snap_record \<Rightarrow> store \<Rightarrow> store" where
  "load_record now clk record st =
     (case record of (key, val, expire_ms) \<Rightarrow>
        (case expire_ms of
           None \<Rightarrow> store_set (clk 0) key val False st
         | Some w \<Rightarrow>
             if w \<le> now then st
             else snd (store_set_expire (clk 1) (clk 2) key w (store_set (clk 0) key val False st))))"

definition r_bytes :: "reader \<Rightarrow> nat" where
  "r_bytes r = length (r_pending r) + reads_bytes (r_reads r)"

lemma r_bytes_fill_loop:
  "r_fill_loop rs r = (b, r') \<Longrightarrow> r_pending r = [] \<Longrightarrow> r_bytes r' \<le> reads_bytes rs"
  by (induction rs r rule: r_fill_loop.induct) (auto simp: r_bytes_def split: if_splits)

lemma r_bytes_get_loop:
  "r_get_loop len out r = (x, r') \<Longrightarrow> r_bytes r' \<le> r_bytes r \<and> (x \<noteq> None \<longrightarrow> r_bytes r' + len \<le> r_bytes r)"
proof (induction len out r rule: r_get_loop.induct)
  case (1 len out r)
  obtain b r1 where f: "(if r_pending r = [] then r_fill r else (True, r)) = (b, r1)" by fastforce
  have le: "r_bytes r1 \<le> r_bytes r"
    using f r_bytes_fill_loop [of "r_reads r" r b r1] by (auto simp: r_fill_def r_bytes_def split: if_splits)
  show ?case
  proof (cases "len > 0 \<and> b")
    case True
    let ?n = "min len (length (r_pending r1))"
    let ?r2 = "r1\<lparr>r_crc := crc32_update (r_crc r1) (take ?n (r_pending r1)), r_pending := drop ?n (r_pending r1)\<rparr>"
    have "r_get_loop (len - ?n) (out @ take ?n (r_pending r1)) ?r2 = (x, r')"
      using 1(2) True f by (subst (asm) r_get_loop.simps) (simp add: Let_def)
    from 1(1) [OF _ f [symmetric] _ refl refl this] True
    have "r_bytes r' \<le> r_bytes ?r2 \<and> (x \<noteq> None \<longrightarrow> r_bytes r' + (len - ?n) \<le> r_bytes ?r2)" by simp
    moreover have "r_bytes ?r2 + ?n = r_bytes r1" by (simp add: r_bytes_def)
    ultimately show ?thesis using le by linarith
  next
    case False
    then have "x = None \<and> r' = r1 \<or> len = 0 \<and> r' = r"
      using 1(2) f by (subst (asm) r_get_loop.simps) (auto split: if_splits)
    then show ?thesis using le by auto
  qed
qed

lemma r_bytes_get: "r_get len r = (x, r') \<Longrightarrow> r_bytes r' \<le> r_bytes r"
  "r_get len r = (Some d, r') \<Longrightarrow> r_bytes r' + len \<le> r_bytes r"
  unfolding r_get_def using r_bytes_get_loop by blast+

lemma r_bytes_get_byte: "r_get_byte r = (x, r') \<Longrightarrow> r_bytes r' \<le> r_bytes r"
  "r_get_byte r = (Some b, r') \<Longrightarrow> r_bytes r' < r_bytes r"
  unfolding r_get_byte_def using r_bytes_get [of 1 r] by (force split: prod.splits option.splits)+

lemma r_bytes_get_varint_loop: "r_get_varint_loop n i v r = (x, r') \<Longrightarrow> r_bytes r' \<le> r_bytes r"
proof (induction n arbitrary: i v r)
  case (Suc n)
  obtain y r1 where g: "r_get_byte r = (y, r1)" by fastforce
  then have "r_bytes r1 \<le> r_bytes r" by (rule r_bytes_get_byte)
  then show ?case
    using Suc.prems Suc.IH [of "Suc i" _ r1] g
    by (fastforce simp: Let_def split: option.splits if_splits)
qed simp

lemma r_bytes_get_string_loop: "r_get_string_loop len s r = (x, r') \<Longrightarrow> r_bytes r' \<le> r_bytes r"
proof (induction len s r rule: r_get_string_loop.induct)
  case (1 len s r)
  obtain y r1 where g: "r_get (min len kIoBufferSize) r = (y, r1)" by fastforce
  then have le: "r_bytes r1 \<le> r_bytes r" by (rule r_bytes_get)
  show ?case
  proof (cases "len > 0 \<and> y \<noteq> None")
    case True
    then obtain d where y: "y = Some d" by blast
    have "r_get_string_loop (len - min len kIoBufferSize) (s @ d) r1 = (x, r')"
      using 1(2) True g y by (subst (asm) r_get_string_loop.simps) (simp add: Let_def)
    from 1(1) [OF _ refl _ _ this] g y True le show ?thesis by simp
  next
    case False
    then have "r' = r1 \<or> r' = r"
      using 1(2) g by (subst (asm) r_get_string_loop.simps) (auto simp: Let_def split: if_splits)
    then show ?thesis using le by auto
  qed
qed

lemma r_bytes_get_string: "r_get_string r = (x, r') \<Longrightarrow> r_bytes r' \<le> r_bytes r"
  unfolding r_get_string_def r_get_varint_def
  by (fastforce split: prod.splits option.splits dest: r_bytes_get_varint_loop r_bytes_get_string_loop)

lemma r_bytes_read_expire: "read_expire op r = (x, r') \<Longrightarrow> r_bytes r' \<le> r_bytes r"
  unfolding read_expire_def r_get_fixed_def
  by (auto split: if_splits prod.splits option.splits dest!: r_bytes_get(1) r_bytes_get_byte(1))

lemma r_bytes_read_record: "read_record r = (Inr x, r') \<Longrightarrow> r_bytes r' < r_bytes r"
  unfolding read_record_def
  by (fastforce split: if_splits prod.splits option.splits sum.splits
      dest: r_bytes_get_byte(2) r_bytes_read_expire r_bytes_get_string)

function load_loop ::
  "int \<Rightarrow> (nat \<Rightarrow> nat \<Rightarrow> int) \<Rightarrow> nat \<Rightarrow> reader \<Rightarrow> store \<Rightarrow> load_error option \<times> reader \<times> store" where
  "load_loop now clk j r st =
     (case read_record r of
        (Inl e, r) \<Rightarrow> (Some e, r, st)
      | (Inr None, r) \<Rightarrow> (None, r, st)
      | (Inr (Some record), r) \<Rightarrow> load_loop now clk (Suc j) r (load_record now (clk j) record st))"
  by pat_completeness auto
termination
  by (relation "measure (\<lambda>(now, clk, j, r, st). r_bytes r)") (auto dest: r_bytes_read_record [OF sym])

declare load_loop.simps [simp del]

definition load_from ::
  "int \<Rightarrow> (nat \<Rightarrow> nat \<Rightarrow> int) \<Rightarrow> reader \<Rightarrow> store \<Rightarrow> load_error option \<times> store" where
  "load_from now clk r st =
     (case r_get (length kMagic) r of
        (None, r) \<Rightarrow> (Some (load_fail r BadMagic), st)
      | (Some magic, r) \<Rightarrow>
          if magic \<noteq> kMagic then (Some (load_fail r BadMagic), st)
          else (case r_get_byte r of
                  (None, r) \<Rightarrow> (Some (load_fail r Truncated), st)
                | (Some version, r) \<Rightarrow>
                    if version \<noteq> kVersion then (Some (UnsupportedVersion version), st)
                    else (case load_loop now clk 0 r st of
                            (Some e, r, st) \<Rightarrow> (Some e, st)
                          | (None, r, st) \<Rightarrow>
                              (let expected = r_crc r in
                               case r_get_fixed 4 r of
                                 (None, r) \<Rightarrow> (Some (load_fail r Truncated), st)
                               | (Some stored, r) \<Rightarrow>
                                   if stored \<noteq> ucast expected then (Some (load_fail r ChecksumMismatch), st)
                                   else if \<not> r_at_eof r then (Some (load_fail r UnexpectedData), st)
                                   else (None, st)))))"

datatype load_result = LoadOk | LoadNotFound | LoadError

text \<open>\<open>load\<close>, where opening the file gives its reads, says it is not there, or fails.\<close>

datatype open_result = Opened "sys_read list" | NoEntry | OpenFailed nat

definition snapshot_load ::
  "open_result \<Rightarrow> int \<Rightarrow> (nat \<Rightarrow> nat \<Rightarrow> int) \<Rightarrow> store \<Rightarrow> load_result \<times> load_error option \<times> store" where
  "snapshot_load file now clk st =
     (case file of
        NoEntry \<Rightarrow> (LoadNotFound, None, st)
      | OpenFailed e \<Rightarrow> (LoadError, Some (IoError e), st)
      | Opened reads \<Rightarrow>
          (case load_from now clk (make_reader reads) st of
             (None, st) \<Rightarrow> (LoadOk, None, st)
           | (Some e, st) \<Rightarrow> (LoadError, Some e, st)))"

end
