(* ===== verification/Snapshot_Properties.thy ===== *)
theory Snapshot_Properties
  imports Snapshot
begin

text \<open>
  What the snapshot writer puts into a file, what the reader gets out of it whatever chunks the
  kernel returns, and the round trip of a whole keyspace.
\<close>

section \<open>The writer produces the format\<close>

text \<open>A writer to which \<open>out\<close> has been put: the checksum covers it, and unless a write failed it is
  in the file and the buffer.\<close>

definition writes :: "bytes \<Rightarrow> writer \<Rightarrow> bool" where
  "writes out w \<longleftrightarrow> w_crc w = crc32_update 0 out \<and> (w_ok w \<longrightarrow> w_file w @ w_buf w = out)"

lemma writes_init: "writes [] make_writer"
  by (simp add: writes_def make_writer_def)

lemma writes_flush: "writes out w \<Longrightarrow> writes out (w_flush wr w)"
  by (auto simp: writes_def w_flush_def Let_def)

lemma writes_put: "writes out w \<Longrightarrow> writes (out @ d) (w_put wr d w)"
  unfolding w_put_def Let_def
  by (auto intro!: writes_flush) (auto simp: writes_def crc32_update_append)

lemma writes_puts:
  "writes out w \<Longrightarrow> writes (out @ [to_char b]) (w_put_byte wr b w)"
  "writes out w \<Longrightarrow> writes (out @ put_varint v) (w_put_varint wr v w)"
  "writes out w \<Longrightarrow> writes (out @ put_fixed x n) (w_put_fixed wr x n w)"
  by (simp_all add: w_put_byte_def w_put_varint_def w_put_fixed_def writes_put)

definition string_bytes :: "bytes \<Rightarrow> bytes" where
  "string_bytes s = put_varint (of_nat (length s)) @ s"

lemma writes_put_string: "writes out w \<Longrightarrow> writes (out @ string_bytes s) (w_put_string wr s w)"
  unfolding w_put_string_def string_bytes_def append_assoc [symmetric]
  by (intro writes_put writes_puts)

text \<open>The file format, as the header describes it.\<close>

definition record_bytes :: "snap_record \<Rightarrow> bytes" where
  "record_bytes rec =
     (case rec of (key, val, expire) \<Rightarrow>
        (case expire of None \<Rightarrow> [] | Some w \<Rightarrow> to_char kOpExpireMs # put_fixed (of_int w :: u64) 8)
        @ to_char kOpString # string_bytes key @ string_bytes val)"

definition snapshot_body :: "snap_record list \<Rightarrow> bytes" where
  "snapshot_body recs = kMagic @ [to_char kVersion] @ concat (map record_bytes recs) @ [to_char kOpEof]"

definition snapshot_bytes :: "snap_record list \<Rightarrow> bytes" where
  "snapshot_bytes recs = snapshot_body recs @ put_fixed (ucast (crc32_update 0 (snapshot_body recs)) :: u64) 4"

text \<open>The records of a walk over the store: expired keys are left out, \<open>-1\<close> is no expiry.\<close>

definition live_entry :: "int \<Rightarrow> bytes \<times> bytes \<times> int \<Rightarrow> bool" where
  "live_entry now e \<longleftrightarrow> \<not> (snd (snd e) \<ge> 0 \<and> snd (snd e) \<le> now)"

definition entry_record :: "bytes \<times> bytes \<times> int \<Rightarrow> snap_record" where
  "entry_record e = (fst e, fst (snd e), if snd (snd e) \<ge> 0 then Some (snd (snd e)) else None)"

definition store_records :: "int \<Rightarrow> store \<Rightarrow> snap_record list" where
  "store_records now st = map entry_record (filter (live_entry now) (store_for_each st))"

lemma writes_entry:
  assumes "writes out w"
  shows "writes (out @ (if live_entry now e then record_bytes (entry_record e) else [])) (write_entry wr now e w)"
proof (cases e)
  case (fields key val x)
  have "writes (out @ [to_char kOpString] @ string_bytes key @ string_bytes val)
      (w_put_string wr val (w_put_string wr key (w_put_byte wr kOpString w)))" if "writes out w" for out w
    unfolding append_assoc [symmetric] using that by (intro writes_put_string writes_puts)
  from this [of out w] this [of "out @ [to_char kOpExpireMs] @ put_fixed (of_int x :: u64) 8"
      "w_put_fixed wr (of_int x :: u64) 8 (w_put_byte wr kOpExpireMs w)"]
  show ?thesis
    using assms writes_puts(3) [OF writes_puts(1) [OF assms], where n = 8 and x = "of_int x :: u64"]
    by (auto simp: fields write_entry_def live_entry_def entry_record_def record_bytes_def Let_def)
qed

lemma writes_entries:
  "writes out w \<Longrightarrow>
     writes (out @ concat (map (\<lambda>e. record_bytes (entry_record e)) (filter (live_entry now) es)))
       (fold (write_entry wr now) es w)"
proof (induction es arbitrary: out w)
  case (Cons e es)
  from Cons.IH [OF writes_entry [OF Cons.prems, of now e wr]] show ?case by (cases "live_entry now e") simp_all
qed simp

lemma write_file_bytes:
  assumes "write_file open_ok wr fsync_ok close_ok now st = (True, file)"
  shows "file = snapshot_bytes (store_records now st)"
proof -
  let ?recs = "store_records now st"
  define w1 where "w1 = fold (write_entry wr now) (store_for_each st) (w_put_byte wr kVersion (w_put wr kMagic make_writer))"
  define w2 where "w2 = w_put_byte wr kOpEof w1"
  define w3 where "w3 = w_put_fixed wr (ucast (w_crc w2)) 4 w2"
  have "writes ([] @ kMagic @ [to_char kVersion]) (w_put_byte wr kVersion (w_put wr kMagic make_writer))"
    unfolding append_assoc [symmetric] by (intro writes_puts writes_put writes_init)
  from writes_puts(1) [OF writes_entries [OF this, where es = "store_for_each st"], where b = kOpEof]
  have w2: "writes (snapshot_body ?recs) w2"
    by (simp add: w2_def w1_def snapshot_body_def store_records_def comp_def)
  then have crc: "w_crc w2 = crc32_update 0 (snapshot_body ?recs)" by (simp add: writes_def)
  have "writes (snapshot_bytes ?recs) (w_flush wr w3)"
    unfolding w3_def snapshot_bytes_def crc by (intro writes_flush writes_puts w2)
  moreover have "w_ok (w_flush wr w3)" "file = w_file (w_flush wr w3)" "w_buf (w_flush wr w3) = []"
    using assms by (auto simp: write_file_def w1_def w2_def w3_def Let_def w_flush_def split: if_splits)
  ultimately show ?thesis by (simp add: writes_def)
qed

section \<open>The reader sees the bytes of the file\<close>

definition reads_as :: "bytes \<Rightarrow> u32 \<Rightarrow> reader \<Rightarrow> bool" where
  "reads_as s crc r \<longleftrightarrow>
     r_pending r @ reads_data (r_reads r) = s \<and> reads_ok (r_reads r) \<and> r_errno r = 0 \<and> r_crc r = crc"

lemma reads_as_init: "reads_ok reads \<Longrightarrow> reads_as (reads_data reads) 0 (make_reader reads)"
  by (simp add: reads_as_def make_reader_def)

lemma fill_loop_reads:
  "reads_ok rs \<Longrightarrow> r_pending r = [] \<Longrightarrow>
     (case r_fill_loop rs r of (b, r') \<Rightarrow>
        b = (reads_data rs \<noteq> []) \<and> r_errno r' = r_errno r \<and> r_crc r' = r_crc r \<and>
        (b \<longrightarrow> r_pending r' @ reads_data (r_reads r') = reads_data rs \<and> reads_ok (r_reads r') \<and> r_pending r' \<noteq> []))"
  by (induction rs r rule: r_fill_loop.induct) auto

lemma fill_reads:
  assumes "reads_as s crc r" "r_pending r = []"
  shows "fst (r_fill r) = (s \<noteq> [])"
    "s \<noteq> [] \<Longrightarrow> \<exists>r'. r_fill r = (True, r') \<and> reads_as s crc r' \<and> r_pending r' \<noteq> []"
  using fill_loop_reads [of "r_reads r" r] assms
  by (auto simp: reads_as_def r_fill_def split: prod.splits)

lemma r_get_loop_reads:
  "reads_as s crc r \<Longrightarrow> len \<le> length s \<Longrightarrow>
     \<exists>r'. r_get_loop len out r = (Some (out @ take len s), r') \<and>
       reads_as (drop len s) (crc32_update crc (take len s)) r'"
proof (induction len arbitrary: s crc out r rule: less_induct)
  case (less len)
  show ?case
  proof (cases "len = 0")
    case True
    then show ?thesis using less.prems by (simp add: r_get_loop.simps)
  next
    case False
    then have ne: "s \<noteq> []" using less.prems(2) by auto
    obtain r1 where r1: "(if r_pending r = [] then r_fill r else (True, r)) = (True, r1)"
      "reads_as s crc r1" "r_pending r1 \<noteq> []"
      using fill_reads(2) [OF less.prems(1) _ ne] less.prems(1) by (cases "r_pending r = []") auto
    define n where "n = min len (length (r_pending r1))"
    have n: "0 < n" "n \<le> len" "n \<le> length (r_pending r1)" using False r1(3) by (auto simp: n_def)
    define r2 where "r2 = r1\<lparr>r_crc := crc32_update (r_crc r1) (take n (r_pending r1)), r_pending := drop n (r_pending r1)\<rparr>"
    have s: "s = r_pending r1 @ reads_data (r_reads r1)" using r1(2) by (simp add: reads_as_def)
    have tk: "take n s = take n (r_pending r1)" using n by (simp add: s)
    have r2: "reads_as (drop n s) (crc32_update crc (take n s)) r2"
      using r1(2) n(3) tk by (simp add: r2_def reads_as_def s)
    have "len - n < len" "len - n \<le> length (drop n s)" using n less.prems(2) by auto
    from less.IH [OF this(1) r2 this(2), of "out @ take n s"]
    obtain r' where "r_get_loop (len - n) (out @ take n s) r2 = (Some (out @ take n s @ take (len - n) (drop n s)), r')"
      "reads_as (drop (len - n) (drop n s)) (crc32_update (crc32_update crc (take n s)) (take (len - n) (drop n s))) r'"
      by auto
    moreover have "take n s @ take (len - n) (drop n s) = take len s"
      using n(2) by (metis le_add_diff_inverse take_add)
    moreover have "r_get_loop len out r = r_get_loop (len - n) (out @ take n s) r2"
      using False r1(1) by (subst r_get_loop.simps) (simp add: Let_def n_def [symmetric] r2_def tk)
    ultimately show ?thesis using n(2) by (auto simp flip: crc32_update_append)
  qed
qed

lemma r_get_reads:
  assumes "reads_as (d @ s) crc r"
  shows "\<exists>r'. r_get (length d) r = (Some d, r') \<and> reads_as s (crc32_update crc d) r'"
  using r_get_loop_reads [OF assms, of "length d" "[]"] by (simp add: r_get_def)

lemma r_get_byte_reads:
  assumes "reads_as (to_char b # s) crc r"
  shows "\<exists>r'. r_get_byte r = (Some b, r') \<and> reads_as s (crc32_update crc [to_char b]) r'"
proof -
  have "byte_of (to_char (b :: u8)) = b" by (simp add: byte_of_to_char take_bit_word_eq_self)
  then show ?thesis using r_get_reads [of "[to_char b]" s crc r] assms by (auto simp: r_get_byte_def)
qed

lemma ucast_byte_of: "ucast (byte_of c :: u8) = (byte_of c :: u64)"
  using of_char_less_256 [of c]
  by (simp add: byte_of_def unsigned_of_nat take_bit_nat_eq_self)

lemma r_get_char_reads:
  assumes "reads_as (c # s) crc r"
  shows "\<exists>r'. r_get_byte r = (Some (byte_of c), r') \<and> reads_as s (crc32_update crc [c]) r'"
  using r_get_reads [of "[c]" s crc r] assms by (auto simp: r_get_byte_def)

lemma r_get_varint_loop_reads:
  "get_varint_loop n i v s = Some (x, rest) \<Longrightarrow> reads_as s crc r \<Longrightarrow>
     \<exists>d r'. s = d @ rest \<and> r_get_varint_loop n i v r = (Some x, r') \<and> reads_as rest (crc32_update crc d) r'"
proof (induction n arbitrary: i v s crc r)
  case (Suc n)
  then obtain c t where s: "s = c # t" by (cases s) auto
  let ?v = "v OR push_bit (7 * i) (byte_of c AND 0x7F)"
  obtain r1 where r1: "r_get_byte r = (Some (byte_of c), r1)" "reads_as t (crc32_update crc [c]) r1"
    using r_get_char_reads Suc.prems(2) s by blast
  show ?case
  proof (cases "(byte_of c :: u64) AND 0x80 = 0")
    case True
    then show ?thesis using Suc.prems(1) r1 s by (auto simp: Let_def ucast_byte_of)
  next
    case False
    then have "get_varint_loop n (Suc i) ?v t = Some (x, rest)" using Suc.prems(1) s by (simp add: Let_def)
    from Suc.IH [OF this r1(2)] obtain d r' where d: "t = d @ rest"
      "r_get_varint_loop n (Suc i) ?v r1 = (Some x, r')" "reads_as rest (crc32_update crc (c # d)) r'"
      by (auto simp flip: crc32_update_append)
    then show ?thesis
      using False r1(1) s by (intro exI [of _ "c # d"]) (simp add: Let_def ucast_byte_of)
  qed
qed simp

lemma r_get_varint_reads:
  assumes "reads_as (put_varint v @ s) crc r"
  shows "\<exists>r'. r_get_varint r = (Some v, r') \<and> reads_as s (crc32_update crc (put_varint v)) r'"
  using r_get_varint_loop_reads [OF get_put_varint [unfolded get_varint_def] assms]
  by (auto simp: r_get_varint_def)

lemma r_get_string_loop_reads:
  "reads_as (d @ s) crc r \<Longrightarrow>
     \<exists>r'. r_get_string_loop (length d) acc r = (Some (acc @ d), r') \<and> reads_as s (crc32_update crc d) r'"
proof (induction "length d" arbitrary: d acc crc r rule: less_induct)
  case less
  show ?case
  proof (cases "d = []")
    case True
    then show ?thesis using less.prems by (simp add: r_get_string_loop.simps)
  next
    case False
    define n where "n = min (length d) kIoBufferSize"
    have n: "0 < n" "n \<le> length d" using False by (auto simp: n_def kIoBufferSize_def)
    have len: "length (take n d) = n" using n(2) by simp
    have "reads_as (take n d @ drop n d @ s) crc r" using less.prems by (simp flip: append_assoc)
    from r_get_reads [OF this, unfolded len] obtain r1 where
      r1: "r_get n r = (Some (take n d), r1)" "reads_as (drop n d @ s) (crc32_update crc (take n d)) r1"
      by blast
    have "length (drop n d) < length d" using n by simp
    from less.hyps [OF this r1(2), of "acc @ take n d"] obtain r' where
      "r_get_string_loop (length d - n) (acc @ take n d) r1 = (Some (acc @ d), r')"
      "reads_as s (crc32_update crc d) r'" by (auto simp flip: crc32_update_append)
    then show ?thesis
      using False r1(1) by (subst r_get_string_loop.simps) (simp add: Let_def n_def [symmetric])
  qed
qed

lemma r_get_string_reads:
  assumes "reads_as (string_bytes d @ s) crc r" "length d < 2 ^ 64"
  shows "\<exists>r'. r_get_string r = (Some d, r') \<and> reads_as s (crc32_update crc (string_bytes d)) r'"
proof -
  have "reads_as (put_varint (of_nat (length d)) @ d @ s) crc r" using assms(1) by (simp add: string_bytes_def)
  from r_get_varint_reads [OF this] obtain r1 where r1: "r_get_varint r = (Some (of_nat (length d)), r1)"
    "reads_as (d @ s) (crc32_update crc (put_varint (of_nat (length d)))) r1" by blast
  from r_get_string_loop_reads [OF r1(2), of "[]"] r1(1) unat_of_nat_u64 [OF assms(2)]
  show ?thesis by (simp add: r_get_string_def string_bytes_def crc32_update_append)
qed

section \<open>Records and whole files\<close>

definition record_ok :: "snap_record \<Rightarrow> bool" where
  "record_ok rec \<longleftrightarrow>
     (case rec of (key, val, expire) \<Rightarrow>
        length key < 2 ^ 64 \<and> length val < 2 ^ 64 \<and> (\<forall>w. expire = Some w \<longrightarrow> 0 \<le> w \<and> w \<le> int64_max))"

lemma sint_of_int_u64: "0 \<le> w \<Longrightarrow> w \<le> int64_max \<Longrightarrow> sint (of_int w :: u64) = w"
  by (simp add: sint_sbintrunc' signed_take_bit_int_eq_self int64_max_def)

lemma op_bytes_distinct: "kOpString \<noteq> kOpExpireMs" "kOpString \<noteq> kOpEof" "kOpEof \<noteq> kOpExpireMs"
  by (simp_all add: kOpString_def kOpExpireMs_def kOpEof_def)

lemma read_record_reads:
  assumes ok: "record_ok rec" and r: "reads_as (record_bytes rec @ s) crc r"
  shows "\<exists>r'. read_record r = (Inr (Some rec), r') \<and> reads_as s (crc32_update crc (record_bytes rec)) r'"
proof -
  obtain key val expire where rec: "rec = (key, val, expire)" by (cases rec)
  have len: "length key < 2 ^ 64" "length val < 2 ^ 64" using ok by (auto simp: record_ok_def rec)
  let ?tail = "string_bytes key @ string_bytes val @ s"
  have head: "\<exists>r1 r2 op. r_get_byte r = (Some op, r1) \<and> read_expire op r1 = (Inr (kOpString, expire), r2) \<and>
    (\<exists>d. record_bytes rec = d @ string_bytes key @ string_bytes val \<and> reads_as ?tail (crc32_update crc d) r2)"
  proof (cases expire)
    case None
    then have "reads_as (to_char kOpString # ?tail) crc r" using r by (simp add: rec record_bytes_def)
    from r_get_byte_reads [OF this] show ?thesis
      using None op_bytes_distinct by (auto simp: read_expire_def rec record_bytes_def)
  next
    case (Some w)
    then have w: "0 \<le> w" "w \<le> int64_max" using ok by (auto simp: record_ok_def rec)
    let ?f = "put_fixed (of_int w :: u64) 8"
    have "reads_as (to_char kOpExpireMs # ?f @ to_char kOpString # ?tail) crc r"
      using r Some by (simp add: rec record_bytes_def)
    from r_get_byte_reads [OF this] obtain r1 where r1: "r_get_byte r = (Some kOpExpireMs, r1)"
      "reads_as (?f @ to_char kOpString # ?tail) (crc32_update crc [to_char kOpExpireMs]) r1" by blast
    from r_get_reads [OF r1(2)] obtain r2 where r2: "r_get 8 r1 = (Some ?f, r2)"
      "reads_as (to_char kOpString # ?tail) (crc32_update crc (to_char kOpExpireMs # ?f)) r2"
      by (auto simp flip: crc32_update_append)
    from r_get_byte_reads [OF r2(2)] obtain r3 where r3: "r_get_byte r2 = (Some kOpString, r3)"
      "reads_as ?tail (crc32_update crc (to_char kOpExpireMs # ?f @ [to_char kOpString])) r3"
      by (auto simp flip: crc32_update_append)
    have "get_fixed_value ?f = (of_int w :: u64)" by (simp add: get_put_fixed take_bit_word_eq_self)
    then have "read_expire kOpExpireMs r1 = (Inr (kOpString, Some w), r3)"
      using r2(1) r3(1) w by (simp add: read_expire_def r_get_fixed_def sint_of_int_u64)
    then show ?thesis using r1(1) r3(2) Some by (auto simp: rec record_bytes_def)
  qed
  then obtain r1 r2 op d where h: "r_get_byte r = (Some op, r1)" "read_expire op r1 = (Inr (kOpString, expire), r2)"
    "record_bytes rec = d @ string_bytes key @ string_bytes val" "reads_as ?tail (crc32_update crc d) r2" by blast
  from r_get_string_reads [OF h(4) len(1)] obtain r3 where r3: "r_get_string r2 = (Some key, r3)"
    "reads_as (string_bytes val @ s) (crc32_update crc (d @ string_bytes key)) r3"
    by (auto simp flip: crc32_update_append)
  from r_get_string_reads [OF r3(2) len(2)] obtain r4 where r4: "r_get_string r3 = (Some val, r4)"
    "reads_as s (crc32_update crc (d @ string_bytes key @ string_bytes val)) r4"
    by (auto simp flip: crc32_update_append)
  show ?thesis
    using h r3(1) r4 op_bytes_distinct by (auto simp: read_record_def rec)
qed

lemma read_record_eof:
  assumes "reads_as (to_char kOpEof # s) crc r"
  shows "\<exists>r'. read_record r = (Inr None, r') \<and> reads_as s (crc32_update crc [to_char kOpEof]) r'"
  using r_get_byte_reads [OF assms] op_bytes_distinct by (auto simp: read_record_def read_expire_def)

fun load_records :: "int \<Rightarrow> (nat \<Rightarrow> nat \<Rightarrow> int) \<Rightarrow> nat \<Rightarrow> snap_record list \<Rightarrow> store \<Rightarrow> store" where
  "load_records now clk j [] st = st"
| "load_records now clk j (rec # recs) st =
     load_records now clk (Suc j) recs (load_record now (clk j) rec st)"

lemma load_loop_reads:
  "list_all record_ok recs \<Longrightarrow> reads_as (concat (map record_bytes recs) @ to_char kOpEof # s) crc r \<Longrightarrow>
     \<exists>r'. load_loop now clk j r st = (None, r', load_records now clk j recs st) \<and>
       reads_as s (crc32_update crc (concat (map record_bytes recs) @ [to_char kOpEof])) r'"
proof (induction recs arbitrary: crc r st j)
  case Nil
  then show ?case using read_record_eof [of s crc r] by (auto simp: load_loop.simps)
next
  case (Cons rec recs)
  then obtain r1 where r1: "read_record r = (Inr (Some rec), r1)"
    "reads_as (concat (map record_bytes recs) @ to_char kOpEof # s) (crc32_update crc (record_bytes rec)) r1"
    using read_record_reads [of rec "concat (map record_bytes recs) @ to_char kOpEof # s" crc r] by auto
  from Cons.IH [OF _ r1(2)] Cons.prems(1) r1(1) show ?case
    by (subst load_loop.simps) (auto simp flip: crc32_update_append)
qed

lemma load_from_snapshot:
  assumes "list_all record_ok recs" "reads_ok reads" "reads_data reads = snapshot_bytes recs"
  shows "load_from now clk (make_reader reads) st = (None, load_records now clk 0 recs st)"
proof -
  let ?recs = "concat (map record_bytes recs)"
  define crc where "crc = crc32_update 0 (snapshot_body recs)"
  have "reads_as (kMagic @ to_char kVersion # ?recs @ to_char kOpEof # put_fixed (ucast crc :: u64) 4) 0 (make_reader reads)"
    using reads_as_init [OF assms(2)] assms(3) by (simp add: snapshot_bytes_def snapshot_body_def crc_def)
  from r_get_reads [OF this] obtain r1 where r1: "r_get (length kMagic) (make_reader reads) = (Some kMagic, r1)"
    "reads_as (to_char kVersion # ?recs @ to_char kOpEof # put_fixed (ucast crc :: u64) 4) (crc32_update 0 kMagic) r1" by blast
  from r_get_byte_reads [OF r1(2)] obtain r2 where r2: "r_get_byte r1 = (Some kVersion, r2)"
    "reads_as (?recs @ to_char kOpEof # put_fixed (ucast crc :: u64) 4) (crc32_update 0 (kMagic @ [to_char kVersion])) r2"
    by (auto simp flip: crc32_update_append)
  from load_loop_reads [OF assms(1) r2(2), of now clk 0 st] obtain r3 where
    r3: "load_loop now clk 0 r2 st = (None, r3, load_records now clk 0 recs st)" "reads_as (put_fixed (ucast crc :: u64) 4) crc r3"
    by (auto simp: crc_def snapshot_body_def simp flip: crc32_update_append)
  have "reads_as (put_fixed (ucast crc :: u64) 4 @ []) crc r3" using r3(2) by simp
  from r_get_reads [OF this] obtain r4 where r4: "r_get 4 r3 = (Some (put_fixed (ucast crc :: u64) 4), r4)"
    "reads_as [] (crc32_update crc (put_fixed (ucast crc :: u64) 4)) r4" by auto
  have "get_fixed_value (put_fixed (ucast crc :: u64) 4) = (ucast crc :: u64)"
    by (rule bit_word_eqI) (auto simp: get_put_fixed bit_take_bit_iff bit_unsigned_iff dest: bit_imp_le_length)
  moreover have "r_at_eof r4" using r4(2) fill_reads(1) [OF r4(2)] by (auto simp: r_at_eof_def reads_as_def)
  moreover have "r_crc r3 = crc" using r3(2) by (simp add: reads_as_def)
  ultimately show ?thesis
    using r1(1) r2(1) r3(1) r4(1) by (simp add: load_from_def r_get_fixed_def Let_def)
qed

text \<open>If the kernel takes every write whole, writing succeeds.\<close>

lemma w_ok_put: "w_ok w \<Longrightarrow> w_ok (w_put (\<lambda>_. length) d w)"
  by (simp add: w_put_def w_flush_def Let_def)

lemma w_ok_entries: "w_ok w \<Longrightarrow> w_ok (fold (write_entry (\<lambda>_. length) now) es w)"
proof (induction es arbitrary: w)
  case (Cons e es)
  then show ?case
    by (cases e) (simp add: write_entry_def w_put_string_def w_put_byte_def w_put_varint_def
        w_put_fixed_def w_ok_put Let_def)
qed simp

lemma write_file_succeeds:
  "write_file True (\<lambda>_. length) True True now st = (True, snapshot_bytes (store_records now st))"
proof -
  have "fst (write_file True (\<lambda>_. length) True True now st)"
    by (simp add: write_file_def Let_def w_flush_def w_put_byte_def w_put_fixed_def w_ok_put w_ok_entries
        make_writer_def)
  then show ?thesis
    using write_file_bytes [of True "\<lambda>_. length" True True now st] by (metis prod.collapse)
qed

section \<open>The keyspace that is loaded\<close>

lemma kv_map_set: "kv_map (kv_set passive now k v False s) = (kv_map s)(k \<mapsto> (v, None))"
  by (auto simp: kv_set_def kv_put_def kv_reap_def kv_report_def kv_delete_def)

definition loads :: "int \<Rightarrow> snap_record \<Rightarrow> bool" where
  "loads now rec \<longleftrightarrow> (case snd (snd rec) of None \<Rightarrow> True | Some w \<Rightarrow> now < w)"

lemma load_record_ok:
  assumes inv: "store_inv st" and clk: "\<And>w. snd (snd rec) = Some w \<Longrightarrow> w \<le> now \<or> clk 2 < w"
  shows "store_inv (load_record now clk rec st)"
    "kv_map (st_kv (load_record now clk rec st)) =
      (if loads now rec then (kv_map (st_kv st))(fst rec \<mapsto> snd rec) else kv_map (st_kv st))"
proof -
  obtain k v x where rec: "rec = (k, v, x)" by (cases rec)
  let ?st1 = "store_set (clk 0) k v False st"
  note s1 = store_set_ok [OF inv, of "clk 0" k v False]
  have m1: "kv_map (st_kv ?st1) = (kv_map (st_kv st))(k \<mapsto> (v, None))"
    by (simp add: step_okD(2) [OF s1] kv_map_set)
  have live: "kv_live t k (st_kv ?st1)" for t by (simp add: kv_live_def kv_expired_def m1)
  note s2 = store_set_expire_ok(1) [OF step_okD(1) [OF s1], of "clk 1" "clk 2" k]
  have "store_inv (load_record now clk rec st) \<and> kv_map (st_kv (load_record now clk rec st)) =
      (if loads now rec then (kv_map (st_kv st))(fst rec \<mapsto> snd rec) else kv_map (st_kv st))"
  proof (cases x)
    case None
    then show ?thesis using step_okD(1) [OF s1] m1 by (simp add: load_record_def rec loads_def)
  next
    case (Some w)
    then have "w \<le> now \<or> clk 2 < w" using clk by (simp add: rec)
    then show ?thesis
      using Some inv step_okD(1) [OF s2, of w] step_okD(2) [OF s2, of w] live m1
      by (auto simp: load_record_def rec loads_def kv_set_expire_def kv_put_def)
  qed
  then show "store_inv (load_record now clk rec st)"
    "kv_map (st_kv (load_record now clk rec st)) =
      (if loads now rec then (kv_map (st_kv st))(fst rec \<mapsto> snd rec) else kv_map (st_kv st))" by blast+
qed

lemma load_records_ok:
  "store_inv st \<Longrightarrow> distinct (map fst recs) \<Longrightarrow>
     \<forall>rec\<in>set recs. \<forall>w j. snd (snd rec) = Some w \<longrightarrow> w \<le> now \<or> clk j 2 < w \<Longrightarrow>
     store_inv (load_records now clk j recs st) \<and>
     kv_map (st_kv (load_records now clk j recs st)) = kv_map (st_kv st) ++ map_of (filter (loads now) recs)"
proof (induction recs arbitrary: j st)
  case (Cons rec recs)
  let ?st1 = "load_record now (clk j) rec st"
  have clk: "\<And>w. snd (snd rec) = Some w \<Longrightarrow> w \<le> now \<or> clk j 2 < w"
    using Cons.prems(3) by auto
  note 1 = load_record_ok [of st rec now "clk j", OF Cons.prems(1) clk]
  have "fst rec \<notin> dom (map_of (filter (loads now) recs))"
    using Cons.prems(2) by (auto simp: dom_map_of_conv_image_fst)
  then have "(kv_map (st_kv st))(fst rec \<mapsto> snd rec) ++ map_of (filter (loads now) recs) =
      kv_map (st_kv st) ++ (map_of (filter (loads now) recs))(fst rec \<mapsto> snd rec)"
    by (auto simp: map_add_def fun_eq_iff domIff split: option.splits)
  with Cons.IH [OF 1(1), of "Suc j"] Cons.prems 1(2) show ?case
    by (cases "loads now rec") (simp_all del: map_add_upd fun_upd_apply)
qed simp

text \<open>What is left of a keyspace that is saved at one time and loaded at another.\<close>

definition unexpired :: "int \<Rightarrow> int \<Rightarrow> (bytes \<rightharpoonup> bytes \<times> int option) \<Rightarrow> (bytes \<rightharpoonup> bytes \<times> int option)" where
  "unexpired saved loaded m =
     (\<lambda>k. case m k of
        Some (v, Some w) \<Rightarrow> if w \<le> saved \<or> w \<le> loaded then None else Some (v, Some w)
      | x \<Rightarrow> x)"

text \<open>Sizes fit 64 bits and expiry times are not negative: what a process can hold.\<close>

definition storable :: "kv \<Rightarrow> bool" where
  "storable s \<longleftrightarrow> (\<forall>k v t. kv_map s k = Some (v, t) \<longrightarrow> record_ok (k, v, t))"

lemma store_records_iff:
  assumes inv: "store_inv st" and ok: "storable (st_kv st)"
  shows "distinct (map fst (store_records now st))"
    "(k, v, x) \<in> set (store_records now st) \<longleftrightarrow>
      kv_map (st_kv st) k = Some (v, x) \<and> (\<forall>w. x = Some w \<longrightarrow> now < w)"
proof -
  have "map fst (store_records now st) = map fst (filter (live_entry now) (store_for_each st))"
    by (simp add: store_records_def entry_record_def comp_def)
  then show "distinct (map fst (store_records now st))"
    using store_for_each_iff(1) [OF inv] by (simp add: distinct_map_filter)
  have nonneg: "0 \<le> w" if "kv_map (st_kv st) k = Some (v, Some w)" for w
    using ok that by (auto simp: storable_def record_ok_def)
  have "(k, v, x) \<in> set (store_records now st) \<longleftrightarrow>
      (\<exists>w. (k, v, w) \<in> set (store_for_each st) \<and> live_entry now (k, v, w) \<and> x = (if 0 \<le> w then Some w else None))"
    by (auto simp: store_records_def entry_record_def image_iff)
  also have "\<dots> \<longleftrightarrow> kv_map (st_kv st) k = Some (v, x) \<and> (\<forall>w. x = Some w \<longrightarrow> now < w)"
    unfolding store_for_each_iff(2) [OF inv] using nonneg
    by (cases x) (force simp: live_entry_def split: option.splits if_splits)+
  finally show "(k, v, x) \<in> set (store_records now st) \<longleftrightarrow>
      kv_map (st_kv st) k = Some (v, x) \<and> (\<forall>w. x = Some w \<longrightarrow> now < w)" .
qed

lemma map_of_store_records:
  assumes inv: "store_inv st" and ok: "storable (st_kv st)"
  shows "map_of (filter (loads now') (store_records now st)) = unexpired now now' (kv_map (st_kv st))"
proof (rule ext)
  fix k
  let ?l = "filter (loads now') (store_records now st)"
  have d: "distinct (map fst ?l)"
    using store_records_iff(1) [OF assms] by (rule distinct_map_filter)
  have "map_of ?l k = Some p \<longleftrightarrow> unexpired now now' (kv_map (st_kv st)) k = Some p" for p
    using map_of_eq_Some_iff [OF d, of k p] store_records_iff(2) [OF assms, of k "fst p" "snd p" now]
    by (cases p) (auto simp: unexpired_def loads_def split: option.splits if_splits)
  then show "map_of ?l k = unexpired now now' (kv_map (st_kv st)) k"
    by (metis not_Some_eq)
qed

lemma load_record_settings:
  assumes "store_inv st" shows "settings (load_record now clk rec st) = settings st"
proof -
  obtain k v x where rec: "rec = (k, v, x)" by (cases rec)
  note s1 = store_set_ok [OF assms, of "clk 0" k v False]
  note s2 = store_set_expire_ok(1) [OF step_okD(1) [OF s1], of "clk 1" "clk 2" k]
  show ?thesis
    using s1 s2 by (auto simp: load_record_def rec step_ok_def split: option.splits)
qed

lemma load_records_settings:
  "store_inv st \<Longrightarrow> \<forall>rec\<in>set recs. \<forall>w j. snd (snd rec) = Some w \<longrightarrow> w \<le> now \<or> clk j 2 < w \<Longrightarrow>
     settings (load_records now clk j recs st) = settings st"
proof (induction recs arbitrary: j st)
  case (Cons rec recs)
  have "\<And>w. snd (snd rec) = Some w \<Longrightarrow> w \<le> now \<or> clk j 2 < w" using Cons.prems(2) by auto
  from load_record_ok(1) [of st rec now "clk j", OF Cons.prems(1) this]
  show ?case using Cons load_record_settings [OF Cons.prems(1), of now "clk j" rec] by simp
qed simp

text \<open>Loading the bytes of a saved store into an empty one.\<close>

lemma snapshot_load_saved:
  assumes inv: "store_inv st" "store_inv st2" and ok: "storable (st_kv st)" and empty: "kv_map (st_kv st2) = Map.empty"
    and reads: "reads_ok reads" "reads_data reads = snapshot_bytes (store_records saved st)"
    and clk: "\<And>k v w j. kv_map (st_kv st) k = Some (v, Some w) \<Longrightarrow> w \<le> loaded \<or> clk j 2 < w"
  shows "\<exists>st'. snapshot_load (Opened reads) loaded clk st2 = (LoadOk, None, st') \<and> store_inv st' \<and>
    settings st' = settings st2 \<and> kv_map (st_kv st') = unexpired saved loaded (kv_map (st_kv st))"
proof -
  let ?recs = "store_records saved st"
  note mem = store_records_iff(2) [OF inv(1) ok]
  have "list_all record_ok ?recs" using ok mem by (fastforce simp: list_all_iff storable_def)
  from load_from_snapshot [OF this reads]
  have "load_from loaded clk (make_reader reads) st2 = (None, load_records loaded clk 0 ?recs st2)" .
  moreover have c: "\<forall>rec\<in>set ?recs. \<forall>w j. snd (snd rec) = Some w \<longrightarrow> w \<le> loaded \<or> clk j 2 < w"
    using mem clk by fastforce
  with load_records_ok [OF inv(2) store_records_iff(1) [OF inv(1) ok], of saved loaded clk 0]
  have "store_inv (load_records loaded clk 0 ?recs st2) \<and>
      kv_map (st_kv (load_records loaded clk 0 ?recs st2)) = unexpired saved loaded (kv_map (st_kv st))"
    by (simp add: empty map_of_store_records [OF inv(1) ok])
  ultimately show ?thesis using load_records_settings [of st2 ?recs loaded clk 0, OF inv(2) c] by (simp add: snapshot_load_def)
qed

section \<open>Properties\<close>

text \<open>
  C8: a snapshot is a faithful copy. If writing the file of any reachable store reports success,
  whatever the kernel did with the individual writes, then reading it back, in whatever chunks and
  with whatever interruptions, into any empty store succeeds, and gives exactly the keys, values
  and expiry times of the saved store except the keys that had expired by the time of saving or of
  loading. The checksum, the framing and the walk of the hash table are all part of this.
\<close>

theorem snapshot_roundtrip:
  assumes "reachable m p st" "storable (st_kv st)"
    and "write_file open_ok wr fsync_ok close_ok saved st = (True, file)"
    and "reads_ok reads" "reads_data reads = file"
    and "reachable m' p' st2" "kv_map (st_kv st2) = Map.empty"
    and "\<And>k v w j. kv_map (st_kv st) k = Some (v, Some w) \<Longrightarrow> w \<le> loaded \<or> clk j 2 < w"
  shows "\<exists>st'. snapshot_load (Opened reads) loaded clk st2 = (LoadOk, None, st') \<and>
    kv_map (st_kv st') = unexpired saved loaded (kv_map (st_kv st))"
proof -
  have inv: "store_inv st" "store_inv st2" using assms(1,6) reachable_inv by blast+
  have "reads_data reads = snapshot_bytes (store_records saved st)"
    using write_file_bytes [OF assms(3)] assms(5) by simp
  from snapshot_load_saved [of st st2 reads saved loaded clk, OF inv assms(2,7,4) this] assms(8)
  show ?thesis by metis
qed

theorem snapshot_roundtrip_witness:
  "\<exists>st file st'. reachable 0 kNoEviction st \<and> write_file True (\<lambda>_. length) True True 7 st = (True, file) \<and>
     snapshot_load (Opened [RInterrupted, RData file]) 9 (\<lambda>_ _. 9) (make_store 0 kNoEviction) = (LoadOk, None, st') \<and>
     kv_map (st_kv st') = [''k'' \<mapsto> (''v'', None)]"
proof -
  let ?init = "make_store 0 kNoEviction"
  let ?st = "store_set 5 ''k'' ''v'' False ?init"
  let ?file = "snapshot_bytes (store_records 7 ?st)"
  have r: "reachable 0 kNoEviction ?st"
    by (rule reachable.step [OF reachable.init, of "SSet 5 ''k'' ''v'' False"]) (simp_all add: op_ok_def)
  have m: "kv_map (st_kv ?st) = [''k'' \<mapsto> (''v'', None)]"
    using step_okD(2) [OF store_set_ok [OF make_store_ok(1) [of 0 kNoEviction], of 5 "''k''" "''v''" False]]
    by (simp add: kv_map_set make_store_ok(2))
  have "storable (st_kv ?st)" by (auto simp: storable_def m record_ok_def split: if_splits)
  moreover have "?file \<noteq> []" by (simp add: snapshot_bytes_def snapshot_body_def)
  ultimately show ?thesis
    using snapshot_roundtrip [OF r _ write_file_succeeds [of 7] _ _ reachable.init [of 0 kNoEviction],
        where reads = "[RInterrupted, RData ?file]" and loaded = 9 and clk = "\<lambda>_ _. 9"]
      r write_file_succeeds [of 7 ?st]
    by (force simp: m make_store_ok(2) unexpired_def fun_eq_iff)
qed

text \<open>
  C15: saving is all or nothing. Whatever the kernel answers, the path afterwards holds either what
  it held before, and the save is reported as failed, or the complete encoding of the live keys;
  success is reported only for the latter.
\<close>

theorem save_all_or_nothing:
  "case save open_ok wr fsync_ok close_ok renamed dir_outcome now st old of
     (ok, path) \<Rightarrow> \<not> ok \<and> path = old \<or> path = Some (snapshot_bytes (store_records now st))"
  using write_file_bytes [of open_ok wr fsync_ok close_ok now st]
  by (auto simp: save_def durable_rename_def split: prod.splits bool.splits)

end
