(* ===== verification/Repl_Backlog.thy ===== *)
theory Repl_Backlog
  imports Prelude
begin

text \<open>
  The replication backlog (\<^verbatim>\<open>repl_backlog.hpp\<close>, \<^verbatim>\<open>repl_backlog.cpp\<close>): a circular buffer
  of the latest bytes of the replication stream. It is shown to hold exactly the last
  \<^verbatim>\<open>capacity\<close> bytes of what was appended since the last reset, addressed by their offsets in
  the stream. The loops of the code end only because the write position stays inside the buffer,
  so they are partial functions here, and that they return is part of what is proved.
\<close>

section \<open>The buffer\<close>

record repl_backlog =
  bl_buf :: bytes
  bl_write_pos :: nat
  bl_histlen :: nat
  bl_offset :: u64

definition make_backlog :: "nat \<Rightarrow> repl_backlog" where
  "make_backlog cap =
     \<lparr>bl_buf = replicate (max cap 1) (CHR 0x00), bl_write_pos = 0, bl_histlen = 0, bl_offset = 0\<rparr>"

definition bl_capacity :: "repl_backlog \<Rightarrow> nat" where
  "bl_capacity b = length (bl_buf b)"

definition bl_start_offset :: "repl_backlog \<Rightarrow> u64" where
  "bl_start_offset b = bl_offset b - of_nat (bl_histlen b)"

text \<open>One pass of the loop of \<open>append\<close>: the part of the data that fits before the buffer's end.\<close>

definition bl_write :: "nat \<Rightarrow> bytes \<Rightarrow> repl_backlog \<Rightarrow> repl_backlog" where
  "bl_write n data b =
     b\<lparr>bl_buf := take (bl_write_pos b) (bl_buf b) @ take n data @ drop (bl_write_pos b + n) (bl_buf b),
       bl_write_pos := (bl_write_pos b + n) mod bl_capacity b,
       bl_histlen := min (bl_histlen b + n) (bl_capacity b)\<rparr>"

partial_function (option) append_loop :: "bytes \<Rightarrow> repl_backlog \<Rightarrow> repl_backlog option" where
  "append_loop data b =
     (if data = [] then Some b
      else let n = min (length data) (bl_capacity b - bl_write_pos b)
           in append_loop (drop n data) (bl_write n data b))"

definition bl_append :: "bytes \<Rightarrow> repl_backlog \<Rightarrow> repl_backlog option" where
  "bl_append data b =
     (let b = b\<lparr>bl_offset := bl_offset b + of_nat (length data)\<rparr>;
          data = (if length data > bl_capacity b then drop (length data - bl_capacity b) data else data)
      in append_loop data b)"

definition bl_reset :: "u64 \<Rightarrow> repl_backlog \<Rightarrow> repl_backlog" where
  "bl_reset ofs b = b\<lparr>bl_write_pos := 0, bl_histlen := 0, bl_offset := ofs\<rparr>"

definition bl_contains :: "u64 \<Rightarrow> repl_backlog \<Rightarrow> bool" where
  "bl_contains start b \<longleftrightarrow> start \<ge> bl_start_offset b \<and> start \<le> bl_offset b"

partial_function (option) copy_loop :: "bytes \<Rightarrow> nat \<Rightarrow> nat \<Rightarrow> bytes \<Rightarrow> bytes option" where
  "copy_loop buf len pos out =
     (if len > 0 then
        let n = min len (length buf - pos)
        in copy_loop buf (len - n) ((pos + n) mod length buf) (out @ take n (drop pos buf))
      else Some out)"

definition bl_copy_from :: "u64 \<Rightarrow> repl_backlog \<Rightarrow> bytes \<Rightarrow> bytes option" where
  "bl_copy_from start b out =
     (let len = unat (bl_offset b - start);
          pos = (bl_write_pos b + bl_capacity b - len) mod bl_capacity b
      in copy_loop (bl_buf b) len pos out)"

section \<open>What the buffer holds\<close>

text \<open>
  \<open>bl_holds base h b\<close>: the buffer has seen the bytes \<open>h\<close> since it was reset at offset \<open>base\<close>; the
  byte of age \<open>j\<close> (0 is the newest) sits \<open>j + 1\<close> places before the write position.
\<close>

definition age_pos :: "repl_backlog \<Rightarrow> nat \<Rightarrow> nat" where
  "age_pos b j = (bl_write_pos b + bl_capacity b - 1 - j) mod bl_capacity b"

definition bl_ring :: "bytes \<Rightarrow> repl_backlog \<Rightarrow> bool" where
  "bl_ring h b \<longleftrightarrow> bl_write_pos b < bl_capacity b \<and> bl_histlen b = min (length h) (bl_capacity b) \<and>
     (\<forall>j < bl_histlen b. bl_buf b ! age_pos b j = rev h ! j)"

definition bl_holds :: "nat \<Rightarrow> bytes \<Rightarrow> repl_backlog \<Rightarrow> bool" where
  "bl_holds base h b \<longleftrightarrow> bl_ring h b \<and> bl_offset b = of_nat (base + length h)"

lemma bl_write_simps [simp]:
  assumes "bl_write_pos b + n \<le> bl_capacity b" "n \<le> length data"
  shows "bl_capacity (bl_write n data b) = bl_capacity b"
    "bl_offset (bl_write n data b) = bl_offset b"
  using assms by (simp_all add: bl_write_def bl_capacity_def)

lemma bl_write_nth:
  assumes "bl_write_pos b + n \<le> bl_capacity b" "n \<le> length data" "k < bl_capacity b"
  shows "bl_buf (bl_write n data b) ! k =
    (if bl_write_pos b \<le> k \<and> k < bl_write_pos b + n then data ! (k - bl_write_pos b) else bl_buf b ! k)"
  using assms by (auto simp: bl_write_def bl_capacity_def nth_append min_def)

lemma bl_write_age_pos:
  assumes "bl_write_pos b + n \<le> bl_capacity b" "n \<le> length data" "j < bl_capacity b"
  shows "age_pos (bl_write n data b) j =
    (if j < n then bl_write_pos b + n - 1 - j else age_pos b (j - n))"
proof -
  let ?c = "bl_capacity b" and ?w = "bl_write_pos b"
  have c: "0 < ?c" using assms(3) by simp
  have wp: "bl_write_pos (bl_write n data b) = (?w + n) mod ?c" by (simp add: bl_write_def)
  have "((?w + n) mod ?c + ?c - 1 - j) mod ?c = (?w + n + ?c - 1 - j) mod ?c"
  proof (cases "?w + n = ?c")
    case True
    have e: "?c + ?c - 1 - j = (?c - 1 - j) + ?c" using assms(3) by linarith
    show ?thesis unfolding True e by (simp only: mod_self mod_add_self2 add_0)
  next
    case False
    then have "?w + n < ?c" using assms(1) by linarith
    then show ?thesis by (simp only: mod_less)
  qed
  then have *: "age_pos (bl_write n data b) j = (?w + n + ?c - 1 - j) mod ?c"
    unfolding age_pos_def wp bl_write_simps(1) [OF assms(1,2)] .
  show ?thesis
  proof (cases "j < n")
    case True
    then have e: "?w + n + ?c - 1 - j = (?w + n - 1 - j) + ?c" and l: "?w + n - 1 - j < ?c"
      using assms(1) by linarith+
    show ?thesis unfolding * e using l True by (simp only: mod_add_self2 mod_less if_True)
  next
    case False
    then have "?w + n + ?c - 1 - j = ?w + ?c - 1 - (j - n)" using assms(3) by linarith
    then show ?thesis using False unfolding * by (simp only: age_pos_def if_False)
  qed
qed

text \<open>A byte that is still in the history is not where the new bytes go.\<close>

lemma age_pos_untouched:
  assumes "bl_write_pos b + n \<le> bl_capacity b" "n + j < bl_capacity b" "bl_write_pos b < bl_capacity b"
  shows "\<not> (bl_write_pos b \<le> age_pos b j \<and> age_pos b j < bl_write_pos b + n)"
proof (cases "j < bl_write_pos b")
  case True
  then have e: "bl_write_pos b + bl_capacity b - 1 - j = (bl_write_pos b - 1 - j) + bl_capacity b"
    by linarith
  have "age_pos b j = bl_write_pos b - 1 - j"
    unfolding age_pos_def e mod_add_self2 using assms(3) by (intro mod_less) linarith
  then show ?thesis using True by linarith
next
  case False
  then have "age_pos b j = bl_write_pos b + bl_capacity b - 1 - j"
    unfolding age_pos_def using assms(3) by (intro mod_less) linarith
  then show ?thesis using assms(2) by linarith
qed

lemma bl_ring_write:
  assumes "bl_ring h b" "bl_write_pos b + n \<le> bl_capacity b" "n \<le> length data"
  shows "bl_ring (h @ take n data) (bl_write n data b)"
proof -
  let ?b' = "bl_write n data b"
  have w: "bl_write_pos b < bl_capacity b" and hl: "bl_histlen b = min (length h) (bl_capacity b)"
    and old: "\<And>j. j < bl_histlen b \<Longrightarrow> bl_buf b ! age_pos b j = rev h ! j"
    using assms(1) by (auto simp: bl_ring_def)
  have hl': "bl_histlen ?b' = min (length (h @ take n data)) (bl_capacity b)"
    using assms(3) by (simp add: bl_write_def hl)
  have "bl_buf ?b' ! age_pos ?b' j = rev (h @ take n data) ! j" if j: "j < bl_histlen ?b'" for j
  proof -
    have jc: "j < bl_capacity b" using j hl' by simp
    note eqs = bl_write_age_pos [OF assms(2,3) jc] bl_write_nth [OF assms(2,3)]
    show ?thesis
    proof (cases "j < n")
      case True
      let ?k = "bl_write_pos b + n - 1 - j"
      have k: "?k < bl_capacity b" "bl_write_pos b \<le> ?k" "?k < bl_write_pos b + n"
        "?k - bl_write_pos b = n - 1 - j"
        using True assms(2) by auto
      have "bl_buf ?b' ! age_pos ?b' j = data ! (n - 1 - j)"
        unfolding eqs(1) using True k by (simp only: if_True eqs(2) simp_thms)
      then show ?thesis
        using True assms(3) by (simp add: nth_append rev_nth)
    next
      case False
      have jh: "j - n < bl_histlen b" using False j hl' hl assms(3) by auto
      have "age_pos b (j - n) < bl_capacity b" using w by (simp add: age_pos_def)
      moreover have "\<not> (bl_write_pos b \<le> age_pos b (j - n) \<and> age_pos b (j - n) < bl_write_pos b + n)"
        by (rule age_pos_untouched [OF assms(2) _ w]) (use False jc in simp)
      ultimately have "bl_buf ?b' ! age_pos ?b' j = rev h ! (j - n)"
        unfolding eqs(1) using False old [OF jh] by (simp only: if_False eqs(2))
      then show ?thesis using False assms(3) by (simp add: nth_append)
    qed
  qed
  moreover have "bl_write_pos ?b' < bl_capacity b" using w by (simp add: bl_write_def)
  ultimately show ?thesis
    unfolding bl_ring_def bl_write_simps(1) [OF assms(2,3)] using hl' by blast
qed

section \<open>The loops\<close>

lemma append_loop_ring:
  "bl_ring h b \<Longrightarrow>
     \<exists>b'. append_loop data b = Some b' \<and> bl_ring (h @ data) b' \<and>
       bl_capacity b' = bl_capacity b \<and> bl_offset b' = bl_offset b"
proof (induction "length data" arbitrary: data h b rule: less_induct)
  case less
  show ?case
  proof (cases "data = []")
    case True
    then show ?thesis using less.prems by (simp add: append_loop.simps)
  next
    case False
    define n where "n = min (length data) (bl_capacity b - bl_write_pos b)"
    have w: "bl_write_pos b < bl_capacity b" using less.prems by (simp add: bl_ring_def)
    have n: "bl_write_pos b + n \<le> bl_capacity b" "n \<le> length data" "0 < n"
      using w False by (auto simp: n_def)
    have "length (drop n data) < length data" using n(3) False by simp
    from less.hyps [OF this bl_ring_write [OF less.prems n(1,2)]]
    have "\<exists>b'. append_loop (drop n data) (bl_write n data b) = Some b' \<and> bl_ring (h @ data) b' \<and>
        bl_capacity b' = bl_capacity b \<and> bl_offset b' = bl_offset b"
      by (simp only: append_assoc append_take_drop_id bl_write_simps [OF n(1,2)])
    moreover have "append_loop data b = append_loop (drop n data) (bl_write n data b)"
      using False by (subst append_loop.simps) (simp only: n_def Let_def if_False)
    ultimately show ?thesis by (simp only:)
  qed
qed

text \<open>A ring of a longer history is a ring of its last bytes, and the other way round once full.\<close>

lemma bl_ring_suffix:
  assumes "bl_ring (h @ data) b" "bl_capacity b \<le> length data"
  shows "bl_ring (h' @ data) b"
  using assms by (auto simp: bl_ring_def nth_append)

lemma bl_append_holds:
  assumes "bl_holds base h b"
  shows "\<exists>b'. bl_append data b = Some b' \<and> bl_holds base (h @ data) b' \<and> bl_capacity b' = bl_capacity b"
proof -
  let ?b = "b\<lparr>bl_offset := bl_offset b + of_nat (length data)\<rparr>"
  let ?d = "if length data > bl_capacity ?b then drop (length data - bl_capacity ?b) data else data"
  have cap: "bl_capacity ?b = bl_capacity b" by (simp add: bl_capacity_def)
  have "bl_ring h ?b" using assms by (simp add: bl_holds_def bl_ring_def age_pos_def bl_capacity_def)
  from append_loop_ring [OF this, of ?d] obtain b' where
    b': "append_loop ?d ?b = Some b'" "bl_ring (h @ ?d) b'" "bl_capacity b' = bl_capacity b"
    "bl_offset b' = bl_offset ?b" by (auto simp: cap)
  have ap: "bl_append data b = Some b'" using b'(1) by (simp add: bl_append_def Let_def)
  have "bl_ring (h @ data) b'"
  proof (cases "length data > bl_capacity b")
    case True
    then show ?thesis
      using b'(2,3) bl_ring_suffix [of h ?d b' "h @ take (length data - bl_capacity b) data"]
      by (simp add: cap)
  qed (use b'(2) cap in simp)
  then show ?thesis
    using ap b' assms by (simp add: bl_holds_def add.assoc)
qed

lemma copy_loop_reads:
  "pos < length buf \<Longrightarrow>
     copy_loop buf len pos out = Some (out @ map (\<lambda>i. buf ! ((pos + i) mod length buf)) [0..<len])"
proof (induction len arbitrary: pos out rule: less_induct)
  case (less len)
  show ?case
  proof (cases "len = 0")
    case False
    define n where "n = min len (length buf - pos)"
    have n: "0 < n" "n \<le> len" "pos + n \<le> length buf" using False less.prems by (auto simp: n_def)
    let ?f = "\<lambda>i. buf ! ((pos + i) mod length buf)"
    have 1: "take n (drop pos buf) = map ?f [0..<n]"
      using n by (auto intro!: nth_equalityI)
    have 2: "map (\<lambda>i. buf ! (((pos + n) mod length buf + i) mod length buf)) [0..<len - n] = map ?f [n..<len]"
      using n(2) by (auto intro!: nth_equalityI simp: mod_add_left_eq add.assoc)
    have 3: "map ?f [0..<len] = map ?f [0..<n] @ map ?f [n..<len]"
      using n(2) upt_add_eq_append [of 0 n "len - n"] by (simp flip: map_append)
    have "(pos + n) mod length buf < length buf"
      by (rule mod_less_divisor) (use less.prems in linarith)
    from less.IH [OF _ this, of "len - n" "out @ take n (drop pos buf)"] n False
    show ?thesis
      by (subst copy_loop.simps) (simp add: n_def [symmetric] Let_def 1 2 3)
  qed (simp add: copy_loop.simps)
qed

lemma bl_copy_holds:
  assumes "bl_ring h b" "len \<le> bl_histlen b"
  shows "copy_loop (bl_buf b) len ((bl_write_pos b + bl_capacity b - len) mod bl_capacity b) out =
    Some (out @ drop (length h - len) h)"
proof -
  let ?c = "bl_capacity b"
  have w: "bl_write_pos b < ?c" and hl: "len \<le> length h" "len \<le> ?c"
    and old: "\<And>j. j < bl_histlen b \<Longrightarrow> bl_buf b ! age_pos b j = rev h ! j"
    using assms by (auto simp: bl_ring_def)
  have c: "length (bl_buf b) = ?c" by (simp add: bl_capacity_def)
  have "map (\<lambda>i. bl_buf b ! (((bl_write_pos b + ?c - len) mod ?c + i) mod ?c)) [0..<len] =
      drop (length h - len) h"
  proof (rule nth_equalityI)
    fix i assume "i < length (map (\<lambda>i. bl_buf b ! (((bl_write_pos b + ?c - len) mod ?c + i) mod ?c)) [0..<len])"
    then have i: "i < len" by simp
    have "(bl_write_pos b + ?c - len) + i = bl_write_pos b + ?c - 1 - (len - 1 - i)" using i hl by simp
    then have "((bl_write_pos b + ?c - len) mod ?c + i) mod ?c = age_pos b (len - 1 - i)"
      by (simp add: age_pos_def mod_add_left_eq)
    moreover have "bl_buf b ! age_pos b (len - 1 - i) = rev h ! (len - 1 - i)"
      by (rule old) (use i assms(2) in simp)
    ultimately show "map (\<lambda>i. bl_buf b ! (((bl_write_pos b + ?c - len) mod ?c + i) mod ?c)) [0..<len] ! i =
        drop (length h - len) h ! i"
      using i hl by (simp add: rev_nth)
  qed (use hl in simp)
  moreover have "(bl_write_pos b + ?c - len) mod ?c < length (bl_buf b)" using w by (simp add: c)
  ultimately show ?thesis by (simp add: copy_loop_reads c)
qed

section \<open>Properties\<close>

fun bl_append_all :: "bytes list \<Rightarrow> repl_backlog \<Rightarrow> repl_backlog option" where
  "bl_append_all [] b = Some b"
| "bl_append_all (d # ds) b = Option.bind (bl_append d b) (bl_append_all ds)"

lemma bl_append_all_holds:
  "bl_holds base h b \<Longrightarrow>
     \<exists>b'. bl_append_all ds b = Some b' \<and> bl_holds base (h @ concat ds) b' \<and> bl_capacity b' = bl_capacity b"
proof (induction ds arbitrary: h b)
  case (Cons d ds)
  from bl_append_holds [OF Cons.prems, of d] obtain b1 where
    1: "bl_append d b = Some b1" "bl_holds base (h @ d) b1" "bl_capacity b1 = bl_capacity b" by blast
  from Cons.IH [OF 1(2)] 1 show ?case by simp
qed simp

lemma bl_reset_holds: "0 < bl_capacity b \<Longrightarrow> bl_holds (unat ofs) [] (bl_reset ofs b)"
  by (simp add: bl_holds_def bl_ring_def bl_reset_def bl_capacity_def)

text \<open>The offsets that can be served, and what is served, for a stream that has not used up \<open>2\<^sup>6\<^sup>4\<close> bytes.\<close>

lemma bl_holds_offsets:
  assumes "bl_holds base h b" "base + length h < 2 ^ 64"
  shows "unat (bl_offset b) = base + length h"
    "unat (bl_start_offset b) = base + (length h - bl_capacity b)"
proof -
  have hl: "bl_histlen b = min (length h) (bl_capacity b)" and
    ofs: "bl_offset b = of_nat (base + length h)"
    using assms(1) by (auto simp: bl_holds_def bl_ring_def)
  show "unat (bl_offset b) = base + length h"
    unfolding ofs using assms(2) by (rule unat_of_nat_u64)
  have eq: "bl_start_offset b = of_nat (base + length h - bl_histlen b)"
    unfolding bl_start_offset_def ofs using hl by (simp add: of_nat_diff del: of_nat_add)
  have "unat (bl_start_offset b) = base + length h - bl_histlen b"
    unfolding eq by (rule unat_of_nat_u64) (use assms(2) in linarith)
  then show "unat (bl_start_offset b) = base + (length h - bl_capacity b)"
    using hl by linarith
qed

lemma bl_contains_holds:
  assumes "bl_holds base h b" "base + length h < 2 ^ 64"
  shows "bl_contains at b \<longleftrightarrow>
    base + (length h - bl_capacity b) \<le> unat at \<and> unat at \<le> base + length h"
  unfolding bl_contains_def word_le_nat_alt bl_holds_offsets [OF assms] ..

lemma bl_copy_from_holds:
  assumes "bl_holds base h b" "base + length h < 2 ^ 64" "bl_contains at b"
  shows "bl_copy_from at b out = Some (out @ drop (unat at - base) h)"
proof -
  have ring: "bl_ring h b" and hl: "bl_histlen b = min (length h) (bl_capacity b)"
    using assms(1) by (auto simp: bl_holds_def bl_ring_def)
  have f: "base + (length h - bl_capacity b) \<le> unat at" "unat at \<le> base + length h"
    using bl_contains_holds [OF assms(1,2)] assms(3) by auto
  have len: "unat (bl_offset b - at) = base + length h - unat at"
    using f(2) bl_holds_offsets [OF assms(1,2)] by (simp add: unat_sub word_le_nat_alt)
  have drop: "length h - (base + length h - unat at) = unat at - base" using f by simp
  have "base + length h - unat at \<le> bl_histlen b" using f hl by linarith
  from bl_copy_holds [OF ring this, of out] show ?thesis
    unfolding bl_copy_from_def Let_def len drop .
qed

text \<open>
  C10: a backlog that is reset at an offset and then fed any pieces of the stream (each loop of the
  code returns) holds exactly the last \<open>capacity\<close> bytes fed: an offset can be served if and only if
  it lies in that window, and what is copied out for it is the stream from that offset to its end,
  wherever the buffer has wrapped.
\<close>

theorem backlog_serves_stream_suffix:
  assumes "unat base + length (concat pieces) < 2 ^ 64"
  shows "\<exists>b. bl_append_all pieces (bl_reset base (make_backlog cap)) = Some b \<and>
    unat (bl_offset b) = unat base + length (concat pieces) \<and>
    (\<forall>at. (bl_contains at b \<longleftrightarrow>
        unat base + (length (concat pieces) - max cap 1) \<le> unat at \<and>
        unat at \<le> unat base + length (concat pieces)) \<and>
      (bl_contains at b \<longrightarrow>
        bl_copy_from at b out = Some (out @ drop (unat at - unat base) (concat pieces))))"
proof -
  have "0 < bl_capacity (make_backlog cap)" by (simp add: make_backlog_def bl_capacity_def)
  from bl_append_all_holds [OF bl_reset_holds [OF this, of base], of pieces]
  obtain b where b: "bl_append_all pieces (bl_reset base (make_backlog cap)) = Some b"
    and h: "bl_holds (unat base) (concat pieces) b" and cap: "bl_capacity b = max cap 1"
    by (auto simp: bl_reset_def make_backlog_def bl_capacity_def)
  show ?thesis
    using b bl_holds_offsets(1) [OF h assms] bl_contains_holds [OF h assms, unfolded cap]
      bl_copy_from_holds [OF h assms] by blast
qed

theorem backlog_serves_stream_suffix_witness:
  "\<exists>b. bl_append_all [''abc'', ''de''] (bl_reset 7 (make_backlog 4)) = Some b \<and>
     bl_contains 9 b \<and> \<not> bl_contains 7 b \<and> bl_copy_from 9 b [] = Some ''cde''"
proof -
  have "unat (7 :: u64) + length (concat [''abc'', ''de'']) < 2 ^ 64" by simp
  from backlog_serves_stream_suffix [OF this, of 4 "[]"]
  obtain b where b: "bl_append_all [''abc'', ''de''] (bl_reset 7 (make_backlog 4)) = Some b"
    and at: "\<And>at. bl_contains at b \<longleftrightarrow>
        unat (7 :: u64) + (length (concat [''abc'', ''de'']) - max 4 1) \<le> unat at \<and>
        unat at \<le> unat (7 :: u64) + length (concat [''abc'', ''de''])"
      "\<And>at. bl_contains at b \<Longrightarrow>
        bl_copy_from at b [] = Some ([] @ drop (unat at - unat (7 :: u64)) (concat [''abc'', ''de'']))"
    by blast
  have "bl_contains 9 b" "\<not> bl_contains 7 b" using at(1) [of 9] at(1) [of 7] by simp_all
  then show ?thesis using b at(2) [of 9] by simp
qed

end
