(* ===== verification/Resp.thy ===== *)
theory Resp
  imports Std_Lib
begin

text \<open>
  The RESP2 wire format: the reply encoders of \<^verbatim>\<open>reply.cpp\<close> and the incremental command
  parser of \<^verbatim>\<open>resp_parser.cpp\<close>. The parser's state is its buffer; a call returns the status,
  the command, the command's exact bytes (\<^verbatim>\<open>raw\<close>) and the buffer afterwards.
\<close>

section \<open>Encoders\<close>

text \<open>Every encoder appends to the output buffer.\<close>

definition reply_simple_string :: "bytes \<Rightarrow> bytes \<Rightarrow> bytes" where
  "reply_simple_string out s = out @ ''+'' @ s @ crlf"

definition reply_error :: "bytes \<Rightarrow> bytes \<Rightarrow> bytes" where
  "reply_error out msg = out @ ''-'' @ msg @ crlf"

definition reply_integer :: "bytes \<Rightarrow> int \<Rightarrow> bytes" where
  "reply_integer out n = out @ '':'' @ to_string_int n @ crlf"

definition reply_bulk_string :: "bytes \<Rightarrow> bytes \<Rightarrow> bytes" where
  "reply_bulk_string out s = out @ ''$'' @ to_string_nat (length s) @ crlf @ s @ crlf"

definition reply_null_bulk :: "bytes \<Rightarrow> bytes" where
  "reply_null_bulk out = out @ ''$-1'' @ crlf"

definition reply_array_header :: "bytes \<Rightarrow> nat \<Rightarrow> bytes" where
  "reply_array_header out n = out @ ''*'' @ to_string_nat n @ crlf"

definition reply_command :: "bytes \<Rightarrow> bytes list \<Rightarrow> bytes" where
  "reply_command out argv =
     foldl reply_bulk_string (out @ ''*'' @ to_string_nat (length argv) @ crlf) argv"

section \<open>The parser\<close>

text \<open>
  \<open>parse_length\<close> reads \<open>buf[begin, end)\<close> as a decimal number of a 64-bit \<^verbatim>\<open>size_t\<close>; the guard
  rejects a value before the multiplication could wrap.
\<close>

function parse_length_loop :: "bytes \<Rightarrow> nat \<Rightarrow> nat \<Rightarrow> nat \<Rightarrow> nat option" where
  "parse_length_loop buf i stop val =
     (if i < stop then
        let c = buf ! i in
        if \<not> is_digit c then None
        else let digit = digit_val c in
          if val > (uint64_max - digit) div 10 then None
          else parse_length_loop buf (Suc i) stop (val * 10 + digit)
      else Some val)"
  by pat_completeness auto
termination by (relation "measure (\<lambda>(buf, i, stop, val). stop - i)") auto

declare parse_length_loop.simps [simp del]

definition parse_length :: "bytes \<Rightarrow> nat \<Rightarrow> nat \<Rightarrow> nat option" where
  "parse_length buf start stop = (if start \<ge> stop then None else parse_length_loop buf start stop 0)"

datatype parse_status = kComplete | kIncomplete | kProtocolError

text \<open>The loop over the bulk strings of a command; \<open>n\<close> are still to be read.\<close>

fun parse_args :: "nat \<Rightarrow> bytes \<Rightarrow> nat \<Rightarrow> bytes list \<Rightarrow> parse_status \<times> bytes list \<times> nat" where
  "parse_args 0 buffer pos command = (kComplete, command, pos)"
| "parse_args (Suc n) buffer pos command =
     (if pos \<ge> length buffer then (kIncomplete, [], 0)
      else if buffer ! pos \<noteq> CHR ''$'' then (kProtocolError, [], 0)
      else case find_str crlf buffer (pos + 1) of
        None \<Rightarrow> (kIncomplete, [], 0)
      | Some len_end \<Rightarrow>
          (case parse_length buffer (pos + 1) len_end of
             None \<Rightarrow> (kProtocolError, [], 0)
           | Some str_len \<Rightarrow>
               (let pos = len_end + 2; remaining = length buffer - pos in
                if remaining < str_len \<or> remaining - str_len < 2 then (kIncomplete, [], 0)
                else if buffer ! (pos + str_len) \<noteq> CHR 0x0D \<or> buffer ! (pos + str_len + 1) \<noteq> CHR 0x0A
                then (kProtocolError, [], 0)
                else parse_args n buffer (pos + str_len + 2)
                       (command @ [substr buffer pos str_len]))))"

record parse_result =
  pr_status :: parse_status
  pr_command :: "bytes list"
  pr_raw :: bytes
  pr_buffer :: bytes

definition try_parse_command :: "bytes \<Rightarrow> parse_result" where
  "try_parse_command buf =
     (let stay = (\<lambda>st. \<lparr>pr_status = st, pr_command = [], pr_raw = [], pr_buffer = buf\<rparr>) in
      if buf = [] then stay kIncomplete
      else if buf ! 0 \<noteq> CHR ''*'' then stay kProtocolError
      else case find_str crlf buf 1 of
        None \<Rightarrow> stay kIncomplete
      | Some header_end \<Rightarrow>
          (case parse_length buf 1 header_end of
             None \<Rightarrow> stay kProtocolError
           | Some n \<Rightarrow>
               (case parse_args n buf (header_end + 2) [] of
                  (kComplete, cmd, pos) \<Rightarrow>
                    \<lparr>pr_status = kComplete, pr_command = cmd, pr_raw = take pos buf, pr_buffer = drop pos buf\<rparr>
                | (st, _, _) \<Rightarrow> stay st)))"

text \<open>\<open>feed\<close> appends what was read from the socket.\<close>

definition feed :: "bytes \<Rightarrow> bytes \<Rightarrow> bytes" where
  "feed buf data = buf @ data"

section \<open>Lengths\<close>

lemma is_digit_not_CR: "is_digit c \<Longrightarrow> c \<noteq> CHR 0x0D"
  by (auto simp: is_digit_def)

lemma parse_length_loop_stable:
  "stop \<le> length buf \<Longrightarrow> parse_length_loop (buf @ ext) i stop v = parse_length_loop buf i stop v"
proof (induction buf i stop v rule: parse_length_loop.induct)
  case (1 buf i stop v)
  then show ?case
    by (subst (1 2) parse_length_loop.simps) (simp add: Let_def nth_append)
qed

lemma parse_length_stable:
  "stop \<le> length buf \<Longrightarrow> parse_length (buf @ ext) i stop = parse_length buf i stop"
  by (simp add: parse_length_def parse_length_loop_stable)

lemma digits_fold_mono: "v \<le> foldl (\<lambda>v c. 10 * v + digit_val c) v ds"
proof (induction ds arbitrary: v)
  case (Cons d ds)
  have "v \<le> 10 * v + digit_val d" by simp
  also have "\<dots> \<le> foldl (\<lambda>v c. 10 * v + digit_val c) (10 * v + digit_val d) ds" by (rule Cons)
  finally show ?case by simp
qed simp

text \<open>The overflow guard never fires on a number that fits, and the digits are read exactly.\<close>

lemma parse_length_loop_digits:
  "\<forall>c \<in> set ds. is_digit c \<Longrightarrow> foldl (\<lambda>v c. 10 * v + digit_val c) v ds \<le> uint64_max \<Longrightarrow>
   parse_length_loop (pre @ ds @ post) (length pre) (length pre + length ds) v =
     Some (foldl (\<lambda>v c. 10 * v + digit_val c) v ds)"
proof (induction ds arbitrary: pre v)
  case Nil
  then show ?case by (simp add: parse_length_loop.simps)
next
  case (Cons d ds)
  have d: "digit_val d \<le> 9" using Cons.prems(1) by (auto simp: is_digit_def digit_val_def)
  have "10 * v + digit_val d \<le> uint64_max"
    using digits_fold_mono [of "10 * v + digit_val d" ds] Cons.prems(2) by simp
  then have guard: "\<not> v > (uint64_max - digit_val d) div 10" by linarith
  have nth: "(pre @ (d # ds) @ post) ! length pre = d" by simp
  show ?case
    using Cons.IH [of "10 * v + digit_val d" "pre @ [d]"] Cons.prems guard
    by (subst parse_length_loop.simps) (simp add: Let_def nth mult.commute)
qed

lemma parse_length_to_string:
  assumes "n \<le> uint64_max" "i = length pre" "stop = length pre + length (to_string_nat n)"
  shows "parse_length (pre @ to_string_nat n @ post) i stop = Some n"
  using parse_length_loop_digits [of "to_string_nat n" 0 pre post] assms
    digits_val_to_string_nat [of n]
  by (simp add: parse_length_def digits_val_def to_string_nat_digits)

lemma no_CR_to_string: "CHR 0x0D \<notin> set (to_string_nat n)"
  using to_string_nat_digits is_digit_not_CR by blast

text \<open>Conversely, whatever is accepted is a run of digits whose value did not wrap.\<close>

lemma parse_length_loop_Some:
  "parse_length_loop buf i stop v = Some n \<Longrightarrow> v \<le> uint64_max \<Longrightarrow> stop \<le> length buf \<Longrightarrow>
     (\<forall>c \<in> set (substr buf i (stop - i)). is_digit c) \<and>
     n = foldl (\<lambda>v c. 10 * v + digit_val c) v (substr buf i (stop - i)) \<and> n \<le> uint64_max"
proof (induction buf i stop v rule: parse_length_loop.induct)
  case (1 buf i stop v)
  show ?case
  proof (cases "i < stop")
    case True
    with 1(2) have dig: "is_digit (buf ! i)"
      and g: "\<not> v > (uint64_max - digit_val (buf ! i)) div 10"
      and rec: "parse_length_loop buf (Suc i) stop (v * 10 + digit_val (buf ! i)) = Some n"
      by (subst (asm) parse_length_loop.simps, auto simp: Let_def split: if_splits)+
    have "digit_val (buf ! i) \<le> uint64_max"
      using dig by (auto simp: is_digit_def digit_val_def uint64_max_def)
    then have v: "v * 10 + digit_val (buf ! i) \<le> uint64_max" using g by linarith
    have "substr buf i (stop - i) = buf ! i # substr buf (Suc i) (stop - Suc i)"
      using True 1(4) by (simp add: substr_def take_Suc_conv_app_nth Cons_nth_drop_Suc [symmetric] Suc_diff_Suc [symmetric])
    then show ?thesis
      using 1(1) [OF True refl _ refl g rec v 1(4)] dig by (simp add: mult.commute)
  next
    case False
    with 1(2,3) show ?thesis by (simp add: parse_length_loop.simps substr_def)
  qed
qed

section \<open>More input never changes a decision already taken\<close>

lemma parse_args_pos:
  "parse_args n buf pos cmd = (kComplete, r, p) \<Longrightarrow> pos \<le> length buf \<Longrightarrow> pos \<le> p \<and> p \<le> length buf"
proof (induction n arbitrary: pos cmd)
  case (Suc n)
  then obtain len_end str_len where
    le: "find_str crlf buf (pos + 1) = Some len_end" and
    rem: "\<not> length buf - (len_end + 2) < str_len" "\<not> length buf - (len_end + 2) - str_len < 2" and
    rec: "parse_args n buf (len_end + 2 + str_len + 2) (cmd @ [substr buf (len_end + 2) str_len])
      = (kComplete, r, p)"
    by (auto simp: Let_def split: if_splits option.splits)
  have "pos + 1 \<le> len_end" "len_end + 2 \<le> length buf"
    using find_str_Some [OF le] by (auto simp: crlf_def)
  then show ?case using Suc.IH [OF rec] rem by linarith
qed simp

lemma parse_args_stable:
  "parse_args n buf pos cmd = (st, r, p) \<Longrightarrow> st \<noteq> kIncomplete \<Longrightarrow>
     parse_args n (buf @ ext) pos cmd = (st, r, p)"
proof (induction n arbitrary: pos cmd)
  case (Suc n)
  have pos: "pos < length buf" using Suc.prems by (auto split: if_splits)
  show ?case
  proof (cases "buf ! pos = CHR ''$''")
    case dollar: True
    then obtain len_end where le: "find_str crlf buf (pos + 1) = Some len_end"
      using Suc.prems pos by (auto split: option.splits)
    have le2: "len_end + 2 \<le> length buf" using find_str_Some [OF le] by (simp add: crlf_def)
    have le': "find_str crlf (buf @ ext) (pos + 1) = Some len_end"
      using find_str_stable [OF le] by (simp add: crlf_def)
    show ?thesis
    proof (cases "parse_length buf (pos + 1) len_end")
      case None
      then show ?thesis
        using Suc.prems pos dollar le le' le2 by (simp add: nth_append parse_length_stable)
    next
      case (Some str_len)
      have rem: "str_len + 2 \<le> length buf - (len_end + 2)"
        using Suc.prems pos dollar le Some by (auto simp: Let_def split: if_splits)
      have sub: "substr (buf @ ext) (len_end + 2) str_len = substr buf (len_end + 2) str_len"
        using rem by (simp add: substr_def)
      let ?q = "Suc (Suc (len_end + str_len))"
      have nth: "(buf @ ext) ! ?q = buf ! ?q" "(buf @ ext) ! Suc ?q = buf ! Suc ?q"
        "(buf @ ext) ! pos = buf ! pos"
        using rem pos by (subst nth_append_left; linarith?; simp)+
      have rem': "\<not> length buf + length ext - Suc (Suc len_end) < str_len"
        "\<not> length buf + length ext - ?q < 2" "\<not> length buf - Suc (Suc len_end) < str_len"
        "\<not> length buf - ?q < 2"
        using rem by linarith+
      show ?thesis
        using Suc.prems pos dollar le le' le2 Some
          Suc.IH [of "len_end + 2 + str_len + 2" "cmd @ [substr buf (len_end + 2) str_len]"]
        by (auto simp: nth rem' parse_length_stable Let_def sub [simplified] split: if_splits)
    qed
  qed (use Suc.prems pos in \<open>simp add: nth_append\<close>)
qed simp

lemma try_parse_stable:
  assumes "pr_status (try_parse_command buf) \<noteq> kIncomplete"
  shows "try_parse_command (buf @ ext) =
    (try_parse_command buf)\<lparr>pr_buffer := pr_buffer (try_parse_command buf) @ ext\<rparr>"
proof -
  have ne: "buf \<noteq> []" using assms by (auto simp: try_parse_command_def)
  show ?thesis
  proof (cases "buf ! 0 = CHR ''*''")
    case star: True
    then obtain he where he: "find_str crlf buf 1 = Some he"
      using assms ne by (auto simp: try_parse_command_def Let_def split: option.splits)
    have he2: "he + 2 \<le> length buf" using find_str_Some [OF he] by (simp add: crlf_def)
    have he': "find_str crlf (buf @ ext) 1 = Some he"
      using find_str_stable [OF he] by (simp add: crlf_def)
    show ?thesis
    proof (cases "parse_length buf 1 he")
      case None
      then show ?thesis
        using ne star he he' he2
        by (simp add: try_parse_command_def Let_def nth_append parse_length_stable)
    next
      case (Some n)
      obtain st r p where pa: "parse_args n buf (he + 2) [] = (st, r, p)" by (cases "parse_args n buf (he + 2) []")
      have st: "st \<noteq> kIncomplete"
        using assms ne star he Some pa
        by (auto simp: try_parse_command_def Let_def split: parse_status.splits)
      have le: "st = kComplete \<Longrightarrow> p \<le> length buf" using parse_args_pos pa he2 by auto
      show ?thesis
        using ne star he he' he2 Some pa parse_args_stable [OF pa st, of ext] st le
        by (cases st) (auto simp: try_parse_command_def Let_def nth_append parse_length_stable)
    qed
  qed (use ne in \<open>simp add: try_parse_command_def Let_def nth_append\<close>)
qed

lemma try_parse_incomplete:
  "pr_status (try_parse_command buf) \<noteq> kComplete \<Longrightarrow> pr_buffer (try_parse_command buf) = buf"
  by (auto simp: try_parse_command_def Let_def split: option.splits prod.splits parse_status.splits)

lemma try_parse_complete:
  assumes "pr_status (try_parse_command buf) = kComplete"
  shows "buf = pr_raw (try_parse_command buf) @ pr_buffer (try_parse_command buf)"
    "pr_raw (try_parse_command buf) \<noteq> []"
proof -
  obtain he n r p where "buf \<noteq> []" "find_str crlf buf 1 = Some he"
    and pa: "parse_args n buf (he + 2) [] = (kComplete, r, p)"
    and eq: "pr_raw (try_parse_command buf) = take p buf" "pr_buffer (try_parse_command buf) = drop p buf"
    using assms
    by (auto simp: try_parse_command_def Let_def split: option.splits prod.splits parse_status.splits if_splits)
  then have "he + 2 \<le> length buf" using find_str_Some [of crlf buf 1 he] by (simp add: crlf_def)
  then have "he + 2 \<le> p" "p \<le> length buf" using parse_args_pos [OF pa] by auto
  then show "buf = pr_raw (try_parse_command buf) @ pr_buffer (try_parse_command buf)"
    "pr_raw (try_parse_command buf) \<noteq> []"
    using \<open>buf \<noteq> []\<close> by (auto simp: eq)
qed

section \<open>Encoding\<close>

lemma reply_bulk_string_append: "reply_bulk_string out s = out @ reply_bulk_string [] s"
  by (simp add: reply_bulk_string_def)

lemma foldl_bulk: "foldl reply_bulk_string out args = out @ concat (map (reply_bulk_string []) args)"
proof (induction args arbitrary: out)
  case (Cons a args)
  show ?case using Cons [of "reply_bulk_string out a"] reply_bulk_string_append [of out a] by simp
qed simp

lemma reply_command_eq:
  "reply_command out argv =
     out @ ''*'' @ to_string_nat (length argv) @ crlf @ concat (map (reply_bulk_string []) argv)"
  by (simp add: reply_command_def foldl_bulk)

text \<open>Sizes are 64-bit: a command that exists in memory satisfies this.\<close>

definition fits :: "bytes list \<Rightarrow> bool" where
  "fits argv \<longleftrightarrow> length argv \<le> uint64_max \<and> (\<forall>a \<in> set argv. length a \<le> uint64_max)"

lemma parse_args_bulk:
  "pos = length pre \<Longrightarrow> \<forall>a \<in> set args. length a \<le> uint64_max \<Longrightarrow>
   parse_args (length args) (pre @ concat (map (reply_bulk_string []) args) @ rest) pos cmd =
     (kComplete, cmd @ args, pos + length (concat (map (reply_bulk_string []) args)))"
proof (induction args arbitrary: pre pos cmd)
  case (Cons a args)
  let ?n = "to_string_nat (length a)"
  let ?tl = "concat (map (reply_bulk_string []) args) @ rest"
  define buf where "buf = pre @ ''$'' @ ?n @ crlf @ a @ crlf @ ?tl"
  have buf: "pre @ concat (map (reply_bulk_string []) (a # args)) @ rest = buf"
    by (simp add: buf_def reply_bulk_string_def)
  have le: "find_str crlf buf (pos + 1) = Some (pos + 1 + length ?n)"
    using find_crlf_append [of ?n "pos + 1" "pre @ ''$''" "a @ crlf @ ?tl"] Cons.prems(1)
    by (simp add: buf_def no_CR_to_string)
  have pl: "parse_length buf (pos + 1) (pos + 1 + length ?n) = Some (length a)"
    using parse_length_to_string [of "length a" "pos + 1" "pre @ ''$''" _ "crlf @ a @ crlf @ ?tl"] Cons.prems
    by (simp add: buf_def)
  define q where "q = pos + 1 + length ?n + 2"
  have q: "buf = (pre @ ''$'' @ ?n @ crlf) @ a @ crlf @ ?tl" "q = length (pre @ ''$'' @ ?n @ crlf)"
    using Cons.prems(1) by (simp_all add: buf_def q_def crlf_def)
  have sub: "substr buf q (length a) = a" unfolding q by (rule substr_middle)
  have cr: "buf ! (q + length a) = CHR 0x0D" "buf ! Suc (q + length a) = CHR 0x0A"
    and rem: "length a + 2 \<le> length buf - q"
    unfolding q(1) by (simp_all add: substr_def q(2) crlf_def nth_append)
  have pos: "pos < length buf" "buf ! pos = CHR ''$''"
    using Cons.prems(1) by (simp_all add: buf_def nth_append)
  have IH: "parse_args (length args) buf (q + length a + 2) (cmd @ [a]) =
      (kComplete, cmd @ a # args, q + length a + 2 + length (concat (map (reply_bulk_string []) args)))"
    using Cons.IH [of "q + length a + 2" "pre @ ''$'' @ ?n @ crlf @ a @ crlf" "cmd @ [a]"] Cons.prems
    by (simp add: buf_def q_def crlf_def)
  have len: "Suc (Suc (q + length a)) = pos + length (reply_bulk_string [] a)"
    by (simp add: q_def reply_bulk_string_def crlf_def)
  have rem': "\<not> length buf - q < length a" "\<not> length buf - (q + length a) < 2"
    using rem by linarith+
  have q': "Suc (Suc (Suc (pos + length ?n))) = q" by (simp add: q_def)
  show ?case
    unfolding buf using pos le pl sub cr IH
    by (simp add: Let_def q' len rem')
qed simp

lemma try_parse_roundtrip:
  assumes "fits argv"
  shows "try_parse_command (reply_command [] argv @ rest) =
    \<lparr>pr_status = kComplete, pr_command = argv, pr_raw = reply_command [] argv, pr_buffer = rest\<rparr>"
proof -
  let ?n = "to_string_nat (length argv)"
  let ?args = "concat (map (reply_bulk_string []) argv)"
  define buf where "buf = reply_command [] argv @ rest"
  have buf: "buf = ''*'' @ ?n @ crlf @ ?args @ rest" by (simp add: buf_def reply_command_eq)
  have he: "find_str crlf buf 1 = Some (1 + length ?n)"
    using find_crlf_append [of ?n 1 "''*''" "?args @ rest"] by (simp add: buf no_CR_to_string)
  have pl: "parse_length buf 1 (1 + length ?n) = Some (length argv)"
    using parse_length_to_string [of "length argv" 1 "''*''" _ "crlf @ ?args @ rest"] assms
    by (simp add: buf fits_def)
  have pa: "parse_args (length argv) buf (1 + length ?n + 2) [] =
      (kComplete, argv, length (reply_command [] argv))"
    using parse_args_bulk [of "1 + length ?n + 2" "''*'' @ ?n @ crlf" argv rest "[]"] assms
    by (simp add: buf fits_def crlf_def reply_command_eq)
  have "buf \<noteq> []" "buf ! 0 = CHR ''*''" by (simp_all add: buf)
  then show ?thesis
    unfolding buf_def [symmetric] try_parse_command_def
    using he pl pa by (simp add: Let_def) (simp add: buf_def)
qed

section \<open>Draining a connection's input\<close>

text \<open>
  The loop every reader of a RESP stream runs after feeding what it received: commands are taken
  off the buffer until none is complete. Each one consumes at least a byte, so the loop ends.
\<close>

function drain :: "bytes \<Rightarrow> bytes list list \<times> parse_status \<times> bytes" where
  "drain buf =
     (let r = try_parse_command buf in
      if pr_status r = kComplete then
        (case drain (pr_buffer r) of (cs, st, b) \<Rightarrow> (pr_command r # cs, st, b))
      else ([], pr_status r, pr_buffer r))"
  by pat_completeness auto
termination
proof (relation "measure length")
  fix buf r assume "r = try_parse_command buf" "pr_status r = kComplete"
  then show "(pr_buffer r, buf) \<in> measure length"
    using try_parse_complete [of buf] by (cases "pr_raw r") (auto dest: arg_cong [where f = length])
qed simp

declare drain.simps [simp del]

text \<open>A reader that is fed the chunks one after the other; a protocol error ends it.\<close>

fun receive :: "bytes list \<Rightarrow> bytes \<Rightarrow> bytes list list \<times> parse_status \<times> bytes" where
  "receive [] buf = ([], kIncomplete, buf)"
| "receive (chunk # chunks) buf =
     (case drain (feed buf chunk) of
        (cs, kProtocolError, b) \<Rightarrow> (cs, kProtocolError, b)
      | (cs, _, b) \<Rightarrow> (case receive chunks b of (cs', st, b') \<Rightarrow> (cs @ cs', st, b')))"

lemma drain_status: "drain buf = (cs, st, b) \<Longrightarrow> st \<noteq> kComplete"
  by (induction buf arbitrary: cs rule: drain.induct)
    (subst (asm) (2) drain.simps, auto simp: Let_def split: if_splits prod.splits)

lemma drain_drained: "drain buf = (cs, kIncomplete, b) \<Longrightarrow> drain b = ([], kIncomplete, b)"
proof (induction buf arbitrary: cs rule: drain.induct)
  case (1 buf)
  show ?case
  proof (cases "pr_status (try_parse_command buf) = kComplete")
    case True
    then show ?thesis
      using 1 by (subst (asm) (2) drain.simps) (auto simp: Let_def split: prod.splits)
  next
    case False
    then have "b = buf" "pr_status (try_parse_command buf) = kIncomplete"
      using 1(2) try_parse_incomplete [OF False] by (auto simp: drain.simps [of buf] Let_def)
    then show ?thesis using try_parse_incomplete [OF False] by (simp add: drain.simps Let_def)
  qed
qed

lemma drain_append:
  "drain buf = (cs, st, b) \<Longrightarrow>
     drain (buf @ ext) =
       (if st = kIncomplete then (case drain (b @ ext) of (cs', st', b') \<Rightarrow> (cs @ cs', st', b'))
        else (cs, st, b @ ext))"
proof (induction buf arbitrary: cs rule: drain.induct)
  case (1 buf)
  let ?r = "try_parse_command buf"
  show ?case
  proof (cases "pr_status ?r")
    case kComplete
    obtain cs2 where "drain (pr_buffer ?r) = (cs2, st, b)" "cs = pr_command ?r # cs2"
      using 1(2) kComplete by (auto simp: drain.simps [of buf] Let_def split: prod.splits)
    then show ?thesis
      using 1(1) [OF refl kComplete] kComplete try_parse_stable [of buf ext]
      by (simp add: drain.simps [of "buf @ ext"] Let_def split: prod.splits)
  next
    case kIncomplete
    then show ?thesis
      using 1(2) try_parse_incomplete [of buf] by (auto simp: drain.simps [of buf] Let_def split: prod.splits)
  next
    case kProtocolError
    then have "cs = []" "st = kProtocolError" "b = buf"
      using 1(2) try_parse_incomplete [of buf] by (auto simp: drain.simps [of buf] Let_def)
    then show ?thesis
      using kProtocolError try_parse_incomplete [of buf] try_parse_stable [of buf ext]
      by (simp add: drain.simps [of "buf @ ext"] Let_def)
  qed
qed

lemma receive_drain:
  "drain buf = ([], kIncomplete, buf) \<Longrightarrow> receive chunks buf = (cs, st, b) \<Longrightarrow>
     \<exists>rest. drain (buf @ concat chunks) = (cs, st, b @ rest) \<and> (st \<noteq> kProtocolError \<longrightarrow> rest = [])"
proof (induction chunks arbitrary: buf cs)
  case (Cons ch chs)
  obtain cs1 st1 b1 where d: "drain (buf @ ch) = (cs1, st1, b1)" by (cases "drain (buf @ ch)")
  show ?case
  proof (cases st1)
    case kIncomplete
    obtain cs2 where "receive chs b1 = (cs2, st, b)" "cs = cs1 @ cs2"
      using Cons.prems(2) d kIncomplete by (auto simp: feed_def split: prod.splits)
    then show ?thesis
      using Cons.IH [of b1 cs2] drain_drained [of "buf @ ch"] d kIncomplete
        drain_append [OF d, of "concat chs"] by auto
  next
    case kProtocolError
    then show ?thesis
      using Cons.prems(2) d drain_append [OF d, of "concat chs"] by (auto simp: feed_def)
  qed (use drain_status [OF d] in simp)
qed simp

lemma drain_Nil: "drain [] = ([], kIncomplete, [])"
  by (simp add: drain.simps try_parse_command_def Let_def)

lemma drain_commands:
  "list_all fits cmds \<Longrightarrow> drain (concat (map (reply_command []) cmds) @ rest) =
     (case drain rest of (cs, st, b) \<Rightarrow> (cmds @ cs, st, b))"
proof (induction cmds)
  case (Cons c cmds)
  then show ?case
    by (subst drain.simps) (simp add: Let_def try_parse_roundtrip split: prod.splits)
qed (simp split: prod.splits)

section \<open>Properties\<close>

text \<open>
  C7: whatever commands a peer encodes one after the other, and however the network cuts the bytes
  into chunks, a reader fed the chunks takes off exactly those commands in that order, is left with
  an empty buffer, and reports no protocol error. Arguments are arbitrary bytes.
\<close>

theorem resp_stream_roundtrip:
  assumes "list_all fits cmds"
    and "concat chunks = concat (map (reply_command []) cmds)"
  shows "receive chunks [] = (cmds, kIncomplete, [])"
proof -
  have "drain (concat chunks) = (cmds, kIncomplete, [])"
    using drain_commands [OF assms(1), of "[]"] by (simp add: assms(2) drain_Nil)
  then show ?thesis
    using receive_drain [OF drain_Nil, of chunks] by (cases "receive chunks []") fastforce
qed

theorem resp_stream_roundtrip_witness:
  "receive [''*1'', crlf @ ''$4'' @ crlf @ ''PI'', ''NG'' @ crlf] [] = ([[''PING'']], kIncomplete, [])"
proof (rule resp_stream_roundtrip)
  show "list_all fits [[''PING'']]" by (simp add: fits_def uint64_max_def)
  show "concat [''*1'', crlf @ ''$4'' @ crlf @ ''PI'', ''NG'' @ crlf] =
      concat (map (reply_command []) [[''PING'']])"
    by code_simp
qed

text \<open>
  C17: for any bytes at all, valid or not, the commands taken off and whether the stream ends in a
  protocol error do not depend on how the bytes were cut into chunks.
\<close>

theorem resp_chunking_irrelevant:
  "fst (receive chunks []) = fst (receive [concat chunks] []) \<and>
   fst (snd (receive chunks [])) = fst (snd (receive [concat chunks] []))"
  using receive_drain [OF drain_Nil, of chunks] receive_drain [OF drain_Nil, of "[concat chunks]"]
  by (cases "receive chunks []"; cases "receive [concat chunks] []"; fastforce)

text \<open>
  C21: a length field is accepted exactly if it is a non-empty run of decimal digits whose value
  fits 64 bits, and then with that value: the overflow guard rejects nothing that fits and lets
  nothing wrap.
\<close>

theorem parse_length_exact:
  assumes "stop \<le> length buf"
  shows "parse_length buf start stop = Some n \<longleftrightarrow>
    start < stop \<and> (\<forall>c \<in> set (substr buf start (stop - start)). is_digit c) \<and>
    digits_val (substr buf start (stop - start)) = n \<and> n \<le> uint64_max"
    (is "?l \<longleftrightarrow> ?r")
proof
  assume ?l
  then show ?r using parse_length_loop_Some [of buf start stop 0 n] assms
    by (auto simp: parse_length_def digits_val_def split: if_splits)
next
  assume r: ?r
  let ?ds = "substr buf start (stop - start)"
  have "take start buf @ ?ds @ drop stop buf = buf"
    using r assms by (simp add: substr_def)
      (metis append_take_drop_id drop_drop le_add_diff_inverse2 less_imp_le_nat)
  moreover have "length (take start buf) = start" "length ?ds = stop - start"
    using r assms by (auto simp: substr_def)
  ultimately show ?l
    using parse_length_loop_digits [of ?ds 0 "take start buf" "drop stop buf"] r
    by (simp add: parse_length_def digits_val_def)
qed

theorem parse_length_exact_witness:
  "parse_length ''*12'' 1 3 = Some 12 \<and>
   parse_length ''18446744073709551616'' 0 20 \<noteq> Some 18446744073709551616"
  using parse_length_exact [of 3 "''*12''" 1 12]
    parse_length_exact [of 20 "''18446744073709551616''" 0 18446744073709551616]
  by (simp add: substr_def is_digit_def digits_val_def digit_val_def uint64_max_def)

end
