(* ===== verification/Cluster_Msg.thy ===== *)
theory Cluster_Msg
  imports Resp Cluster_Slot "HOL-Library.Monad_Syntax"
begin

text \<open>
  The messages of the cluster bus (\<^verbatim>\<open>cluster_msg.hpp\<close>, \<^verbatim>\<open>cluster_msg.cpp\<close>): their
  encoding as RESP arrays and the decoder, which accepts only well-formed messages. A slot bitmap
  is the set of its slots. A decoder that returns \<^verbatim>\<open>false\<close> is \<^const>\<open>None\<close>.
\<close>

section \<open>Messages\<close>

type_synonym slot_bitmap = "nat set"

definition kNodeIdLength :: nat where "kNodeIdLength = 40"
definition kHeaderFields :: nat where "kHeaderFields = 11"
definition kGossipFields :: nat where "kGossipFields = 5"
definition kSlotBytes :: nat where "kSlotBytes = kSlots div 8"

datatype msg_type =
    kPing | kPong | kMeet | kUpdate | kFail | kFailoverAuthRequest | kFailoverAuthAck | kMfStart

definition kMsgPaused :: u32 where "kMsgPaused = 1"
definition kMsgForceAck :: u32 where "kMsgForceAck = 2"

record gossip_entry =
  g_id :: bytes
  g_ip :: bytes
  g_port :: u16
  g_cport :: u16
  g_replica :: bool
  g_pfail :: bool
  g_fail :: bool

record message =
  msg_type :: msg_type
  msg_sender :: bytes
  msg_port :: u16
  msg_cport :: u16
  msg_replica :: bool
  msg_master_id :: bytes
  msg_current_epoch :: u64
  msg_config_epoch :: u64
  msg_repl_offset :: u64
  msg_mflags :: u32
  msg_slots :: slot_bitmap
  msg_gossip :: "gossip_entry list"
  msg_update_id :: bytes
  msg_update_epoch :: u64
  msg_update_slots :: slot_bitmap
  msg_fail_id :: bytes

definition empty_message :: message where
  "empty_message =
     \<lparr>msg_type = kPing, msg_sender = [], msg_port = 0, msg_cport = 0, msg_replica = False,
      msg_master_id = [], msg_current_epoch = 0, msg_config_epoch = 0, msg_repl_offset = 0,
      msg_mflags = 0, msg_slots = {}, msg_gossip = [], msg_update_id = [], msg_update_epoch = 0,
      msg_update_slots = {}, msg_fail_id = []\<rparr>"

section \<open>Fields\<close>

definition kAllTypes :: "msg_type list" where
  "kAllTypes = [kPing, kPong, kMeet, kUpdate, kFail, kFailoverAuthRequest, kFailoverAuthAck, kMfStart]"

fun type_name :: "msg_type \<Rightarrow> bytes" where
  "type_name kPing = ''PING''"
| "type_name kPong = ''PONG''"
| "type_name kMeet = ''MEET''"
| "type_name kUpdate = ''UPDATE''"
| "type_name kFail = ''FAIL''"
| "type_name kFailoverAuthRequest = ''FAILOVER_AUTH_REQUEST''"
| "type_name kFailoverAuthAck = ''FAILOVER_AUTH_ACK''"
| "type_name kMfStart = ''MFSTART''"

definition parse_type :: "bytes \<Rightarrow> msg_type option" where
  "parse_type s = find (\<lambda>candidate. s = type_name candidate) kAllTypes"

definition header_only :: "msg_type \<Rightarrow> bool" where
  "header_only t \<longleftrightarrow> t = kFailoverAuthRequest \<or> t = kFailoverAuthAck \<or> t = kMfStart"

text \<open>The template \<open>parse_uint\<close>, at the width of its target.\<close>

definition parse_word :: "bytes \<Rightarrow> 'a::len word option" where
  "parse_word s = map_option of_nat (parse_uint (2 ^ LENGTH('a) - 1) s)"

definition parse_port :: "bytes \<Rightarrow> u16 option" where
  "parse_port s = (case parse_word s of Some port \<Rightarrow> if port \<noteq> 0 then Some port else None | None \<Rightarrow> None)"

definition parse_role :: "bytes \<Rightarrow> bool option" where
  "parse_role s = (if s \<noteq> ''master'' \<and> s \<noteq> ''slave'' then None else Some (s = ''slave''))"

definition gossip_flags :: "gossip_entry \<Rightarrow> bytes" where
  "gossip_flags g =
     (if g_replica g then ''slave'' else ''master'')
     @ (if g_fail g then '',fail'' else if g_pfail g then '',fail?'' else [])"

function parse_flags_loop :: "bytes \<Rightarrow> nat option \<Rightarrow> gossip_entry \<Rightarrow> gossip_entry option" where
  "parse_flags_loop s None g = Some g"
| "parse_flags_loop s (Some comma) g =
     (let nxt = find_char (CHR '','') s (comma + 1);
          flag = (case nxt of None \<Rightarrow> drop (comma + 1) s
                  | Some n \<Rightarrow> substr s (comma + 1) (n - comma - 1))
      in if flag = ''fail?'' then parse_flags_loop s nxt (g\<lparr>g_pfail := True\<rparr>)
         else if flag = ''fail'' then parse_flags_loop s nxt (g\<lparr>g_fail := True\<rparr>)
         else None)"
  by pat_completeness auto
termination
  by (relation "measure (\<lambda>(s, c, g). case c of None \<Rightarrow> 0 | Some i \<Rightarrow> Suc (length s - i))")
    (auto split: option.splits dest!: find_char_bounds)

definition parse_gossip_flags :: "bytes \<Rightarrow> gossip_entry \<Rightarrow> gossip_entry option" where
  "parse_gossip_flags s g =
     (let comma = find_char (CHR '','') s 0 in
      do {
        replica \<leftarrow> parse_role (case comma of None \<Rightarrow> s | Some i \<Rightarrow> substr s 0 i);
        parse_flags_loop s comma (g\<lparr>g_replica := replica\<rparr>)
      })"

definition valid_node_id :: "bytes \<Rightarrow> bool" where
  "valid_node_id s \<longleftrightarrow>
     length s = kNodeIdLength \<and>
     list_all (\<lambda>c. (48 \<le> (of_char c :: nat) \<and> (of_char c :: nat) \<le> 57) \<or>
                   (97 \<le> (of_char c :: nat) \<and> (of_char c :: nat) \<le> 102)) s"

definition put_slot :: "slot_bitmap \<Rightarrow> nat \<Rightarrow> bytes \<Rightarrow> bytes" where
  "put_slot slots slot out =
     (if slot \<in> slots
      then out[slot div 8 := to_char (byte_of (out ! (slot div 8)) OR push_bit (slot mod 8) (1 :: u8))]
      else out)"

definition slots_to_bytes :: "slot_bitmap \<Rightarrow> bytes" where
  "slots_to_bytes slots = fold (put_slot slots) [0..<kSlots] (replicate kSlotBytes (CHR 0x00))"

definition slots_from_bytes :: "bytes \<Rightarrow> slot_bitmap option" where
  "slots_from_bytes s =
     (if length s \<noteq> kSlotBytes then None
      else Some (fold (\<lambda>slot slots. if byte_of (s ! (slot div 8)) AND push_bit (slot mod 8) (1 :: u8) \<noteq> 0
                         then insert slot slots else slots)
                   [0..<kSlots] {}))"

section \<open>Encoding and decoding\<close>

definition gossip_fields :: "gossip_entry \<Rightarrow> bytes list" where
  "gossip_fields g =
     [g_id g, g_ip g, to_string_nat (unat (g_port g)), to_string_nat (unat (g_cport g)), gossip_flags g]"

definition encode_header :: "message \<Rightarrow> bytes list" where
  "encode_header msg =
     [type_name (msg_type msg), msg_sender msg, to_string_nat (unat (msg_port msg)),
      to_string_nat (unat (msg_cport msg)), (if msg_replica msg then ''slave'' else ''master''),
      (if msg_master_id msg = [] then ''-'' else msg_master_id msg),
      to_string_nat (unat (msg_current_epoch msg)), to_string_nat (unat (msg_config_epoch msg)),
      to_string_nat (unat (msg_repl_offset msg)), to_string_nat (unat (msg_mflags msg)),
      slots_to_bytes (msg_slots msg)]"

definition encode_body :: "message \<Rightarrow> bytes list" where
  "encode_body msg =
     (if msg_type msg = kUpdate then
        [msg_update_id msg, to_string_nat (unat (msg_update_epoch msg)),
         slots_to_bytes (msg_update_slots msg)]
      else if msg_type msg = kFail then [msg_fail_id msg]
      else if \<not> header_only (msg_type msg) then
        to_string_nat (length (msg_gossip msg)) # concat (map gossip_fields (msg_gossip msg))
      else [])"

definition encode_argv :: "message \<Rightarrow> bytes list" where
  "encode_argv msg = encode_header msg @ encode_body msg"

definition encode :: "message \<Rightarrow> bytes \<Rightarrow> bytes" where
  "encode msg out = reply_command out (encode_argv msg)"

definition decode_gossip_entry :: "bytes list \<Rightarrow> gossip_entry option" where
  "decode_gossip_entry f =
     (let g = \<lparr>g_id = f ! 0, g_ip = f ! 1, g_port = 0, g_cport = 0, g_replica = False,
               g_pfail = False, g_fail = False\<rparr>
      in if \<not> valid_node_id (g_id g) then None
         else do {
           port \<leftarrow> parse_port (f ! 2);
           cport \<leftarrow> parse_port (f ! 3);
           parse_gossip_flags (f ! 4) (g\<lparr>g_port := port, g_cport := cport\<rparr>)
         })"

fun decode_gossip :: "nat \<Rightarrow> bytes list \<Rightarrow> gossip_entry list option" where
  "decode_gossip 0 f = Some []"
| "decode_gossip (Suc n) f =
     do {
       g \<leftarrow> decode_gossip_entry f;
       gs \<leftarrow> decode_gossip n (drop kGossipFields f);
       Some (g # gs)
     }"

definition decode_header :: "bytes list \<Rightarrow> message option" where
  "decode_header argv =
     (if length argv < kHeaderFields then None
      else do {
        t \<leftarrow> parse_type (argv ! 0);
        (if \<not> valid_node_id (argv ! 1) then None else Some ());
        port \<leftarrow> parse_port (argv ! 2);
        cport \<leftarrow> parse_port (argv ! 3);
        replica \<leftarrow> parse_role (argv ! 4);
        current_epoch \<leftarrow> parse_word (argv ! 6);
        config_epoch \<leftarrow> parse_word (argv ! 7);
        repl_offset \<leftarrow> parse_word (argv ! 8);
        mflags \<leftarrow> parse_word (argv ! 9);
        slots \<leftarrow> slots_from_bytes (argv ! 10);
        (if argv ! 5 \<noteq> ''-'' \<and> \<not> valid_node_id (argv ! 5) then None else Some ());
        Some (empty_message\<lparr>msg_type := t, msg_sender := argv ! 1, msg_port := port,
          msg_cport := cport, msg_replica := replica,
          msg_master_id := (if argv ! 5 \<noteq> ''-'' then argv ! 5 else []),
          msg_current_epoch := current_epoch, msg_config_epoch := config_epoch,
          msg_repl_offset := repl_offset, msg_mflags := mflags, msg_slots := slots\<rparr>)
      })"

definition decode_body :: "bytes list \<Rightarrow> message \<Rightarrow> message option" where
  "decode_body body msg =
     (if msg_type msg = kUpdate then
        (if length body \<noteq> 3 \<or> \<not> valid_node_id (body ! 0) then None
         else do {
           update_epoch \<leftarrow> parse_word (body ! 1);
           update_slots \<leftarrow> slots_from_bytes (body ! 2);
           Some (msg\<lparr>msg_update_epoch := update_epoch, msg_update_slots := update_slots,
                     msg_update_id := body ! 0\<rparr>)
         })
      else if msg_type msg = kFail then
        (if length body \<noteq> 1 \<or> \<not> valid_node_id (body ! 0) then None
         else Some (msg\<lparr>msg_fail_id := body ! 0\<rparr>))
      else if header_only (msg_type msg) then (if body = [] then Some msg else None)
      else if length body < 1 then None
      else do {
        count \<leftarrow> parse_uint uint64_max (body ! 0);
        (if count > length body \<or> length body \<noteq> 1 + count * kGossipFields then None else Some ());
        gossip \<leftarrow> decode_gossip count (tl body);
        Some (msg\<lparr>msg_gossip := gossip\<rparr>)
      })"

definition decode :: "bytes list \<Rightarrow> message option" where
  "decode argv = do { msg \<leftarrow> decode_header argv; decode_body (drop kHeaderFields argv) msg }"

section \<open>Round trips of the fields\<close>

lemma parse_type_name [codec_simps]: "parse_type (type_name t) = Some t"
  by (cases t) (simp_all add: parse_type_def kAllTypes_def)

lemma parse_word_to_string [codec_simps]: "parse_word (to_string_nat (unat w)) = Some (w :: 'a::len word)"
proof -
  have "unat w < 2 ^ LENGTH('a)" by (rule unsigned_less)
  then have "unat w \<le> 2 ^ LENGTH('a) - 1" by linarith
  then show ?thesis by (simp add: parse_word_def parse_uint_to_string)
qed

lemma parse_port_to_string [codec_simps]: "p \<noteq> 0 \<Longrightarrow> parse_port (to_string_nat (unat p)) = Some p"
  by (simp add: parse_port_def parse_word_to_string)

lemma parse_role_name [codec_simps]:
  "parse_role (if r then ''slave'' else ''master'') = Some r"
  by (simp add: parse_role_def)

lemma parse_gossip_flags_printed [codec_simps]:
  assumes "\<not> (g_fail g \<and> g_pfail g)" "\<not> g_pfail h" "\<not> g_fail h"
  shows "parse_gossip_flags (gossip_flags g) h =
    Some (h\<lparr>g_replica := g_replica g, g_pfail := g_pfail g, g_fail := g_fail g\<rparr>)"
  using assms
  by (cases "g_replica g"; cases "g_fail g"; cases "g_pfail g"; cases h)
    (auto simp: gossip_flags_def parse_gossip_flags_def find_char_def substr_def parse_role_def)

lemma bit_put_slot:
  assumes "i < length out" "j < 8"
  shows "bit (byte_of (put_slot slots n out ! i) :: u8) j \<longleftrightarrow>
    bit (byte_of (out ! i) :: u8) j \<or> n \<in> slots \<and> 8 * i + j = n"
proof -
  have "8 * i + j = n \<longleftrightarrow> i = n div 8 \<and> j = n mod 8" using assms(2) by auto
  moreover have "byte_of (to_char w) = w" for w :: u8 by (simp add: byte_of_to_char take_bit_word_eq_self)
  ultimately show ?thesis
    using assms by (cases "i = n div 8") (auto simp: put_slot_def bit_or_iff bit_exp_iff)
qed

lemma slots_to_bytes_upt:
  "n \<le> kSlots \<Longrightarrow>
     length (fold (put_slot slots) [0..<n] (replicate kSlotBytes (CHR 0x00))) = kSlotBytes \<and>
     (\<forall>i < kSlotBytes. \<forall>j < 8.
        bit (byte_of (fold (put_slot slots) [0..<n] (replicate kSlotBytes (CHR 0x00)) ! i) :: u8) j \<longleftrightarrow>
        8 * i + j < n \<and> 8 * i + j \<in> slots)"
proof (induction n)
  case 0
  then show ?case by (simp add: byte_of_def)
next
  case (Suc n)
  then show ?case by (auto simp: bit_put_slot less_Suc_eq) (auto simp: put_slot_def)
qed

lemma fold_insert_if:
  "fold (\<lambda>x s. if P x then insert x s else s) xs S = S \<union> {x \<in> set xs. P x}"
  by (induction xs arbitrary: S) auto

lemma slots_from_bytes_eq:
  "slots_from_bytes s =
     (if length s = kSlotBytes
      then Some {slot. slot < kSlots \<and> bit (byte_of (s ! (slot div 8)) :: u8) (slot mod 8)} else None)"
  by (auto simp: slots_from_bytes_def fold_insert_if and_exp_eq_0_iff_not_bit push_bit_of_1)

lemma slots_roundtrip [codec_simps]:
  assumes "slots \<subseteq> {..<kSlots}"
  shows "slots_from_bytes (slots_to_bytes slots) = Some slots"
proof -
  note * = slots_to_bytes_upt [of kSlots slots, folded slots_to_bytes_def, OF order_refl]
  have "bit (byte_of (slots_to_bytes slots ! (slot div 8)) :: u8) (slot mod 8) \<longleftrightarrow> slot \<in> slots"
    if "slot < kSlots" for slot
  proof -
    have "slot div 8 < kSlotBytes" using that by (simp add: kSlotBytes_def kSlots_def)
    with * that show ?thesis by simp
  qed
  with * assms show ?thesis by (auto simp: slots_from_bytes_eq)
qed

lemma length_slots_to_bytes: "length (slots_to_bytes slots) = kSlotBytes"
  using slots_to_bytes_upt [of kSlots slots, folded slots_to_bytes_def, OF order_refl] by blast

lemma slots_from_bytes_range: "slots_from_bytes s = Some slots \<Longrightarrow> slots \<subseteq> {..<kSlots}"
  by (auto simp: slots_from_bytes_eq split: if_splits)

section \<open>Well-formed messages\<close>

definition gossip_ok :: "gossip_entry \<Rightarrow> bool" where
  "gossip_ok g \<longleftrightarrow> valid_node_id (g_id g) \<and> g_port g \<noteq> 0 \<and> g_cport g \<noteq> 0"

text \<open>Only the parts that belong to the type of a message may be filled in.\<close>

definition message_ok :: "message \<Rightarrow> bool" where
  "message_ok msg \<longleftrightarrow>
     valid_node_id (msg_sender msg) \<and> msg_port msg \<noteq> 0 \<and> msg_cport msg \<noteq> 0 \<and>
     (msg_master_id msg = [] \<or> valid_node_id (msg_master_id msg)) \<and> msg_slots msg \<subseteq> {..<kSlots} \<and>
     (if msg_type msg = kUpdate
      then valid_node_id (msg_update_id msg) \<and> msg_update_slots msg \<subseteq> {..<kSlots}
      else msg_update_id msg = [] \<and> msg_update_epoch msg = 0 \<and> msg_update_slots msg = {}) \<and>
     (if msg_type msg = kFail then valid_node_id (msg_fail_id msg) else msg_fail_id msg = []) \<and>
     (if msg_type msg = kUpdate \<or> msg_type msg = kFail \<or> header_only (msg_type msg)
      then msg_gossip msg = [] else list_all gossip_ok (msg_gossip msg))"

text \<open>What the wire cannot carry: both health flags of one node, and more than \<open>2 ^ 64\<close> nodes.\<close>

definition gossip_printable :: "gossip_entry list \<Rightarrow> bool" where
  "gossip_printable gs \<longleftrightarrow> list_all (\<lambda>g. \<not> (g_fail g \<and> g_pfail g)) gs \<and> length gs \<le> uint64_max"

lemma decode_gossip_entry_fields [codec_simps]:
  "gossip_ok g \<Longrightarrow> \<not> (g_fail g \<and> g_pfail g) \<Longrightarrow> decode_gossip_entry (gossip_fields g @ rest) = Some g"
  by (cases g) (simp add: decode_gossip_entry_def gossip_fields_def gossip_ok_def codec_simps numeral_nat)

lemma decode_gossip_fields [codec_simps]:
  "list_all gossip_ok gs \<Longrightarrow> list_all (\<lambda>g. \<not> (g_fail g \<and> g_pfail g)) gs \<Longrightarrow>
     decode_gossip (length gs) (concat (map gossip_fields gs)) = Some gs"
proof (induction gs)
  case (Cons g gs)
  have "drop kGossipFields (gossip_fields g @ xs) = xs" for xs
    by (simp add: kGossipFields_def gossip_fields_def)
  with Cons show ?case by (simp add: codec_simps)
qed simp

lemma length_gossip_fields: "length (concat (map gossip_fields gs)) = length gs * kGossipFields"
  by (induction gs) (simp_all add: gossip_fields_def kGossipFields_def)

lemma valid_node_id_not_Nil: "\<not> valid_node_id []"
  by (simp add: valid_node_id_def kNodeIdLength_def)

lemma valid_node_id_not_dash: "\<not> valid_node_id ''-''"
  by (simp add: valid_node_id_def kNodeIdLength_def)

definition header_of :: "message \<Rightarrow> message" where
  "header_of msg =
     msg\<lparr>msg_gossip := [], msg_update_id := [], msg_update_epoch := 0, msg_update_slots := {}, msg_fail_id := []\<rparr>"

lemma decode_header_encoded:
  "message_ok msg \<Longrightarrow> decode_header (encode_argv msg) = Some (header_of msg)"
  by (cases msg) (auto simp: decode_header_def encode_argv_def encode_header_def kHeaderFields_def codec_simps
      message_ok_def header_of_def empty_message_def valid_node_id_not_dash)

lemma drop_header_encoded: "drop kHeaderFields (encode_argv msg) = encode_body msg"
  by (simp add: encode_argv_def encode_header_def kHeaderFields_def)

lemma decode_encode_argv:
  assumes "message_ok msg" "gossip_printable (msg_gossip msg)"
  shows "decode (encode_argv msg) = Some msg"
proof -
  have t: "msg_type (header_of msg) = msg_type msg" by (simp add: header_of_def)
  have "decode_body (drop kHeaderFields (encode_argv msg)) (header_of msg) = Some msg"
    unfolding drop_header_encoded encode_body_def decode_body_def t
    using assms length_gossip_fields [of "msg_gossip msg"]
    by (cases msg) (auto simp: message_ok_def gossip_printable_def header_of_def codec_simps
        parse_uint_to_string header_only_def kGossipFields_def)
  then show ?thesis by (simp add: decode_def decode_header_encoded [OF assms(1)])
qed

text \<open>What the decoder accepts.\<close>

lemma parse_port_nonzero: "parse_port s = Some p \<Longrightarrow> p \<noteq> 0"
  by (auto simp: parse_port_def split: option.splits if_splits)

lemma parse_flags_loop_keeps:
  "parse_flags_loop s c g = Some h \<Longrightarrow> g_id h = g_id g \<and> g_port h = g_port g \<and> g_cport h = g_cport g"
  by (induction s c g rule: parse_flags_loop.induct) (auto simp: Let_def split: if_splits)

lemma decode_gossip_entry_ok: "decode_gossip_entry f = Some g \<Longrightarrow> gossip_ok g"
  by (auto simp: decode_gossip_entry_def parse_gossip_flags_def gossip_ok_def Let_def
      bind_eq_Some_conv dest!: parse_flags_loop_keeps parse_port_nonzero split: if_splits)

lemma decode_gossip_ok: "decode_gossip n f = Some gs \<Longrightarrow> list_all gossip_ok gs \<and> length gs = n"
  by (induction n f arbitrary: gs rule: decode_gossip.induct)
    (auto simp: bind_eq_Some_conv dest: decode_gossip_entry_ok)

lemma decode_header_ok:
  assumes "decode_header argv = Some msg"
  shows "valid_node_id (argv ! 1)" "msg_port msg \<noteq> 0" "msg_cport msg \<noteq> 0"
    "msg_master_id msg = [] \<or> valid_node_id (msg_master_id msg)" "msg_slots msg \<subseteq> {..<kSlots}"
    "msg_gossip msg = []" "msg_update_id msg = []" "msg_update_epoch msg = 0" "msg_update_slots msg = {}"
    "msg_fail_id msg = []" "msg_sender msg = argv ! 1" "11 \<le> length argv"
proof -
  obtain t port cport replica slots e1 e2 e3 e4 where
    "valid_node_id (argv ! 1)" "parse_port (argv ! 2) = Some port" "parse_port (argv ! 3) = Some cport"
    "slots_from_bytes (argv ! 10) = Some slots" "argv ! 5 = ''-'' \<or> valid_node_id (argv ! 5)"
    "11 \<le> length argv"
    "msg = empty_message\<lparr>msg_type := t, msg_sender := argv ! 1, msg_port := port,
          msg_cport := cport, msg_replica := replica,
          msg_master_id := (if argv ! 5 \<noteq> ''-'' then argv ! 5 else []),
          msg_current_epoch := e1, msg_config_epoch := e2,
          msg_repl_offset := e3, msg_mflags := e4, msg_slots := slots\<rparr>"
    using assms
    by (force simp: decode_header_def bind_eq_Some_conv kHeaderFields_def simp del: not_Some_eq split: if_split_asm)
  then show "valid_node_id (argv ! 1)" "msg_port msg \<noteq> 0" "msg_cport msg \<noteq> 0"
    "msg_master_id msg = [] \<or> valid_node_id (msg_master_id msg)" "msg_slots msg \<subseteq> {..<kSlots}"
    "msg_gossip msg = []" "msg_update_id msg = []" "msg_update_epoch msg = 0" "msg_update_slots msg = {}"
    "msg_fail_id msg = []" "msg_sender msg = argv ! 1" "11 \<le> length argv"
    by (auto simp: parse_port_nonzero slots_from_bytes_range empty_message_def)
qed

section \<open>Properties\<close>

text \<open>
  C12: a bus message survives the wire. Encoding a well-formed message behind whatever is already
  queued, parsing the stream and decoding the array gives back exactly that message and leaves the
  rest of the stream, for all eight message types, every field and every set of slots.
\<close>

theorem cluster_msg_roundtrip:
  assumes "message_ok msg" "gossip_printable (msg_gossip msg)" "fits (encode_argv msg)"
  shows "encode msg out = out @ encode msg [] \<and>
    (let r = try_parse_command (encode msg [] @ rest) in
     pr_status r = kComplete \<and> decode (pr_command r) = Some msg \<and> pr_buffer r = rest)"
  using decode_encode_argv [OF assms(1,2)] try_parse_roundtrip [OF assms(3), of rest]
  by (simp add: encode_def reply_command_eq [of out] reply_command_eq [of "[]"])

theorem cluster_msg_roundtrip_witness:
  "let msg = empty_message\<lparr>msg_type := kFailoverAuthAck, msg_sender := replicate 40 (CHR ''a''),
               msg_port := 7000, msg_cport := 17000, msg_current_epoch := 5, msg_slots := {0, 16383}\<rparr>;
       r = try_parse_command (encode msg [] @ ''*'')
   in pr_status r = kComplete \<and> decode (pr_command r) = Some msg \<and> pr_buffer r = ''*''"
proof -
  let ?msg = "empty_message\<lparr>msg_type := kFailoverAuthAck, msg_sender := replicate 40 (CHR ''a''),
      msg_port := 7000, msg_cport := 17000, msg_current_epoch := 5, msg_slots := {0, 16383}\<rparr>"
  have "message_ok ?msg"
    by (simp add: message_ok_def empty_message_def valid_node_id_def kNodeIdLength_def kSlots_def
        header_only_def list_all_iff)
  moreover have "gossip_printable (msg_gossip ?msg)"
    by (simp add: gossip_printable_def empty_message_def)
  moreover have "fits (encode_argv ?msg)"
    by (simp add: fits_def encode_argv_def encode_header_def encode_body_def empty_message_def header_only_def
        length_slots_to_bytes kSlotBytes_def kSlots_def uint64_max_def to_string_nat.simps)
  ultimately show ?thesis using cluster_msg_roundtrip [of ?msg "[]" "''*''"] by (simp add: Let_def)
qed

text \<open>
  C18: the decoder only lets well-formed messages through. Whatever array of strings arrives on the
  bus, a message that is accepted has valid node ids, non-zero ports and slots below 16384, has
  nothing filled in that does not belong to its type, and repeats the sender and the number of
  gossip entries that the array states.
\<close>

theorem decode_only_well_formed:
  assumes "decode argv = Some msg"
  shows "message_ok msg \<and> msg_sender msg = argv ! 1 \<and>
    (msg_type msg \<in> {kPing, kPong, kMeet} \<longrightarrow> length argv = 12 + 5 * length (msg_gossip msg))"
proof -
  obtain h where h: "decode_header argv = Some h" and b': "decode_body (drop kHeaderFields argv) h = Some msg"
    using assms by (auto simp: decode_def bind_eq_Some_conv)
  obtain body where b: "decode_body body h = Some msg" and len: "length body = length argv - 11"
    using b' by (auto simp: kHeaderFields_def)
  note ok = decode_header_ok [OF h]
  consider (update) "msg_type h = kUpdate" | (fail) "msg_type h = kFail"
    | (header) "header_only (msg_type h)" | (gossip) "msg_type h \<in> {kPing, kPong, kMeet}"
    by (cases "msg_type h") (auto simp: header_only_def)
  then show ?thesis
  proof cases
    case update
    from update b have v: "valid_node_id (body ! 0)" by (simp add: decode_body_def split: if_split_asm)
    from update b obtain e sl where sl: "slots_from_bytes (body ! 2) = Some sl" and
      m: "msg = h\<lparr>msg_update_epoch := e, msg_update_slots := sl, msg_update_id := body ! 0\<rparr>"
      by (simp add: decode_body_def bind_eq_Some_conv split: if_split_asm) blast
    from m v slots_from_bytes_range [OF sl]
      ok update show ?thesis by (simp add: message_ok_def)
  next
    case fail
    then have "msg = h\<lparr>msg_fail_id := body ! 0\<rparr>" "valid_node_id (body ! 0)"
      using b by (auto simp: decode_body_def split: if_splits)
    with ok fail show ?thesis by (simp add: message_ok_def)
  next
    case header
    then have "msg = h" "msg_type h \<notin> {kUpdate, kFail, kPing, kPong, kMeet}"
      using b by (auto simp: decode_body_def header_only_def split: if_splits)
    with ok header show ?thesis by (simp add: message_ok_def)
  next
    case gossip
    then obtain gs where "msg = h\<lparr>msg_gossip := gs\<rparr>" "list_all gossip_ok gs"
        "length argv - 11 = 1 + length gs * 5"
      using b len by (auto simp: decode_body_def bind_eq_Some_conv header_only_def kGossipFields_def split: if_splits dest!: decode_gossip_ok)
    moreover from this ok have "length argv = 12 + 5 * length gs" by linarith
    moreover have "\<not> header_only (msg_type h)" "msg_type h \<noteq> kUpdate" "msg_type h \<noteq> kFail"
      using gossip by (auto simp: header_only_def)
    ultimately show ?thesis using ok by (simp add: message_ok_def)
  qed
qed

theorem decode_only_well_formed_witness:
  "\<exists>argv msg. decode argv = Some msg \<and> message_ok msg \<and> msg_sender msg = argv ! 1"
proof -
  let ?msg = "empty_message\<lparr>msg_type := kMfStart, msg_sender := replicate 40 (CHR ''a''),
      msg_port := 7000, msg_cport := 17000\<rparr>"
  have "decode (encode_argv ?msg) = Some ?msg"
    by (rule decode_encode_argv)
      (simp_all add: message_ok_def empty_message_def valid_node_id_def kNodeIdLength_def
        header_only_def list_all_iff gossip_printable_def)
  from this decode_only_well_formed [OF this] show ?thesis by blast
qed

end
