(* ===== verification/Client.thy ===== *)
theory Client
  imports Std_Lib
begin

text \<open>
  A connection of the event loop (\<^verbatim>\<open>client.hpp\<close>). The parser is its buffer, and an open
  snapshot file is what is left of it to read. Times are milliseconds of the steady clock.
\<close>

datatype repl_state = kNone | kWaitBgsaveStart | kWaitBgsaveEnd | kSendBulk | kOnline

record client =
  c_id :: u64
  c_addr :: bytes
  c_parser :: bytes
  c_out :: bytes
  c_write_interest :: bool
  c_pending_write :: bool
  c_close_after_flush :: bool
  c_closing :: bool
  c_blocked :: bool
  c_held_command :: "bytes list option"
  c_woff :: u64
  c_repl_state :: repl_state
  c_repl_listening_port :: u16
  c_repl_ack_offset :: u64
  c_repl_ack_time :: int
  c_repl_held :: bytes
  c_repl_snapshot :: "bytes option"
  c_asking :: bool
  c_readonly :: bool
  c_is_master :: bool
  c_last_interaction :: int

definition make_client :: "u64 \<Rightarrow> client" where
  "make_client cid =
     \<lparr>c_id = cid, c_addr = [], c_parser = [], c_out = [], c_write_interest = False,
      c_pending_write = False, c_close_after_flush = False, c_closing = False, c_blocked = False,
      c_held_command = None, c_woff = 0, c_repl_state = kNone, c_repl_listening_port = 0,
      c_repl_ack_offset = 0, c_repl_ack_time = 0, c_repl_held = [], c_repl_snapshot = None,
      c_asking = False, c_readonly = False, c_is_master = False, c_last_interaction = 0\<rparr>"

end
