(* ===== verification/Migrate.thy ===== *)
theory Migrate
  imports Std_Lib
begin

text \<open>
  The blocking request of MIGRATE (\<^verbatim>\<open>migrate.cpp\<close>). Whether the connection was made and what
  each call on the socket answered are arguments. A call that would block waits for the socket
  until the deadline: \<open>IoAgain\<close> is a wait that ended in time. When the list of answers ends, the
  deadline has passed.
\<close>

datatype 'a socket_io = IoData 'a | IoAgain | IoInterrupted | IoFailed

record migrate_io =
  mi_connected :: bool
  mi_sends :: "nat socket_io list"
  mi_reads :: "bytes socket_io list"

text \<open>The sending loop: whether the whole request of \<open>len\<close> bytes got out.\<close>

fun send_loop :: "nat \<Rightarrow> nat \<Rightarrow> nat socket_io list \<Rightarrow> bool" where
  "send_loop len sent results =
     (if sent < len then
        (case results of
           [] \<Rightarrow> False
         | IoData n # results \<Rightarrow> n > 0 \<and> send_loop len (sent + n) results
         | IoAgain # results \<Rightarrow> send_loop len sent results
         | IoInterrupted # results \<Rightarrow> send_loop len sent results
         | IoFailed # results \<Rightarrow> False)
      else True)"

declare send_loop.simps [simp del]

text \<open>The receiving loop, until \<open>expected\<close> lines have arrived.\<close>

function read_replies :: "nat \<Rightarrow> bytes \<Rightarrow> bytes list \<Rightarrow> bytes socket_io list \<Rightarrow> bool \<times> bytes list" where
  "read_replies expected buf replies results =
     (if length replies < expected then
        (case find_str crlf buf 0 of
           Some eol \<Rightarrow> read_replies expected (drop (eol + 2) buf) (replies @ [substr buf 0 eol]) results
         | None \<Rightarrow>
             (case results of
                [] \<Rightarrow> (False, replies)
              | IoData d # results \<Rightarrow>
                  if d \<noteq> [] then read_replies expected (buf @ d) replies results else (False, replies)
              | IoAgain # results \<Rightarrow> read_replies expected buf replies results
              | IoInterrupted # results \<Rightarrow> read_replies expected buf replies results
              | IoFailed # results \<Rightarrow> (False, replies)))
      else (True, replies))"
  by pat_completeness auto
termination
  by (relation "measures [\<lambda>(expected, buf, replies, results). expected - length replies,
      \<lambda>(expected, buf, replies, results). length results]") auto

declare read_replies.simps [simp del]

definition exchange :: "migrate_io \<Rightarrow> bytes \<Rightarrow> nat \<Rightarrow> bool \<times> bytes list \<times> bytes" where
  "exchange io request expected =
     (if \<not> mi_connected io then (False, [], ''IOERR error or timeout connecting to the client'')
      else
        let ok = send_loop (length request) 0 (mi_sends io);
            (ok, replies) = (if ok then read_replies expected [] [] (mi_reads io) else (False, []))
        in (ok, replies, if \<not> ok then ''IOERR error or timeout reading to target instance'' else []))"

text \<open>Never more replies than commands, and success means one for each.\<close>

lemma read_replies_length:
  "read_replies expected buf replies results = (ok, replies') \<Longrightarrow> length replies \<le> expected \<Longrightarrow>
     length replies' \<le> expected \<and> (ok \<longrightarrow> length replies' = expected)"
proof (induction expected buf replies results arbitrary: ok replies' rule: read_replies.induct)
  case (1 expected buf replies results)
  note IH = 1(1-4) and prems = 1(5,6)
  note unfolded = prems(1) [unfolded read_replies.simps [of expected buf replies results]]
  show ?case
  proof (cases "length replies < expected")
    case False
    then show ?thesis using unfolded prems(2) by simp
  next
    case True
    show ?thesis
    proof (cases "find_str crlf buf 0")
      case (Some eol)
      then show ?thesis using IH(4) [OF True Some] unfolded True by simp
    next
      case None
      then show ?thesis
        using IH(1-3) [OF True None] unfolded prems(2) True
        by (cases results rule: list.exhaust; cases "hd results") (auto split: if_splits)
    qed
  qed
qed

lemma exchange_length:
  "exchange io request expected = (ok, replies, err) \<Longrightarrow>
     length replies \<le> expected \<and> (ok \<longrightarrow> length replies = expected)"
  by (auto simp: exchange_def Let_def split: if_splits prod.splits dest: read_replies_length)

end
