(* ===== verification/Dispatcher.thy ===== *)
theory Dispatcher
  imports Store_Properties Resp Snapshot_Codec Client Migrate
begin

text \<open>
  Command semantics (\<^verbatim>\<open>command_dispatcher.hpp\<close>, \<^verbatim>\<open>command_dispatcher.cpp\<close>). The state
  is the store, the state \<open>'e\<close> of the other components the dispatcher points at, and the client
  that sent the command. Those components are called through the operations listed in
  \<open>services\<close>; a null pointer is \<^const>\<open>None\<close>. A handler takes the clock (\<open>clk i\<close> is its
  \<open>i\<close>th reading), the arguments and the output buffer, and returns the buffer and the state.

  The store reports deletions to its listener while an operation runs; here they are delivered
  when the operation returns, which is the same since the listener does not use the store.
\<close>

section \<open>State\<close>

type_synonym args = "bytes list"

datatype rewrite_start = kStarted | kScheduled | kError bytes

record 'e persistence_ops =
  po_loading :: "'e \<Rightarrow> bool"
  po_write_error :: "'e \<Rightarrow> bytes"
  po_count_change :: "'e \<Rightarrow> 'e"
  po_save :: "store \<Rightarrow> 'e \<Rightarrow> bytes option \<times> 'e"
  po_bgsave :: "store \<Rightarrow> 'e \<Rightarrow> bytes option \<times> 'e"
  po_bgrewriteaof :: "store \<Rightarrow> 'e \<Rightarrow> rewrite_start \<times> 'e"
  po_lastsave :: "'e \<Rightarrow> int"

record 'e replication_ops =
  ro_is_replica :: "'e \<Rightarrow> bool"
  ro_replicaof_no_one :: "store \<Rightarrow> 'e \<Rightarrow> store \<times> 'e"
  ro_replicaof :: "bytes \<Rightarrow> u16 \<Rightarrow> store \<Rightarrow> 'e \<Rightarrow> store \<times> 'e"
  ro_replconf_ack :: "u64 \<Rightarrow> client \<Rightarrow> 'e \<Rightarrow> client \<times> 'e"
  ro_replconf_getack :: "'e \<Rightarrow> 'e"
  ro_psync :: "bytes \<Rightarrow> int \<Rightarrow> store \<Rightarrow> client \<Rightarrow> bytes \<Rightarrow> 'e \<Rightarrow> bytes \<times> client \<times> 'e"
  ro_wait :: "int \<Rightarrow> int \<Rightarrow> client \<Rightarrow> bytes \<Rightarrow> 'e \<Rightarrow> bytes \<times> client \<times> 'e"
  ro_info :: "'e \<Rightarrow> bytes"

text \<open>\<open>route\<close> answers \<^const>\<open>None\<close> when the command may run here, and the error text otherwise.\<close>

record 'e cluster_ops =
  co_route :: "(nat \<Rightarrow> int) \<Rightarrow> bytes list \<Rightarrow> bool \<Rightarrow> bool \<Rightarrow> client \<Rightarrow> store \<Rightarrow> 'e \<Rightarrow>
    bytes option \<times> store \<times> 'e"
  co_command :: "(nat \<Rightarrow> int) \<Rightarrow> args \<Rightarrow> bytes \<Rightarrow> store \<Rightarrow> 'e \<Rightarrow> bytes \<times> store \<times> 'e"

record 'e services =
  sv_propagator :: "(args \<Rightarrow> 'e \<Rightarrow> 'e) option"
  sv_log_wanted :: "('e \<Rightarrow> bool) option"
  sv_persistence :: "'e persistence_ops option"
  sv_replication :: "'e replication_ops option"
  sv_cluster :: "'e cluster_ops option"
  sv_on_deleted :: "bytes \<Rightarrow> 'e \<Rightarrow> 'e"
  sv_migrate_io :: migrate_io

record 'e disp =
  d_store :: store
  d_env :: 'e
  d_client :: "client option"

type_synonym 'e handler = "'e services \<Rightarrow> (nat \<Rightarrow> int) \<Rightarrow> args \<Rightarrow> bytes \<Rightarrow> 'e disp \<Rightarrow> bytes \<times> 'e disp"

definition deliver :: "'e services \<Rightarrow> 'e disp \<Rightarrow> 'e disp" where
  "deliver sv d =
     d\<lparr>d_env := fold (sv_on_deleted sv) (st_notified (d_store d)) (d_env d),
       d_store := (d_store d)\<lparr>st_notified := []\<rparr>\<rparr>"

definition st_call :: "'e services \<Rightarrow> (store \<Rightarrow> 'r \<times> store) \<Rightarrow> 'e disp \<Rightarrow> 'r \<times> 'e disp" where
  "st_call sv f d = (case f (d_store d) of (r, st) \<Rightarrow> (r, deliver sv (d\<lparr>d_store := st\<rparr>)))"

definition st_do :: "'e services \<Rightarrow> (store \<Rightarrow> store) \<Rightarrow> 'e disp \<Rightarrow> 'e disp" where
  "st_do sv f d = deliver sv (d\<lparr>d_store := f (d_store d)\<rparr>)"

section \<open>Helpers\<close>

definition kErrNotInteger :: bytes where
  "kErrNotInteger = ''ERR value is not an integer or out of range''"
definition kErrIncrOverflow :: bytes where
  "kErrIncrOverflow = ''ERR increment or decrement would overflow''"
definition kErrSyntax :: bytes where
  "kErrSyntax = ''ERR syntax error''"
definition kErrOom :: bytes where
  "kErrOom = ''OOM command not allowed when used memory > '' @ [CHR 0x27] @ ''maxmemory'' @ [CHR 0x27] @ ''.''"
definition kErrNoPersistence :: bytes where
  "kErrNoPersistence = ''ERR persistence is not enabled on this server''"
definition kErrNoReplication :: bytes where
  "kErrNoReplication = ''ERR replication is not available here''"
definition kErrReadOnly :: bytes where
  "kErrReadOnly = ''READONLY You can'' @ [CHR 0x27] @ ''t write against a read only replica.''"

definition quoted :: "bytes \<Rightarrow> bytes" where
  "quoted s = [CHR 0x27] @ s @ [CHR 0x27]"

definition sanitize_for_error :: "bytes \<Rightarrow> bytes" where
  "sanitize_for_error s = map (\<lambda>c. if c = CHR 0x0D \<or> c = CHR 0x0A then CHR '' '' else c) s"

definition parse_canonical_int64 :: "bytes \<Rightarrow> int option" where
  "parse_canonical_int64 s =
     (case parse_int64 s of Some v \<Rightarrow> if to_string_int v = s then Some v else None | None \<Rightarrow> None)"

definition in_int64 :: "int \<Rightarrow> bool" where
  "in_int64 z \<longleftrightarrow> int64_min \<le> z \<and> z \<le> int64_max"

definition deadline_from :: "int \<Rightarrow> int \<Rightarrow> int \<Rightarrow> int option" where
  "deadline_from now amount unit_ms =
     (let delta = amount * unit_ms in
      if \<not> in_int64 delta \<or> \<not> in_int64 (now + delta) then None else Some (now + delta))"

definition loading :: "'e services \<Rightarrow> 'e \<Rightarrow> bool" where
  "loading sv e = (case sv_persistence sv of None \<Rightarrow> False | Some po \<Rightarrow> po_loading po e)"

definition propagate :: "'e services \<Rightarrow> args \<Rightarrow> 'e disp \<Rightarrow> 'e disp" where
  "propagate sv argv d =
     (case sv_propagator sv of None \<Rightarrow> d | Some p \<Rightarrow> d\<lparr>d_env := p argv (d_env d)\<rparr>)"

definition count_unlogged_write :: "'e services \<Rightarrow> 'e disp \<Rightarrow> 'e disp" where
  "count_unlogged_write sv d =
     (case (sv_propagator sv, sv_persistence sv) of
        (Some _, Some po) \<Rightarrow> d\<lparr>d_env := po_count_change po (d_env d)\<rparr>
      | _ \<Rightarrow> d)"

definition propagate_built :: "'e services \<Rightarrow> args \<Rightarrow> 'e disp \<Rightarrow> 'e disp" where
  "propagate_built sv built d =
     (if sv_propagator sv \<noteq> None \<and> (case sv_log_wanted sv of None \<Rightarrow> True | Some wanted \<Rightarrow> wanted (d_env d))
      then propagate sv built d else count_unlogged_write sv d)"

definition arity_ok :: "int \<Rightarrow> nat \<Rightarrow> bool" where
  "arity_ok arity argc = (if arity \<ge> 0 then argc = nat arity else argc \<ge> nat (- arity))"

section \<open>Data commands\<close>

definition cmd_ping :: "'e handler" where
  "cmd_ping sv clk argv out d =
     (if length argv = 1 then (reply_simple_string out ''PONG'', d)
      else if length argv = 2 then (reply_bulk_string out (argv ! 1), d)
      else (reply_error out (''ERR wrong number of arguments for '' @ quoted ''ping'' @ '' command''), d))"

definition cmd_echo :: "'e handler" where
  "cmd_echo sv clk argv out d = (reply_bulk_string out (argv ! 1), d)"

record set_opts =
  so_nx :: bool
  so_xx :: bool
  so_keep_ttl :: bool
  so_expire_at :: "int option"

text \<open>The options of SET from an index on: the text of the error, or what they ask for.\<close>

fun set_options :: "int \<Rightarrow> args \<Rightarrow> set_opts \<Rightarrow> bytes + set_opts" where
  "set_options now [] so = Inr so"
| "set_options now (arg # rest) so =
     (let opt = to_upper arg in
      if opt = ''NX'' \<and> \<not> so_xx so then set_options now rest (so\<lparr>so_nx := True\<rparr>)
      else if opt = ''XX'' \<and> \<not> so_nx so then set_options now rest (so\<lparr>so_xx := True\<rparr>)
      else if opt = ''KEEPTTL'' \<and> so_expire_at so = None
        then set_options now rest (so\<lparr>so_keep_ttl := True\<rparr>)
      else if opt \<in> {''EX'', ''PX'', ''EXAT'', ''PXAT''} \<and> \<not> so_keep_ttl so \<and> so_expire_at so = None \<and>
          rest \<noteq> [] then
        (case parse_int64 (hd rest) of
           None \<Rightarrow> Inl kErrNotInteger
         | Some amount \<Rightarrow>
             (let relative = (opt = ''EX'' \<or> opt = ''PX'');
                  unit_ms = (if opt = ''EX'' \<or> opt = ''EXAT'' then 1000 else 1);
                  expire_at = (if amount > 0
                               then deadline_from (if relative then now else 0) amount unit_ms else None)
              in if expire_at = None
                 then Inl (''ERR invalid expire time in '' @ quoted ''set'' @ '' command'')
                 else set_options now (tl rest) (so\<lparr>so_expire_at := expire_at\<rparr>)))
      else Inl kErrSyntax)"

definition cmd_set :: "'e handler" where
  "cmd_set sv clk argv out d =
     (case set_options (clk 0) (drop 3 argv)
             \<lparr>so_nx = False, so_xx = False, so_keep_ttl = False, so_expire_at = None\<rparr> of
        Inl err \<Rightarrow> (reply_error out err, d)
      | Inr so \<Rightarrow>
          (let (exists, d) = (if so_nx so \<or> so_xx so then st_call sv (store_exists (clk 1) (argv ! 1)) d
                              else (False, d))
           in if so_nx so \<and> exists \<or> so_xx so \<and> \<not> exists then (reply_null_bulk out, d)
              else
                let d = st_do sv (store_set (clk 2) (argv ! 1) (argv ! 2) (so_keep_ttl so)) d;
                    d = (case so_expire_at so of
                           None \<Rightarrow> d
                         | Some w \<Rightarrow> snd (st_call sv (store_set_expire (clk 3) (clk 4) (argv ! 1) w) d));
                    d = propagate_built sv
                          ([''SET'', argv ! 1, argv ! 2] @
                           (case so_expire_at so of
                              Some w \<Rightarrow> [''PXAT'', to_string_int w]
                            | None \<Rightarrow> if so_keep_ttl so then [''KEEPTTL''] else [])) d
                in (reply_simple_string out ''OK'', d)))"

definition cmd_get :: "'e handler" where
  "cmd_get sv clk argv out d =
     (case st_call sv (store_get (clk 0) (argv ! 1)) d of
        (Some value, d) \<Rightarrow> (reply_bulk_string out value, d)
      | (None, d) \<Rightarrow> (reply_null_bulk out, d))"

text \<open>The loop of DEL over the keys, and the one of EXISTS; \<open>n\<close> counts the hits.\<close>

fun del_loop :: "'e services \<Rightarrow> (nat \<Rightarrow> int) \<Rightarrow> nat \<Rightarrow> args \<Rightarrow> int \<Rightarrow> 'e disp \<Rightarrow> int \<times> 'e disp" where
  "del_loop sv clk i [] n d = (n, d)"
| "del_loop sv clk i (key # keys) n d =
     (case st_call sv (store_del (clk i) key) d of
        (live, d) \<Rightarrow> del_loop sv clk (Suc i) keys (if live then n + 1 else n) d)"

definition cmd_del :: "'e handler" where
  "cmd_del sv clk argv out d =
     (case del_loop sv clk 0 (tl argv) 0 d of
        (removed, d) \<Rightarrow> (reply_integer out removed, if removed > 0 then propagate sv argv d else d))"

fun exists_loop :: "'e services \<Rightarrow> (nat \<Rightarrow> int) \<Rightarrow> nat \<Rightarrow> args \<Rightarrow> int \<Rightarrow> 'e disp \<Rightarrow> int \<times> 'e disp" where
  "exists_loop sv clk i [] n d = (n, d)"
| "exists_loop sv clk i (key # keys) n d =
     (case st_call sv (store_exists (clk i) key) d of
        (found, d) \<Rightarrow> exists_loop sv clk (Suc i) keys (if found then n + 1 else n) d)"

definition cmd_exists :: "'e handler" where
  "cmd_exists sv clk argv out d =
     (case exists_loop sv clk 0 (tl argv) 0 d of (found, d) \<Rightarrow> (reply_integer out found, d))"

definition incr_by :: "'e services \<Rightarrow> (nat \<Rightarrow> int) \<Rightarrow> bytes \<Rightarrow> int \<Rightarrow> bytes \<Rightarrow> 'e disp \<Rightarrow> bytes \<times> 'e disp" where
  "incr_by sv clk key delta out d =
     (case st_call sv (store_get (clk 0) key) d of
        (current, d) \<Rightarrow>
          (case (case current of None \<Rightarrow> Some 0 | Some text \<Rightarrow> parse_canonical_int64 text) of
             None \<Rightarrow> (reply_error out kErrNotInteger, d)
           | Some value \<Rightarrow>
               if \<not> in_int64 (value + delta) then (reply_error out kErrIncrOverflow, d)
               else
                 let text = to_string_int (value + delta);
                     d = st_do sv (store_set (clk 1) key text True) d;
                     d = propagate_built sv [''SET'', key, text, ''KEEPTTL''] d
                 in (reply_integer out (value + delta), d)))"

definition cmd_incr :: "'e handler" where
  "cmd_incr sv clk argv out d = incr_by sv clk (argv ! 1) 1 out d"

definition cmd_decr :: "'e handler" where
  "cmd_decr sv clk argv out d = incr_by sv clk (argv ! 1) (- 1) out d"

definition cmd_incrby :: "'e handler" where
  "cmd_incrby sv clk argv out d =
     (case parse_int64 (argv ! 2) of
        None \<Rightarrow> (reply_error out kErrNotInteger, d)
      | Some delta \<Rightarrow> incr_by sv clk (argv ! 1) delta out d)"

definition cmd_decrby :: "'e handler" where
  "cmd_decrby sv clk argv out d =
     (case parse_int64 (argv ! 2) of
        None \<Rightarrow> (reply_error out kErrNotInteger, d)
      | Some delta \<Rightarrow>
          if delta = int64_min then (reply_error out ''ERR decrement would overflow'', d)
          else incr_by sv clk (argv ! 1) (- delta) out d)"

definition expire_generic ::
  "'e services \<Rightarrow> (nat \<Rightarrow> int) \<Rightarrow> args \<Rightarrow> int \<Rightarrow> bool \<Rightarrow> bytes \<Rightarrow> bytes \<Rightarrow> 'e disp \<Rightarrow> bytes \<times> 'e disp" where
  "expire_generic sv clk argv unit_ms relative name out d =
     (case parse_int64 (argv ! 2) of
        None \<Rightarrow> (reply_error out kErrNotInteger, d)
      | Some amount \<Rightarrow>
          (let now = clk 0 in
           case deadline_from (if relative then now else 0) amount unit_ms of
             None \<Rightarrow> (reply_error out (''ERR invalid expire time in '' @ quoted name @ '' command''), d)
           | Some w \<Rightarrow>
               (case st_call sv (store_set_expire (clk 1) (clk 2) (argv ! 1) w) d of
                  (False, d) \<Rightarrow> (reply_integer out 0, d)
                | (True, d) \<Rightarrow>
                    (reply_integer out 1,
                     propagate_built sv
                       (if w \<le> now then [''DEL'', argv ! 1]
                        else [''PEXPIREAT'', argv ! 1, to_string_int w]) d))))"

definition cmd_expire :: "'e handler" where
  "cmd_expire sv clk argv out d = expire_generic sv clk argv 1000 True ''expire'' out d"

definition cmd_pexpire :: "'e handler" where
  "cmd_pexpire sv clk argv out d = expire_generic sv clk argv 1 True ''pexpire'' out d"

definition cmd_expireat :: "'e handler" where
  "cmd_expireat sv clk argv out d = expire_generic sv clk argv 1000 False ''expireat'' out d"

definition cmd_pexpireat :: "'e handler" where
  "cmd_pexpireat sv clk argv out d = expire_generic sv clk argv 1 False ''pexpireat'' out d"

definition cmd_ttl :: "'e handler" where
  "cmd_ttl sv clk argv out d =
     (case st_call sv (store_pttl (clk 0) (clk 1) (argv ! 1)) d of
        (ms, d) \<Rightarrow> (reply_integer out (if ms < 0 then ms else (ms + 500) div 1000), d))"

definition cmd_pttl :: "'e handler" where
  "cmd_pttl sv clk argv out d =
     (case st_call sv (store_pttl (clk 0) (clk 1) (argv ! 1)) d of (ms, d) \<Rightarrow> (reply_integer out ms, d))"

definition cmd_persist :: "'e handler" where
  "cmd_persist sv clk argv out d =
     (case st_call sv (store_persist (clk 0) (argv ! 1)) d of
        (False, d) \<Rightarrow> (reply_integer out 0, d)
      | (True, d) \<Rightarrow> (reply_integer out 1, propagate sv argv d))"

definition cmd_dbsize :: "'e handler" where
  "cmd_dbsize sv clk argv out d = (reply_integer out (int (store_size (d_store d))), d)"

section \<open>Persistence and replication commands\<close>

definition cmd_save :: "'e handler" where
  "cmd_save sv clk argv out d =
     (case sv_persistence sv of
        None \<Rightarrow> (reply_error out kErrNoPersistence, d)
      | Some po \<Rightarrow>
          (case po_save po (d_store d) (d_env d) of
             (None, e) \<Rightarrow> (reply_simple_string out ''OK'', d\<lparr>d_env := e\<rparr>)
           | (Some err, e) \<Rightarrow> (reply_error out err, d\<lparr>d_env := e\<rparr>)))"

definition cmd_bgsave :: "'e handler" where
  "cmd_bgsave sv clk argv out d =
     (case sv_persistence sv of
        None \<Rightarrow> (reply_error out kErrNoPersistence, d)
      | Some po \<Rightarrow>
          (case po_bgsave po (d_store d) (d_env d) of
             (None, e) \<Rightarrow> (reply_simple_string out ''Background saving started'', d\<lparr>d_env := e\<rparr>)
           | (Some err, e) \<Rightarrow> (reply_error out err, d\<lparr>d_env := e\<rparr>)))"

definition cmd_bgrewriteaof :: "'e handler" where
  "cmd_bgrewriteaof sv clk argv out d =
     (case sv_persistence sv of
        None \<Rightarrow> (reply_error out kErrNoPersistence, d)
      | Some po \<Rightarrow>
          (case po_bgrewriteaof po (d_store d) (d_env d) of
             (kStarted, e) \<Rightarrow>
               (reply_simple_string out ''Background append only file rewriting started'', d\<lparr>d_env := e\<rparr>)
           | (kScheduled, e) \<Rightarrow>
               (reply_simple_string out ''Background append only file rewriting scheduled'', d\<lparr>d_env := e\<rparr>)
           | (kError err, e) \<Rightarrow> (reply_error out err, d\<lparr>d_env := e\<rparr>)))"

definition cmd_lastsave :: "'e handler" where
  "cmd_lastsave sv clk argv out d =
     (case sv_persistence sv of
        None \<Rightarrow> (reply_error out kErrNoPersistence, d)
      | Some po \<Rightarrow> (reply_integer out (po_lastsave po (d_env d)), d))"

definition valid_port :: "int \<Rightarrow> bool" where
  "valid_port port \<longleftrightarrow> \<not> (port \<le> 0 \<or> port > 65535)"

definition cmd_replicaof :: "'e handler" where
  "cmd_replicaof sv clk argv out d =
     (case sv_replication sv of
        None \<Rightarrow> (reply_error out kErrNoReplication, d)
      | Some ro \<Rightarrow>
          if sv_cluster sv \<noteq> None then (reply_error out ''ERR REPLICAOF not allowed in cluster mode.'', d)
          else if to_upper (argv ! 1) = ''NO'' \<and> to_upper (argv ! 2) = ''ONE'' then
            (case ro_replicaof_no_one ro (d_store d) (d_env d) of
               (st, e) \<Rightarrow> (reply_simple_string out ''OK'', deliver sv (d\<lparr>d_store := st, d_env := e\<rparr>)))
          else
            (case parse_int64 (argv ! 2) of
               None \<Rightarrow> (reply_error out ''ERR Invalid master port'', d)
             | Some port \<Rightarrow>
                 if \<not> valid_port port then (reply_error out ''ERR Invalid master port'', d)
                 else (case ro_replicaof ro (argv ! 1) (of_int port) (d_store d) (d_env d) of
                         (st, e) \<Rightarrow>
                           (reply_simple_string out ''OK'', deliver sv (d\<lparr>d_store := st, d_env := e\<rparr>)))))"

text \<open>The loop over the pairs of REPLCONF; the first argument is the rest of \<open>argv\<close>.\<close>

fun replconf_loop :: "'e services \<Rightarrow> args \<Rightarrow> bytes \<Rightarrow> 'e disp \<Rightarrow> bytes \<times> 'e disp" where
  "replconf_loop sv (arg # val # rest) out d =
     (let opt = to_upper arg in
      if opt = ''LISTENING-PORT'' then
        (case parse_int64 val of
           None \<Rightarrow> (reply_error out ''ERR Invalid listening port'', d)
         | Some port \<Rightarrow>
             if \<not> valid_port port then (reply_error out ''ERR Invalid listening port'', d)
             else replconf_loop sv rest out
                    (d\<lparr>d_client := map_option (\<lambda>c. c\<lparr>c_repl_listening_port := of_int port\<rparr>) (d_client d)\<rparr>))
      else if opt = ''CAPA'' then replconf_loop sv rest out d
      else if opt = ''ACK'' then
        (case (sv_replication sv, d_client d, parse_int64 val) of
           (Some ro, Some c, Some offset) \<Rightarrow>
             if offset \<ge> 0 then
               (case ro_replconf_ack ro (of_int offset) c (d_env d) of
                  (c, e) \<Rightarrow> (out, d\<lparr>d_client := Some c, d_env := e\<rparr>))
             else (out, d)
         | _ \<Rightarrow> (out, d))
      else if opt = ''GETACK'' then
        (case (sv_replication sv, d_client d) of
           (Some ro, Some c) \<Rightarrow>
             (out, if c_is_master c then d\<lparr>d_env := ro_replconf_getack ro (d_env d)\<rparr> else d)
         | _ \<Rightarrow> (out, d))
      else (reply_error out (''ERR Unrecognized REPLCONF option: '' @ sanitize_for_error arg), d))"
| "replconf_loop sv _ out d = (reply_simple_string out ''OK'', d)"

definition cmd_replconf :: "'e handler" where
  "cmd_replconf sv clk argv out d =
     (if length argv mod 2 = 0 then (reply_error out kErrSyntax, d)
      else replconf_loop sv (tl argv) out d)"

definition cmd_psync :: "'e handler" where
  "cmd_psync sv clk argv out d =
     (case (sv_replication sv, d_client d) of
        (Some ro, Some c) \<Rightarrow>
          (case parse_int64 (argv ! 2) of
             None \<Rightarrow> (reply_error out kErrNotInteger, d)
           | Some offset \<Rightarrow>
               (case ro_psync ro (argv ! 1) offset (d_store d) c out (d_env d) of
                  (out, c, e) \<Rightarrow> (out, d\<lparr>d_client := Some c, d_env := e\<rparr>)))
      | _ \<Rightarrow> (reply_error out kErrNoReplication, d))"

definition cmd_wait :: "'e handler" where
  "cmd_wait sv clk argv out d =
     (case (sv_replication sv, d_client d) of
        (Some ro, Some c) \<Rightarrow>
          (case (parse_int64 (argv ! 1), parse_int64 (argv ! 2)) of
             (Some numreplicas, Some timeout) \<Rightarrow>
               if timeout < 0 then (reply_error out ''ERR timeout is negative'', d)
               else (case ro_wait ro numreplicas timeout c out (d_env d) of
                       (out, c, e) \<Rightarrow> (out, d\<lparr>d_client := Some c, d_env := e\<rparr>))
           | _ \<Rightarrow> (reply_error out kErrNotInteger, d))
      | _ \<Rightarrow> (reply_error out kErrNoReplication, d))"

definition cmd_info :: "'e handler" where
  "cmd_info sv clk argv out d =
     (let sections = map to_upper (tl argv);
          wants_all = (length argv = 1 \<or> list_ex (\<lambda>s. s \<in> {''ALL'', ''DEFAULT'', ''EVERYTHING''}) sections);
          replication_wanted = list_ex (\<lambda>s. s = ''REPLICATION'') sections;
          cluster_wanted = list_ex (\<lambda>s. s = ''CLUSTER'') sections;
          text = (case sv_replication sv of
                    Some ro \<Rightarrow> if wants_all \<or> replication_wanted then ro_info ro (d_env d) else []
                  | None \<Rightarrow> []);
          text = (if wants_all \<or> cluster_wanted then
                    text @ (if text = [] then [] else crlf) @ ''# Cluster'' @ crlf @ ''cluster_enabled:'' @
                      (if sv_cluster sv \<noteq> None then ''1'' else ''0'') @ crlf
                  else text)
      in (reply_bulk_string out text, d))"

section \<open>Moving keys\<close>

definition cmd_dump :: "'e handler" where
  "cmd_dump sv clk argv out d =
     (case st_call sv (store_get (clk 0) (argv ! 1)) d of
        (Some value, d) \<Rightarrow> (reply_bulk_string out (dump_value value), d)
      | (None, d) \<Rightarrow> (reply_null_bulk out, d))"

text \<open>The options of RESTORE: \<^const>\<open>None\<close> is a syntax error, otherwise \<open>replace\<close> and \<open>absttl\<close>.\<close>

fun restore_options :: "args \<Rightarrow> bool \<Rightarrow> bool \<Rightarrow> (bool \<times> bool) option" where
  "restore_options [] replace absttl = Some (replace, absttl)"
| "restore_options (arg # rest) replace absttl =
     (let opt = to_upper arg in
      if opt = ''REPLACE'' then restore_options rest True absttl
      else if opt = ''ABSTTL'' then restore_options rest replace True
      else None)"

text \<open>The part of RESTORE that creates the key, once its value and its deadline are known.\<close>

definition restore_key ::
  "'e services \<Rightarrow> (nat \<Rightarrow> int) \<Rightarrow> bytes \<Rightarrow> bytes \<Rightarrow> int \<Rightarrow> int option \<Rightarrow> bytes \<Rightarrow> 'e disp \<Rightarrow> bytes \<times> 'e disp" where
  "restore_key sv clk key val now expire_at out d =
     (case expire_at of
        Some w \<Rightarrow>
          if w \<le> now then
            (case st_call sv (store_del (clk 2) key) d of
               (live, d) \<Rightarrow>
                 (reply_simple_string out ''OK'', if live then propagate sv [''DEL'', key] d else d))
          else
            let d = st_do sv (store_set (clk 2) key val False) d;
                d = snd (st_call sv (store_set_expire (clk 3) (clk 4) key w) d);
                d = propagate_built sv [''SET'', key, val, ''PXAT'', to_string_int w] d
            in (reply_simple_string out ''OK'', d)
      | None \<Rightarrow>
          let d = st_do sv (store_set (clk 2) key val False) d;
              d = propagate_built sv [''SET'', key, val] d
          in (reply_simple_string out ''OK'', d))"

definition cmd_restore :: "'e handler" where
  "cmd_restore sv clk argv out d =
     (case restore_options (drop 4 argv) False False of
        None \<Rightarrow> (reply_error out kErrSyntax, d)
      | Some (replace, absttl) \<Rightarrow>
          (case parse_int64 (argv ! 2) of
             None \<Rightarrow> (reply_error out ''ERR Invalid TTL value, must be >= 0'', d)
           | Some ttl \<Rightarrow>
               if ttl < 0 then (reply_error out ''ERR Invalid TTL value, must be >= 0'', d)
               else
                 let key = argv ! 1;
                     (busy, d) = (if \<not> replace then st_call sv (store_exists (clk 0) key) d else (False, d))
                 in if busy then (reply_error out ''BUSYKEY Target key name already exists.'', d)
                    else case restore_value (argv ! 3) of
                      None \<Rightarrow> (reply_error out ''ERR DUMP payload version or checksum are wrong'', d)
                    | Some val \<Rightarrow>
                        let now = clk 1;
                            expire_at =
                              (if ttl > 0 then
                                 Some (if absttl then ttl
                                       else case deadline_from now ttl 1 of Some w \<Rightarrow> w | None \<Rightarrow> int64_max)
                               else None)
                        in restore_key sv clk key val now expire_at out d))"

text \<open>The options of MIGRATE; \<open>key\<close> is the key argument.\<close>

fun migrate_options :: "bytes \<Rightarrow> args \<Rightarrow> bool \<Rightarrow> bool \<Rightarrow> bytes + bool \<times> bool \<times> bytes list" where
  "migrate_options key [] copy replace = Inr (copy, replace, [])"
| "migrate_options key (arg # rest) copy replace =
     (let opt = to_upper arg in
      if opt = ''COPY'' then migrate_options key rest True replace
      else if opt = ''REPLACE'' then migrate_options key rest copy True
      else if opt = ''KEYS'' then
        (if key \<noteq> [] then
           Inl ''ERR When using MIGRATE KEYS option, the key argument must be set to the empty string''
         else Inr (copy, replace, rest))
      else Inl kErrSyntax)"

text \<open>The loop that serialises the keys: the request and the keys in it.\<close>

fun migrate_request ::
  "'e services \<Rightarrow> (nat \<Rightarrow> int) \<Rightarrow> nat \<Rightarrow> bool \<Rightarrow> bytes list \<Rightarrow> bytes \<Rightarrow> bytes list \<Rightarrow> 'e disp \<Rightarrow>
     bytes \<times> bytes list \<times> 'e disp" where
  "migrate_request sv clk i replace [] request sent d = (request, sent, d)"
| "migrate_request sv clk i replace (key # keys) request sent d =
     (case st_call sv (store_get (clk i) key) d of
        (None, d) \<Rightarrow> migrate_request sv clk (i + 3) replace keys request sent d
      | (Some value, d) \<Rightarrow>
          (case st_call sv (store_pttl (clk (i + 1)) (clk (i + 2)) key) d of
             (pttl, d) \<Rightarrow>
               let restore = [''RESTORE-ASKING'', key, to_string_int (if pttl > 0 then pttl else 0),
                              dump_value value] @ (if replace then [''REPLACE''] else [])
               in migrate_request sv clk (i + 3) replace keys (reply_command request restore)
                    (sent @ [key]) d))"

text \<open>The loop over the replies: the target's first error and the keys that were deleted here.\<close>

fun migrate_replies ::
  "'e services \<Rightarrow> (nat \<Rightarrow> int) \<Rightarrow> nat \<Rightarrow> bool \<Rightarrow> (bytes \<times> bytes) list \<Rightarrow> bytes \<Rightarrow> bytes list \<Rightarrow> 'e disp \<Rightarrow>
     bytes \<times> bytes list \<times> 'e disp" where
  "migrate_replies sv clk i copy [] target_error deleted d = (target_error, deleted, d)"
| "migrate_replies sv clk i copy ((reply, key) # rest) target_error deleted d =
     (if reply \<noteq> [] \<and> reply ! 0 = CHR ''-'' then
        migrate_replies sv clk (Suc i) copy rest
          (if target_error = [] then drop 1 reply else target_error) deleted d
      else if copy then migrate_replies sv clk (Suc i) copy rest target_error deleted d
      else (case st_call sv (store_del (clk i) key) d of
              (live, d) \<Rightarrow>
                migrate_replies sv clk (Suc i) copy rest target_error
                  (if live then deleted @ [key] else deleted) d))"

text \<open>The transfer itself, once the arguments are known.\<close>

definition migrate_keys ::
  "'e services \<Rightarrow> (nat \<Rightarrow> int) \<Rightarrow> bool \<Rightarrow> bool \<Rightarrow> bytes list \<Rightarrow> bytes \<Rightarrow> 'e disp \<Rightarrow> bytes \<times> 'e disp" where
  "migrate_keys sv clk copy replace keys out d =
     (case migrate_request sv clk 0 replace keys [] [] d of
        (request, sent, d) \<Rightarrow>
          if sent = [] then (reply_simple_string out ''NOKEY'', d)
          else case exchange (sv_migrate_io sv) request (length sent) of
            (io_ok, replies, io_error) \<Rightarrow>
              (case migrate_replies sv clk (3 * length keys) copy (zip replies sent) [] [] d of
                 (target_error, deleted, d) \<Rightarrow>
                   (if \<not> io_ok then reply_error out io_error
                    else if target_error \<noteq> [] then
                      reply_error out (''ERR Target instance replied with error: '' @
                        sanitize_for_error target_error)
                    else reply_simple_string out ''OK'',
                    if deleted \<noteq> [] then propagate sv (''DEL'' # deleted) d else d)))"

definition cmd_migrate :: "'e handler" where
  "cmd_migrate sv clk argv out d =
     (case (parse_int64 (argv ! 2), parse_int64 (argv ! 4), parse_int64 (argv ! 5)) of
        (Some port, Some db, Some timeout) \<Rightarrow>
          if \<not> valid_port port then (reply_error out kErrNotInteger, d)
          else if db \<noteq> 0 then (reply_error out ''ERR DB index is out of range'', d)
          else
            (case migrate_options (argv ! 3) (drop 6 argv) False False of
               Inl err \<Rightarrow> (reply_error out err, d)
             | Inr (copy, replace, keys) \<Rightarrow>
                 migrate_keys sv clk copy replace (if keys = [] then [argv ! 3] else keys) out d)
      | _ \<Rightarrow> (reply_error out kErrNotInteger, d))"

section \<open>Cluster commands\<close>

definition cluster_disabled :: bytes where
  "cluster_disabled = ''ERR This instance has cluster support disabled''"

definition cmd_cluster :: "'e handler" where
  "cmd_cluster sv clk argv out d =
     (case sv_cluster sv of
        None \<Rightarrow> (reply_error out cluster_disabled, d)
      | Some co \<Rightarrow>
          (case co_command co clk argv out (d_store d) (d_env d) of
             (out, st, e) \<Rightarrow> (out, deliver sv (d\<lparr>d_store := st, d_env := e\<rparr>))))"

definition cmd_asking :: "'e handler" where
  "cmd_asking sv clk argv out d =
     (if sv_cluster sv = None then (reply_error out cluster_disabled, d)
      else (reply_simple_string out ''OK'', d\<lparr>d_client := map_option (c_asking_update (\<lambda>_. True)) (d_client d)\<rparr>))"

definition cmd_readonly :: "'e handler" where
  "cmd_readonly sv clk argv out d =
     (if sv_cluster sv = None then (reply_error out cluster_disabled, d)
      else (reply_simple_string out ''OK'', d\<lparr>d_client := map_option (c_readonly_update (\<lambda>_. True)) (d_client d)\<rparr>))"

definition cmd_readwrite :: "'e handler" where
  "cmd_readwrite sv clk argv out d =
     (if sv_cluster sv = None then (reply_error out cluster_disabled, d)
      else (reply_simple_string out ''OK'', d\<lparr>d_client := map_option (c_readonly_update (\<lambda>_. False)) (d_client d)\<rparr>))"

section \<open>The command table and dispatch\<close>

datatype flag = kWrite | kDenyOom | kAsking

record 'e command_spec =
  cs_name :: bytes
  cs_handler :: "'e handler"
  cs_arity :: int
  cs_flags :: "flag list"
  cs_first_key :: int
  cs_last_key :: int
  cs_key_step :: int

definition spec :: "bytes \<Rightarrow> 'e handler \<Rightarrow> int \<Rightarrow> flag list \<Rightarrow> int \<Rightarrow> int \<Rightarrow> int \<Rightarrow> 'e command_spec" where
  "spec name handler arity flags first_key last_key key_step =
     \<lparr>cs_name = name, cs_handler = handler, cs_arity = arity, cs_flags = flags,
      cs_first_key = first_key, cs_last_key = last_key, cs_key_step = key_step\<rparr>"

definition command_table :: "(bytes \<times> 'e command_spec) list" where
  "command_table =
     [(''PING'', spec ''ping'' cmd_ping (-1) [] 0 0 0),
      (''ECHO'', spec ''echo'' cmd_echo 2 [] 0 0 0),
      (''SET'', spec ''set'' cmd_set (-3) [kWrite, kDenyOom] 1 1 1),
      (''GET'', spec ''get'' cmd_get 2 [] 1 1 1),
      (''DEL'', spec ''del'' cmd_del (-2) [kWrite] 1 (-1) 1),
      (''EXISTS'', spec ''exists'' cmd_exists (-2) [] 1 (-1) 1),
      (''INCR'', spec ''incr'' cmd_incr 2 [kWrite, kDenyOom] 1 1 1),
      (''DECR'', spec ''decr'' cmd_decr 2 [kWrite, kDenyOom] 1 1 1),
      (''INCRBY'', spec ''incrby'' cmd_incrby 3 [kWrite, kDenyOom] 1 1 1),
      (''DECRBY'', spec ''decrby'' cmd_decrby 3 [kWrite, kDenyOom] 1 1 1),
      (''EXPIRE'', spec ''expire'' cmd_expire 3 [kWrite] 1 1 1),
      (''PEXPIRE'', spec ''pexpire'' cmd_pexpire 3 [kWrite] 1 1 1),
      (''EXPIREAT'', spec ''expireat'' cmd_expireat 3 [kWrite] 1 1 1),
      (''PEXPIREAT'', spec ''pexpireat'' cmd_pexpireat 3 [kWrite] 1 1 1),
      (''TTL'', spec ''ttl'' cmd_ttl 2 [] 1 1 1),
      (''PTTL'', spec ''pttl'' cmd_pttl 2 [] 1 1 1),
      (''PERSIST'', spec ''persist'' cmd_persist 2 [kWrite] 1 1 1),
      (''DBSIZE'', spec ''dbsize'' cmd_dbsize 1 [] 0 0 0),
      (''SAVE'', spec ''save'' cmd_save 1 [] 0 0 0),
      (''BGSAVE'', spec ''bgsave'' cmd_bgsave 1 [] 0 0 0),
      (''BGREWRITEAOF'', spec ''bgrewriteaof'' cmd_bgrewriteaof 1 [] 0 0 0),
      (''LASTSAVE'', spec ''lastsave'' cmd_lastsave 1 [] 0 0 0),
      (''REPLICAOF'', spec ''replicaof'' cmd_replicaof 3 [] 0 0 0),
      (''SLAVEOF'', spec ''slaveof'' cmd_replicaof 3 [] 0 0 0),
      (''REPLCONF'', spec ''replconf'' cmd_replconf (-3) [] 0 0 0),
      (''PSYNC'', spec ''psync'' cmd_psync 3 [] 0 0 0),
      (''WAIT'', spec ''wait'' cmd_wait 3 [] 0 0 0),
      (''INFO'', spec ''info'' cmd_info (-1) [] 0 0 0),
      (''DUMP'', spec ''dump'' cmd_dump 2 [] 1 1 1),
      (''RESTORE'', spec ''restore'' cmd_restore (-4) [kWrite, kDenyOom] 1 1 1),
      (''RESTORE-ASKING'', spec ''restore-asking'' cmd_restore (-4) [kWrite, kDenyOom, kAsking] 1 1 1),
      (''MIGRATE'', spec ''migrate'' cmd_migrate (-6) [kWrite] 0 0 0),
      (''CLUSTER'', spec ''cluster'' cmd_cluster (-2) [] 0 0 0),
      (''ASKING'', spec ''asking'' cmd_asking 1 [] 0 0 0),
      (''READONLY'', spec ''readonly'' cmd_readonly 1 [] 0 0 0),
      (''READWRITE'', spec ''readwrite'' cmd_readwrite 1 [] 0 0 0)]"

definition find_command :: "bytes \<Rightarrow> 'e command_spec option" where
  "find_command name = map_of command_table (to_upper name)"

definition is_write :: "args \<Rightarrow> bool" where
  "is_write argv =
     (case argv of
        [] \<Rightarrow> False
      | name # _ \<Rightarrow>
          (case (find_command name :: unit command_spec option) of
             None \<Rightarrow> False
           | Some sp \<Rightarrow> kWrite \<in> set (cs_flags sp)))"

text \<open>The arguments that are keys: from the first to the last, every \<open>key_step\<close>.\<close>

definition key_args :: "'e command_spec \<Rightarrow> args \<Rightarrow> bytes list" where
  "key_args sp argv =
     (let argc = int (length argv);
          last_key = (if cs_last_key sp < 0 then argc + cs_last_key sp else cs_last_key sp)
      in map (\<lambda>i. argv ! nat i)
           (filter (\<lambda>i. (i - cs_first_key sp) mod cs_key_step sp = 0)
              [cs_first_key sp .. min last_key (argc - 1)]))"

text \<open>
  The checks of \<open>dispatch\<close> that may answer instead of the handler, in order: redirection, read-only
  replica, failing persistence, memory. The result is \<^const>\<open>None\<close> only if eviction did not return;
  otherwise the reply if the command was refused, and the state.
\<close>

definition route_check ::
  "'e services \<Rightarrow> (nat \<Rightarrow> int) \<Rightarrow> 'e command_spec \<Rightarrow> args \<Rightarrow> bool \<Rightarrow> client option \<Rightarrow> 'e disp \<Rightarrow>
     bytes option \<times> 'e disp" where
  "route_check sv clk sp argv asking client d =
     (case (sv_cluster sv, client) of
        (Some co, Some c) \<Rightarrow>
          if \<not> c_is_master c \<and> cs_first_key sp > 0 then
            (case co_route co clk (key_args sp argv) (kWrite \<in> set (cs_flags sp))
                    (asking \<or> kAsking \<in> set (cs_flags sp)) c (d_store d) (d_env d) of
               (redirect, st, e) \<Rightarrow> (redirect, deliver sv (d\<lparr>d_store := st, d_env := e\<rparr>)))
          else (None, d)
      | _ \<Rightarrow> (None, d))"

definition write_check :: "'e services \<Rightarrow> 'e command_spec \<Rightarrow> bool \<Rightarrow> 'e disp \<Rightarrow> bytes option" where
  "write_check sv sp from_master d =
     (if kWrite \<in> set (cs_flags sp) \<and> \<not> from_master \<and>
         (case sv_replication sv of Some ro \<Rightarrow> ro_is_replica ro (d_env d) | None \<Rightarrow> False)
      then Some kErrReadOnly
      else case sv_persistence sv of
        None \<Rightarrow> None
      | Some po \<Rightarrow>
          if kWrite \<in> set (cs_flags sp) \<and> \<not> loading sv (d_env d) \<and> \<not> from_master \<and>
             po_write_error po (d_env d) \<noteq> []
          then Some (po_write_error po (d_env d)) else None)"

definition oom_check ::
  "'e services \<Rightarrow> 'e command_spec \<Rightarrow> bool \<Rightarrow> 'e disp \<Rightarrow> (bytes option \<times> 'e disp) option" where
  "oom_check sv sp from_master d =
     (if kDenyOom \<in> set (cs_flags sp) \<and> \<not> loading sv (d_env d) \<and> \<not> from_master then
        (case evict_if_needed (d_store d) of
           None \<Rightarrow> None
         | Some (ok, st) \<Rightarrow> Some (if ok then None else Some kErrOom, deliver sv (d\<lparr>d_store := st\<rparr>)))
      else Some (None, d))"

definition run_handler ::
  "'e services \<Rightarrow> (nat \<Rightarrow> int) \<Rightarrow> 'e command_spec \<Rightarrow> args \<Rightarrow> bytes \<Rightarrow> 'e disp \<Rightarrow> (bytes \<times> 'e disp) option" where
  "run_handler sv clk sp argv out d =
     (let from_master = (case d_client d of Some c \<Rightarrow> c_is_master c | None \<Rightarrow> False) in
      case write_check sv sp from_master d of
        Some err \<Rightarrow> Some (reply_error out err, d)
      | None \<Rightarrow>
          (case oom_check sv sp from_master d of
             None \<Rightarrow> None
           | Some (Some err, d) \<Rightarrow> Some (reply_error out err, d)
           | Some (None, d) \<Rightarrow> Some (cs_handler sp sv (\<lambda>i. clk (2 * i + 1)) argv out d)))"

text \<open>
  \<open>d_client d\<close> is the client that sent the command, as it is before and after the call.
\<close>

definition dispatch ::
  "'e services \<Rightarrow> (nat \<Rightarrow> int) \<Rightarrow> args \<Rightarrow> bytes \<Rightarrow> 'e disp \<Rightarrow> (bytes \<times> 'e disp) option" where
  "dispatch sv clk argv out d =
     (if argv = [] then Some (out, d)
      else
        let asking = (case d_client d of Some c \<Rightarrow> c_asking c | None \<Rightarrow> False);
            d = d\<lparr>d_client := map_option (c_asking_update (\<lambda>_. False)) (d_client d)\<rparr>
        in case find_command (argv ! 0) of
             None \<Rightarrow>
               Some (reply_error out (''ERR unknown command '' @ quoted (sanitize_for_error (argv ! 0))), d)
           | Some sp \<Rightarrow>
               if \<not> arity_ok (cs_arity sp) (length argv) then
                 Some (reply_error out (''ERR wrong number of arguments for '' @ quoted (cs_name sp) @ '' command''), d)
               else case route_check sv (\<lambda>i. clk (2 * i)) sp argv asking (d_client d) d of
                 (Some redirect, d) \<Rightarrow> Some (reply_error out redirect, d)
               | (None, d) \<Rightarrow> run_handler sv clk sp argv out d)"

end
