(* ===== verification/Replay.thy ===== *)
theory Replay
  imports Dispatcher
begin

text \<open>
  What the propagated commands mean. Every change of the dataset is handed to the propagator as a
  command that reproduces it: this theory gives that log a meaning on keyspaces, shows that
  executing a logged command has this meaning, and that whatever a command did to the keyspace is
  what its part of the log means. All clock readings are in a window in which no deadline passes.
\<close>

section \<open>Keyspaces in a window of time\<close>

type_synonym keyspace = "bytes \<rightharpoonup> bytes \<times> int option"

definition quiet :: "int \<Rightarrow> int \<Rightarrow> keyspace \<Rightarrow> bool" where
  "quiet lo hi m \<longleftrightarrow> (\<forall>k v w. m k = Some (v, Some w) \<longrightarrow> w \<le> lo \<or> hi < w)"

definition in_window :: "int \<Rightarrow> int \<Rightarrow> (nat \<Rightarrow> int) \<Rightarrow> bool" where
  "in_window lo hi clk \<longleftrightarrow> mono clk \<and> (\<forall>i. lo \<le> clk i \<and> clk i \<le> hi)"

definition m_live :: "int \<Rightarrow> bytes \<Rightarrow> keyspace \<Rightarrow> bool" where
  "m_live lo k m \<longleftrightarrow> (\<exists>v t. m k = Some (v, t) \<and> (\<forall>w. t = Some w \<longrightarrow> lo < w))"

definition m_reap :: "int \<Rightarrow> bytes \<Rightarrow> keyspace \<Rightarrow> keyspace" where
  "m_reap lo k m = (if m_live lo k m then m else m(k := None))"

definition m_set :: "int \<Rightarrow> bytes \<Rightarrow> bytes \<Rightarrow> bool \<Rightarrow> keyspace \<Rightarrow> keyspace" where
  "m_set lo k v keep m = m(k \<mapsto> (v, if keep \<and> m_live lo k m then snd (the (m k)) else None))"

definition m_expire :: "int \<Rightarrow> bytes \<Rightarrow> int \<Rightarrow> keyspace \<Rightarrow> keyspace" where
  "m_expire lo k w m =
     (if \<not> m_live lo k m \<or> w \<le> lo then m(k := None) else m(k \<mapsto> (fst (the (m k)), Some w)))"

definition m_persist :: "int \<Rightarrow> bytes \<Rightarrow> keyspace \<Rightarrow> keyspace" where
  "m_persist lo k m = (if m_live lo k m then m(k \<mapsto> (fst (the (m k)), None)) else m(k := None))"

lemma quiet_del: "quiet lo hi m \<Longrightarrow> quiet lo hi (m(k := None))"
  by (simp add: quiet_def)

lemma quiet_restrict: "quiet lo hi m \<Longrightarrow> quiet lo hi (m |` A)"
  by (auto simp: quiet_def restrict_map_def split: if_splits)

lemma quiet_ops:
  "quiet lo hi m \<Longrightarrow> quiet lo hi (m_reap lo k m)"
  "quiet lo hi m \<Longrightarrow> quiet lo hi (m_set lo k v keep m)"
  "quiet lo hi m \<Longrightarrow> w \<le> lo \<or> hi < w \<Longrightarrow> quiet lo hi (m_expire lo k w m)"
  "quiet lo hi m \<Longrightarrow> quiet lo hi (m_persist lo k m)"
  by (auto simp: quiet_def m_reap_def m_set_def m_expire_def m_persist_def m_live_def split: if_splits) force+

text \<open>The key an operation reaps before it does its work.\<close>

definition reaped :: "int \<Rightarrow> bytes \<Rightarrow> keyspace \<Rightarrow> bytes list" where
  "reaped lo k m = (if m k \<noteq> None \<and> \<not> m_live lo k m then [k] else [])"

definition acts :: "int \<Rightarrow> bytes \<Rightarrow> store \<Rightarrow> keyspace \<Rightarrow> store \<Rightarrow> bool" where
  "acts lo k st m st' \<longleftrightarrow>
     store_inv st' \<and> settings st' = settings st \<and> kv_map (st_kv st') = m \<and>
     st_notified st' = st_notified st @ reaped lo k (kv_map (st_kv st))"

text \<open>A store that expires keys itself, with all deadlines outside the window.\<close>

definition calm :: "int \<Rightarrow> int \<Rightarrow> store \<Rightarrow> bool" where
  "calm lo hi st \<longleftrightarrow> store_inv st \<and> \<not> st_passive st \<and> quiet lo hi (kv_map (st_kv st))"

lemma window_live:
  assumes "quiet lo hi (kv_map s)" "lo \<le> now" "now \<le> hi"
  shows "kv_live now k s \<longleftrightarrow> m_live lo k (kv_map s)"
    "kv_expired now k s \<longleftrightarrow> kv_map s k \<noteq> None \<and> \<not> m_live lo k (kv_map s)"
  using assms by (auto simp: kv_live_def kv_expired_def m_live_def quiet_def) force+

lemma actsI:
  assumes "step_ok st s st'" "kv_map s = m" "kv_log s = kv_log (st_kv st) @ reaped lo k (kv_map (st_kv st))"
  shows "acts lo k st m st'"
  using assms by (auto simp: acts_def step_ok_def) (simp add: st_kv_def)

lemma store_acts:
  assumes "calm lo hi st" "lo \<le> now" "now \<le> hi"
  defines "m \<equiv> kv_map (st_kv st)"
  shows "acts lo k st (m_reap lo k m) (snd (store_get now k st))"
    "fst (store_get now k st) = (if m_live lo k m then Some (fst (the (m k))) else None)"
    "acts lo k st (m_reap lo k m) (snd (store_exists now k st))"
    "fst (store_exists now k st) \<longleftrightarrow> m_live lo k m"
    "acts lo k st (m_reap lo k m) (snd (store_pttl now now' k st))"
    "acts lo k st (m_set lo k v keep m) (store_set now k v keep st)"
    "acts lo k st (m(k := None)) (snd (store_del now k st))"
    "fst (store_del now k st) \<longleftrightarrow> m_live lo k m"
    "now' < w \<or> w \<le> lo \<Longrightarrow> lo \<le> now' \<Longrightarrow> acts lo k st (m_expire lo k w m) (snd (store_set_expire now now' k w st))"
    "w \<le> now' \<Longrightarrow> acts lo k st (m(k := None)) (snd (store_set_expire now now' k w st))"
    "fst (store_set_expire now now' k w st) \<longleftrightarrow> m_live lo k m"
    "acts lo k st (m_persist lo k m) (snd (store_persist now k st))"
    "fst (store_persist now k st) \<longleftrightarrow> m_live lo k m \<and> snd (the (m k)) \<noteq> None"
    "\<not> m_live lo k m \<Longrightarrow> acts lo k st (m_reap lo k m) (snd (store_set_expire now now' k w st))"
proof -
  have inv: "store_inv st" and p: "\<not> st_passive st" and q: "quiet lo hi (kv_map (st_kv st))"
    using assms(1) by (auto simp: calm_def)
  note l = window_live [OF q assms(2,3)]
  note defs = kv_access_def kv_set_def kv_del_def kv_set_expire_def kv_persist_def kv_reap_def kv_report_def
    kv_delete_def kv_touch_def kv_put_def kv_ttl_def m_reap_def m_set_def m_expire_def m_persist_def reaped_def l p
  have dead: "kv_map (st_kv st) k = None \<Longrightarrow> (kv_map (st_kv st))(k := None) = kv_map (st_kv st)"
    by (rule fun_upd_idem)
  have "m_live lo k (kv_map (st_kv st)) \<Longrightarrow> kv_map (st_kv st) k \<noteq> None" by (auto simp: m_live_def)
  note facts = defs m_def this dead
  note reads = store_reads_ok [OF inv, where now = now and k = k]
  show "acts lo k st (m_reap lo k m) (snd (store_get now k st))"
    by (rule actsI [OF reads(1)]) (cases "kv_map (st_kv st) k"; auto simp: facts)+
  show "acts lo k st (m_reap lo k m) (snd (store_exists now k st))"
    by (rule actsI [OF reads(2)]) (cases "kv_map (st_kv st) k"; auto simp: facts)+
  show "acts lo k st (m_reap lo k m) (snd (store_pttl now now' k st))"
    by (rule actsI [OF reads(4)]) (cases "kv_map (st_kv st) k"; auto simp: facts)+
  show "fst (store_get now k st) = (if m_live lo k m then Some (fst (the (m k))) else None)"
    unfolding reads(5) by (auto simp: m_def l m_live_def)
  show "fst (store_exists now k st) \<longleftrightarrow> m_live lo k m"
    unfolding reads(6) by (simp add: m_def l)
  show "acts lo k st (m_set lo k v keep m) (store_set now k v keep st)"
    by (rule actsI [OF store_set_ok [OF inv]]) (cases "kv_map (st_kv st) k"; auto simp: facts)+
  show "acts lo k st (m(k := None)) (snd (store_del now k st))"
    by (rule actsI [OF store_del_ok(1) [OF inv]]) (cases "kv_map (st_kv st) k"; auto simp: facts)+
  show "fst (store_del now k st) \<longleftrightarrow> m_live lo k m"
    unfolding store_del_ok(2) [OF inv] by (simp add: m_def l)
  show "now' < w \<or> w \<le> lo \<Longrightarrow> lo \<le> now' \<Longrightarrow>
      acts lo k st (m_expire lo k w m) (snd (store_set_expire now now' k w st))"
    by (rule actsI [OF store_set_expire_ok(1) [OF inv]]) (cases "kv_map (st_kv st) k"; auto simp: facts)+
  show "w \<le> now' \<Longrightarrow> acts lo k st (m(k := None)) (snd (store_set_expire now now' k w st))"
    by (rule actsI [OF store_set_expire_ok(1) [OF inv]]) (cases "kv_map (st_kv st) k"; auto simp: facts)+
  show "\<not> m_live lo k m \<Longrightarrow> acts lo k st (m_reap lo k m) (snd (store_set_expire now now' k w st))"
    by (rule actsI [OF store_set_expire_ok(1) [OF inv]]) (cases "kv_map (st_kv st) k"; auto simp: facts)+
  show "fst (store_set_expire now now' k w st) \<longleftrightarrow> m_live lo k m"
    unfolding store_set_expire_ok(2) [OF inv] by (simp add: m_def l)
  show "acts lo k st (m_persist lo k m) (snd (store_persist now k st))"
    by (rule actsI [OF store_persist_ok(1) [OF inv]]) (cases "kv_map (st_kv st) k"; auto simp: facts)+
  show "fst (store_persist now k st) \<longleftrightarrow> m_live lo k m \<and> snd (the (m k)) \<noteq> None"
    unfolding store_persist_ok(2) [OF inv] by (auto simp: m_def l kv_ttl_def m_live_def)
qed

section \<open>The meaning of a logged command\<close>

definition log_apply :: "int \<Rightarrow> args \<Rightarrow> keyspace \<Rightarrow> keyspace" where
  "log_apply lo argv m =
     (let name = to_upper (argv ! 0); k = argv ! 1 in
      if name = ''DEL'' then m |` (- set (tl argv))
      else if name = ''SET'' then
        (if length argv = 3 then m_set lo k (argv ! 2) False m
         else if length argv = 4 then m_set lo k (argv ! 2) True m
         else m_expire lo k (the (parse_int64 (argv ! 4))) (m_set lo k (argv ! 2) False m))
      else if name = ''PEXPIREAT'' then m_expire lo k (the (parse_int64 (argv ! 2))) m
      else if name = ''PERSIST'' then m_persist lo k m
      else m)"

text \<open>The commands that are logged, with deadlines outside the window.\<close>

datatype log_form = LDel bytes "bytes list" | LSet bytes bytes | LKeep bytes bytes | LSetAt bytes bytes int
  | LExpire bytes int | LPersist bytes bytes

fun form_args :: "log_form \<Rightarrow> args" where
  "form_args (LDel name ks) = name # ks"
| "form_args (LSet k v) = [''SET'', k, v]"
| "form_args (LKeep k v) = [''SET'', k, v, ''KEEPTTL'']"
| "form_args (LSetAt k v w) = [''SET'', k, v, ''PXAT'', to_string_int w]"
| "form_args (LExpire k w) = [''PEXPIREAT'', k, to_string_int w]"
| "form_args (LPersist name k) = [name, k]"

fun form_ok :: "int \<Rightarrow> int \<Rightarrow> log_form \<Rightarrow> bool" where
  "form_ok lo hi (LDel name ks) \<longleftrightarrow> to_upper name = ''DEL'' \<and> ks \<noteq> []"
| "form_ok lo hi (LSetAt k v w) \<longleftrightarrow> 0 < w \<and> in_int64 w \<and> (w \<le> lo \<or> hi < w)"
| "form_ok lo hi (LExpire k w) \<longleftrightarrow> in_int64 w \<and> (w \<le> lo \<or> hi < w)"
| "form_ok lo hi (LPersist name k) \<longleftrightarrow> to_upper name = ''PERSIST''"
| "form_ok lo hi _ \<longleftrightarrow> True"

definition loggable :: "int \<Rightarrow> int \<Rightarrow> args \<Rightarrow> bool" where
  "loggable lo hi argv \<longleftrightarrow> (\<exists>f. form_ok lo hi f \<and> argv = form_args f)"

lemma to_upper_names [simp]:
  "to_upper ''SET'' = ''SET''" "to_upper ''DEL'' = ''DEL''" "to_upper ''PEXPIREAT'' = ''PEXPIREAT''"
  "to_upper ''KEEPTTL'' = ''KEEPTTL''" "to_upper ''PXAT'' = ''PXAT''"
  by code_simp+

lemma parse_int64_in: "in_int64 w \<Longrightarrow> parse_int64 (to_string_int w) = Some w"
  by (simp add: in_int64_def parse_int64_to_string)

lemma log_apply_forms:
  "to_upper name = ''DEL'' \<Longrightarrow> log_apply lo (name # ks) m = m |` (- set ks)"
  "log_apply lo [''SET'', k, v] m = m_set lo k v False m"
  "log_apply lo [''SET'', k, v, ''KEEPTTL''] m = m_set lo k v True m"
  "in_int64 w \<Longrightarrow> log_apply lo [''SET'', k, v, ''PXAT'', to_string_int w] m = m_expire lo k w (m_set lo k v False m)"
  "in_int64 w \<Longrightarrow> log_apply lo [''PEXPIREAT'', k, to_string_int w] m = m_expire lo k w m"
  "to_upper name = ''PERSIST'' \<Longrightarrow> log_apply lo [name, k] m = m_persist lo k m"
  by (simp_all add: log_apply_def parse_int64_in)

lemma quiet_log_apply: "quiet lo hi m \<Longrightarrow> loggable lo hi argv \<Longrightarrow> quiet lo hi (log_apply lo argv m)"
  by (auto simp: loggable_def elim!: form_ok.elims)
    (auto simp: log_apply_forms quiet_ops quiet_restrict)

section \<open>Executing a logged command\<close>

lemma find_commands:
  "to_upper name = ''DEL'' \<Longrightarrow> find_command name = Some (spec ''del'' cmd_del (-2) [kWrite] 1 (-1) 1)"
  "to_upper name = ''SET'' \<Longrightarrow> find_command name = Some (spec ''set'' cmd_set (-3) [kWrite, kDenyOom] 1 1 1)"
  "to_upper name = ''PEXPIREAT'' \<Longrightarrow> find_command name = Some (spec ''pexpireat'' cmd_pexpireat 3 [kWrite] 1 1 1)"
  "to_upper name = ''PERSIST'' \<Longrightarrow> find_command name = Some (spec ''persist'' cmd_persist 2 [kWrite] 1 1 1)"
  by (simp_all add: find_command_def command_table_def)

lemma store_unnotified [simp]:
  "st_kv (st\<lparr>st_notified := ks\<rparr>) = (st_kv st)\<lparr>kv_log := ks\<rparr>"
  "store_inv (st\<lparr>st_notified := ks\<rparr>) = store_inv st"
  "settings (st\<lparr>st_notified := ks\<rparr>) = settings st"
  by (simp_all add: st_kv_def store_inv_def settings_def kv_used_def)

lemma deliver_simps [simp]:
  "d_store (deliver sv d) = (d_store d)\<lparr>st_notified := []\<rparr>"
  "d_env (deliver sv d) = fold (sv_on_deleted sv) (st_notified (d_store d)) (d_env d)"
  "d_client (deliver sv d) = d_client d"
  by (simp_all add: deliver_def)

lemma propagate_simps [simp]:
  "d_store (propagate sv argv d) = d_store d" "d_client (propagate sv argv d) = d_client d"
  "d_store (propagate_built sv argv d) = d_store d" "d_client (propagate_built sv argv d) = d_client d"
  by (simp_all add: propagate_def propagate_built_def count_unlogged_write_def split: option.splits)

lemma st_call_simps [simp]:
  "fst (st_call sv f d) = fst (f (d_store d))"
  "d_store (snd (st_call sv f d)) = (snd (f (d_store d)))\<lparr>st_notified := []\<rparr>"
  "d_client (snd (st_call sv f d)) = d_client d"
  "d_store (st_do sv g d) = (g (d_store d))\<lparr>st_notified := []\<rparr>"
  "d_client (st_do sv g d) = d_client d"
  by (simp_all add: st_call_def st_do_def split: prod.splits)

text \<open>What is the case of the store after some steps: \<open>m\<close> is its keyspace.\<close>

definition holds :: "int \<Rightarrow> int \<Rightarrow> keyspace \<Rightarrow> 'e disp \<Rightarrow> bool" where
  "holds lo hi m d \<longleftrightarrow> calm lo hi (d_store d) \<and> kv_map (st_kv (d_store d)) = m"

lemma calm_acts: "calm lo hi st \<Longrightarrow> acts lo k st m st' \<Longrightarrow> quiet lo hi m \<Longrightarrow> calm lo hi (st'\<lparr>st_notified := []\<rparr>)"
  by (auto simp: calm_def acts_def) (auto simp: settings_def)

lemma holds_acts:
  assumes "holds lo hi m d" "acts lo k (d_store d) m' st'" "quiet lo hi m'" "d_store d' = st'\<lparr>st_notified := []\<rparr>"
  shows "holds lo hi m' d'"
  using assms calm_acts by (auto simp: holds_def acts_def)

lemma holds_propagate [simp]:
  "holds lo hi m (propagate sv argv d) = holds lo hi m d"
  "holds lo hi m (propagate_built sv argv d) = holds lo hi m d"
  by (simp_all add: holds_def)

lemma holds_ops:
  assumes h: "holds lo hi m d" and t: "lo \<le> now" "now \<le> hi"
  shows "holds lo hi (m_reap lo k m) (snd (st_call sv (store_get now k) d))"
    "fst (st_call sv (store_get now k) d) = (if m_live lo k m then Some (fst (the (m k))) else None)"
    "holds lo hi (m_reap lo k m) (snd (st_call sv (store_exists now k) d))"
    "fst (st_call sv (store_exists now k) d) \<longleftrightarrow> m_live lo k m"
    "holds lo hi (m_reap lo k m) (snd (st_call sv (store_pttl now now' k) d))"
    "holds lo hi (m_set lo k v keep m) (st_do sv (store_set now k v keep) d)"
    "holds lo hi (m(k := None)) (snd (st_call sv (store_del now k) d))"
    "fst (st_call sv (store_del now k) d) \<longleftrightarrow> m_live lo k m"
    "w \<le> lo \<or> hi < w \<Longrightarrow> lo \<le> now' \<Longrightarrow> now' \<le> hi \<Longrightarrow>
       holds lo hi (m_expire lo k w m) (snd (st_call sv (store_set_expire now now' k w) d))"
    "w \<le> now' \<Longrightarrow> holds lo hi (m(k := None)) (snd (st_call sv (store_set_expire now now' k w) d))"
    "fst (st_call sv (store_set_expire now now' k w) d) \<longleftrightarrow> m_live lo k m"
    "holds lo hi (m_persist lo k m) (snd (st_call sv (store_persist now k) d))"
    "fst (st_call sv (store_persist now k) d) \<longleftrightarrow> m_live lo k m \<and> snd (the (m k)) \<noteq> None"
proof -
  have c: "calm lo hi (d_store d)" and m: "kv_map (st_kv (d_store d)) = m" and q: "quiet lo hi m"
    using h by (auto simp: holds_def calm_def)
  note a = store_acts [OF c t, unfolded m]
  note quiet_upd = quiet_ops [OF q] quiet_del [OF q]
  show "fst (st_call sv (store_get now k) d) = (if m_live lo k m then Some (fst (the (m k))) else None)"
    "fst (st_call sv (store_exists now k) d) \<longleftrightarrow> m_live lo k m"
    "fst (st_call sv (store_del now k) d) \<longleftrightarrow> m_live lo k m"
    "fst (st_call sv (store_set_expire now now' k w) d) \<longleftrightarrow> m_live lo k m"
    "fst (st_call sv (store_persist now k) d) \<longleftrightarrow> m_live lo k m \<and> snd (the (m k)) \<noteq> None"
    using a by simp_all
  show "holds lo hi (m_reap lo k m) (snd (st_call sv (store_get now k) d))"
    by (rule holds_acts [OF h a(1)]) (simp_all add: quiet_upd)
  show "holds lo hi (m_reap lo k m) (snd (st_call sv (store_exists now k) d))"
    by (rule holds_acts [OF h a(3)]) (simp_all add: quiet_upd)
  show "holds lo hi (m_reap lo k m) (snd (st_call sv (store_pttl now now' k) d))"
    by (rule holds_acts [OF h a(5)]) (simp_all add: quiet_upd)
  show "holds lo hi (m_set lo k v keep m) (st_do sv (store_set now k v keep) d)"
    by (rule holds_acts [OF h a(6)]) (simp_all add: quiet_upd)
  show "holds lo hi (m(k := None)) (snd (st_call sv (store_del now k) d))"
    by (rule holds_acts [OF h a(7)]) (simp_all add: quiet_upd)
  show "holds lo hi (m_expire lo k w m) (snd (st_call sv (store_set_expire now now' k w) d))"
    if "w \<le> lo \<or> hi < w" "lo \<le> now'" "now' \<le> hi"
    by (rule holds_acts [OF h a(9)]) (use that in \<open>auto simp: quiet_upd\<close>)
  show "holds lo hi (m(k := None)) (snd (st_call sv (store_set_expire now now' k w) d))" if "w \<le> now'"
    by (rule holds_acts [OF h a(10)]) (use that in \<open>simp_all add: quiet_upd\<close>)
  show "holds lo hi (m_persist lo k m) (snd (st_call sv (store_persist now k) d))"
    by (rule holds_acts [OF h a(12)]) (simp_all add: quiet_upd)
qed

lemma windowD: "in_window lo hi clk \<Longrightarrow> lo \<le> clk i" "in_window lo hi clk \<Longrightarrow> clk i \<le> hi"
  "in_window lo hi clk \<Longrightarrow> i \<le> j \<Longrightarrow> clk i \<le> clk j"
  by (auto simp: in_window_def mono_def)

lemma restrict_insert_del: "m(k := None) |` (- A) = m |` (- insert k A)"
  by (auto simp: restrict_map_def fun_eq_iff)

lemma restrict_UNIV [simp]: "m |` UNIV = m"
  by (simp add: restrict_map_def)

lemma holds_del_loop:
  "in_window lo hi clk \<Longrightarrow> holds lo hi m d \<Longrightarrow>
     holds lo hi (m |` (- set ks)) (snd (del_loop sv clk i ks n d)) \<and>
     d_client (snd (del_loop sv clk i ks n d)) = d_client d"
proof (induction ks arbitrary: i n m d)
  case (Cons k ks)
  note h = holds_ops(7) [OF Cons.prems(2) windowD(1,2) [OF Cons.prems(1), of i], of k sv]
  obtain l d1 where 1: "st_call sv (store_del (clk i) k) d = (l, d1)" by fastforce
  with Cons.IH [OF Cons.prems(1), of "m(k := None)" d1, unfolded restrict_insert_del] h st_call_simps(3) [of sv "store_del (clk i) k" d]
  show ?case by (simp del: fun_upd_apply)
qed simp

text \<open>Executing a logged command has its meaning.\<close>

lemma cmd_forms:
  assumes w: "in_window lo hi clk" and h: "holds lo hi m d"
  shows "holds lo hi (m |` (- set ks)) (snd (cmd_del sv clk (name # ks) out d))"
    "holds lo hi (m_set lo k v False m) (snd (cmd_set sv clk [''SET'', k, v] out d))"
    "holds lo hi (m_set lo k v True m) (snd (cmd_set sv clk [''SET'', k, v, ''KEEPTTL''] out d))"
    "0 < x \<Longrightarrow> in_int64 x \<Longrightarrow> x \<le> lo \<or> hi < x \<Longrightarrow>
       holds lo hi (m_expire lo k x (m_set lo k v False m))
         (snd (cmd_set sv clk [''SET'', k, v, ''PXAT'', to_string_int x] out d))"
    "in_int64 x \<Longrightarrow> x \<le> lo \<or> hi < x \<Longrightarrow>
       holds lo hi (m_expire lo k x m) (snd (cmd_pexpireat sv clk [''PEXPIREAT'', k, to_string_int x] out d))"
    "holds lo hi (m_persist lo k m) (snd (cmd_persist sv clk [name, k] out d))"
proof -
  note ops = holds_ops [OF h windowD(1,2) [OF w]]
  have dl: "deadline_from 0 x 1 = Some x" if "in_int64 x" for x using that by (simp add: deadline_from_def)
  show "holds lo hi (m |` (- set ks)) (snd (cmd_del sv clk (name # ks) out d))"
    using holds_del_loop [OF w h, of ks sv 0 0] by (auto simp: cmd_del_def split: prod.splits)
  show "holds lo hi (m_set lo k v False m) (snd (cmd_set sv clk [''SET'', k, v] out d))"
    using ops(6) by (simp add: cmd_set_def Let_def)
  show "holds lo hi (m_set lo k v True m) (snd (cmd_set sv clk [''SET'', k, v, ''KEEPTTL''] out d))"
    using ops(6) by (simp add: cmd_set_def Let_def)
  show "holds lo hi (m_expire lo k x (m_set lo k v False m))
         (snd (cmd_set sv clk [''SET'', k, v, ''PXAT'', to_string_int x] out d))"
    if "0 < x" "in_int64 x" "x \<le> lo \<or> hi < x"
    using holds_ops(9) [OF ops(6) windowD(1,2) [OF w] that(3) windowD(1,2) [OF w]] that
    by (simp add: cmd_set_def Let_def parse_int64_in dl)
  show "holds lo hi (m_expire lo k x m) (snd (cmd_pexpireat sv clk [''PEXPIREAT'', k, to_string_int x] out d))"
    if "in_int64 x" "x \<le> lo \<or> hi < x"
    using ops(9) [OF that(2) windowD(1,2) [OF w]] that
    by (auto simp: cmd_pexpireat_def expire_generic_def Let_def parse_int64_in dl split: prod.splits bool.splits)
      (metis snd_conv)+
  show "holds lo hi (m_persist lo k m) (snd (cmd_persist sv clk [name, k] out d))"
    using ops(12) [where k = k and sv = sv] by (auto simp: cmd_persist_def split: prod.splits bool.splits) (metis snd_conv)+
qed

text \<open>
  Loading passes each logged command to the dispatcher with no client, and drops the reply. The
  replies of the persistence layer while it loads do not depend on its state.
\<close>

fun replay :: "'e services \<Rightarrow> (nat \<Rightarrow> nat \<Rightarrow> int) \<Rightarrow> args list \<Rightarrow> 'e disp \<Rightarrow> 'e disp option" where
  "replay sv clk [] d = Some d"
| "replay sv clk (argv # log) d =
     (case dispatch sv (clk 0) argv [] (d\<lparr>d_client := None\<rparr>) of
        None \<Rightarrow> None
      | Some (_, d) \<Rightarrow> replay sv (\<lambda>i. clk (Suc i)) log d)"

text \<open>
  While the log is loaded, nothing that the commands report is recorded: the other components do
  not change.
\<close>

definition frozen :: "'e services \<Rightarrow> 'e \<Rightarrow> bool" where
  "frozen sv e \<longleftrightarrow>
     loading sv e \<and> (\<forall>ro. sv_replication sv = Some ro \<longrightarrow> \<not> ro_is_replica ro e) \<and>
     (\<forall>p argv. sv_propagator sv = Some p \<longrightarrow> p argv e = e) \<and>
     (\<forall>po. sv_persistence sv = Some po \<longrightarrow> po_count_change po e = e) \<and> (\<forall>k. sv_on_deleted sv k e = e)"

lemma frozen_deliver: "frozen sv e \<Longrightarrow> fold (sv_on_deleted sv) ks e = e"
  by (induction ks) (simp_all add: frozen_def)

lemma frozen_calls [simp]:
  assumes "frozen sv (d_env d)"
  shows "d_env (propagate sv argv d) = d_env d" "d_env (propagate_built sv argv d) = d_env d"
    "d_env (snd (st_call sv f d)) = d_env d" "d_env (st_do sv g d) = d_env d"
  using assms frozen_deliver [OF assms]
  by (auto simp: frozen_def propagate_def propagate_built_def count_unlogged_write_def st_call_def st_do_def
      deliver_def split: option.splits prod.splits)

lemma frozen_del_loop: "frozen sv (d_env d) \<Longrightarrow> d_env (snd (del_loop sv clk i ks n d)) = d_env d"
proof (induction ks arbitrary: i n d)
  case (Cons k ks)
  obtain live d1 where 1: "st_call sv (store_del (clk i) k) d = (live, d1)" by fastforce
  then have "d_env d1 = d_env d" using frozen_calls(3) [OF Cons.prems] by (metis snd_conv)
  then show ?case using Cons 1 by simp
qed simp

lemma frozen_handlers:
  assumes f: "frozen sv (d_env d)"
  shows "d_env (snd (cmd_del sv clk argv out d)) = d_env d" "d_env (snd (cmd_set sv clk argv out d)) = d_env d"
    "d_env (snd (cmd_pexpireat sv clk argv out d)) = d_env d" "d_env (snd (cmd_persist sv clk argv out d)) = d_env d"
proof -
  obtain n d1 where 1: "del_loop sv clk 0 (tl argv) 0 d = (n, d1)" by fastforce
  then have "d_env d1 = d_env d" using frozen_del_loop [OF f, of clk 0 "tl argv" 0] by simp
  then show "d_env (snd (cmd_del sv clk argv out d)) = d_env d" using 1 f by (simp add: cmd_del_def)
  show "d_env (snd (cmd_set sv clk argv out d)) = d_env d"
    using f by (auto simp: cmd_set_def Let_def split_beta split: sum.splits option.splits)
  have call: "d_env d' = d_env d" if "st_call sv g d = (b, d')" for g :: "store \<Rightarrow> bool \<times> store" and b d'
    using frozen_calls(3) [OF f, of g] that by simp
  show "d_env (snd (cmd_pexpireat sv clk argv out d)) = d_env d"
    using f by (auto simp: cmd_pexpireat_def expire_generic_def Let_def split: option.splits prod.splits bool.splits dest!: call)
  show "d_env (snd (cmd_persist sv clk argv out d)) = d_env d"
    using f by (auto simp: cmd_persist_def split: prod.splits bool.splits dest!: call)
qed

lemma dispatch_replaying:
  assumes "frozen sv (d_env d)" "argv \<noteq> []" "find_command (argv ! 0) = Some sp" "arity_ok (cs_arity sp) (length argv)"
  shows "dispatch sv clk argv out (d\<lparr>d_client := None\<rparr>) =
    Some (cs_handler sp sv (\<lambda>i. clk (2 * i + 1)) argv out (d\<lparr>d_client := None\<rparr>))"
  using assms
  by (auto simp: dispatch_def route_check_def run_handler_def write_check_def oom_check_def frozen_def Let_def
      split: option.splits)

lemma window_handler: "in_window lo hi clk \<Longrightarrow> in_window lo hi (\<lambda>i. clk (2 * i + 1))"
  by (auto simp: in_window_def mono_def)

lemma dispatch_logged:
  assumes r: "frozen sv (d_env d)" and w: "in_window lo hi clk" and h: "holds lo hi m d" and l: "loggable lo hi argv"
  shows "\<exists>out' d'. dispatch sv clk argv out (d\<lparr>d_client := None\<rparr>) = Some (out', d') \<and>
    holds lo hi (log_apply lo argv m) d' \<and> d_env d' = d_env d"
proof -
  obtain f where f: "form_ok lo hi f" "argv = form_args f" using l by (auto simp: loggable_def)
  have h': "holds lo hi m (d\<lparr>d_client := None\<rparr>)" using h by (simp add: holds_def)
  note disp = dispatch_replaying [OF r, where argv = argv and clk = clk and out = out] and c = cmd_forms [OF window_handler [OF w] h', simplified]
  have *: "\<exists>out' d'. x = (out', d') \<and> P d' \<and> d_env d' = d_env d" if "P (snd x)" "d_env (snd x) = d_env d" for x :: "bytes \<times> 'a disp" and P
    using that by (cases x) auto
  have "frozen sv (d_env (d\<lparr>d_client := None\<rparr>))" using r by simp
  note env = frozen_handlers [OF this, simplified]
  show ?thesis
  proof (cases f)
    case (LDel name ks)
    then have "Suc 0 \<le> length ks" using f(1) by (cases ks) simp_all
    with LDel show ?thesis
      using f disp [OF _ find_commands(1)]
      by (auto simp: spec_def arity_ok_def log_apply_forms env intro!: * c)
  next
    case (LSet k v)
    then show ?thesis
      using f disp [OF _ find_commands(2)]
      by (auto simp: spec_def arity_ok_def log_apply_forms env intro!: * c)
  next
    case (LKeep k v)
    then show ?thesis
      using f disp [OF _ find_commands(2)]
      by (auto simp: spec_def arity_ok_def log_apply_forms env intro!: * c)
  next
    case (LSetAt k v x)
    then show ?thesis
      using f disp [OF _ find_commands(2)]
      by (auto simp: spec_def arity_ok_def log_apply_forms env intro!: * c)
  next
    case (LExpire k x)
    then show ?thesis
      using f disp [OF _ find_commands(3)]
      by (auto simp: spec_def arity_ok_def log_apply_forms env intro!: * c)
  next
    case (LPersist name k)
    then show ?thesis
      using f disp [OF _ find_commands(4)]
      by (auto simp: spec_def arity_ok_def log_apply_forms env intro!: * c)
  qed
qed

lemma replay_logged:
  "frozen sv (d_env d) \<Longrightarrow> (\<And>i. in_window lo hi (clk i)) \<Longrightarrow> holds lo hi m d \<Longrightarrow> list_all (loggable lo hi) log \<Longrightarrow>
     \<exists>d'. replay sv clk log d = Some d' \<and> holds lo hi (fold (log_apply lo) log m) d' \<and> d_env d' = d_env d"
proof (induction log arbitrary: clk m d)
  case (Cons argv log)
  from dispatch_logged [OF Cons.prems(1) Cons.prems(2) [of 0] Cons.prems(3), of argv "[]"] Cons.prems(4)
  obtain out' d1 where 1: "dispatch sv (clk 0) argv [] (d\<lparr>d_client := None\<rparr>) = Some (out', d1)"
    "holds lo hi (log_apply lo argv m) d1" "d_env d1 = d_env d" by auto
  have "frozen sv (d_env d1)" using Cons.prems(1) 1(3) by simp
  from Cons.IH [OF this Cons.prems(2) 1(2), of Suc] Cons.prems(4) 1 show ?case by auto
qed simp

section \<open>What a command logs\<close>

text \<open>
  \<open>sees\<close>: the log so far means \<open>F\<close>, starting from \<open>m0\<close>, and the store holds \<open>m\<close>. Between
  commands the two agree. The log is written while \<open>act\<close> holds.
\<close>

definition sees ::
  "('e \<Rightarrow> args list) \<Rightarrow> ('e \<Rightarrow> bool) \<Rightarrow> int \<Rightarrow> int \<Rightarrow> keyspace \<Rightarrow> keyspace \<Rightarrow> keyspace \<Rightarrow> 'e disp \<Rightarrow> bool" where
  "sees log act lo hi m0 F m d \<longleftrightarrow>
     act (d_env d) \<and> holds lo hi m d \<and> st_notified (d_store d) = [] \<and> list_all (loggable lo hi) (log (d_env d)) \<and>
     fold (log_apply lo) (log (d_env d)) m0 = F"

definition synced :: "('e \<Rightarrow> args list) \<Rightarrow> ('e \<Rightarrow> bool) \<Rightarrow> int \<Rightarrow> int \<Rightarrow> keyspace \<Rightarrow> 'e disp \<Rightarrow> bool" where
  "synced log act lo hi m0 d \<longleftrightarrow> (\<exists>m. sees log act lo hi m0 m m d)"

text \<open>No deadline that was logged falls into the window.\<close>

definition calm_log :: "int \<Rightarrow> int \<Rightarrow> args list \<Rightarrow> bool" where
  "calm_log lo hi L \<longleftrightarrow>
     (\<forall>k v w. [''SET'', k, v, ''PXAT'', to_string_int w] \<in> set L \<longrightarrow> w \<le> lo \<or> hi < w) \<and>
     (\<forall>k w. [''PEXPIREAT'', k, to_string_int w] \<in> set L \<longrightarrow> w \<le> lo \<or> hi < w)"

lemma loggable_forms:
  "to_upper name = ''DEL'' \<Longrightarrow> ks \<noteq> [] \<Longrightarrow> loggable lo hi (name # ks)"
  "loggable lo hi [''SET'', k, v]" "loggable lo hi [''SET'', k, v, ''KEEPTTL'']"
  "0 < w \<Longrightarrow> in_int64 w \<Longrightarrow> w \<le> lo \<or> hi < w \<Longrightarrow> loggable lo hi [''SET'', k, v, ''PXAT'', to_string_int w]"
  "in_int64 w \<Longrightarrow> w \<le> lo \<or> hi < w \<Longrightarrow> loggable lo hi [''PEXPIREAT'', k, to_string_int w]"
  "to_upper name = ''PERSIST'' \<Longrightarrow> loggable lo hi [name, k]"
  unfolding loggable_def
  subgoal by (rule exI [of _ "LDel name ks"]) simp
  subgoal by (rule exI [of _ "LSet k v"]) simp
  subgoal by (rule exI [of _ "LKeep k v"]) simp
  subgoal by (rule exI [of _ "LSetAt k v w"]) simp
  subgoal by (rule exI [of _ "LExpire k w"]) simp
  subgoal by (rule exI [of _ "LPersist name k"]) simp
  done

definition opts_ok :: "set_opts \<Rightarrow> bool" where
  "opts_ok so \<longleftrightarrow>
     (so_expire_at so \<noteq> None \<longrightarrow> \<not> so_keep_ttl so) \<and>
     (\<forall>w. so_expire_at so = Some w \<longrightarrow> 0 < w \<and> in_int64 w)"

lemma deadline_pos: "0 \<le> now \<Longrightarrow> 0 < amount \<Longrightarrow> 1 \<le> u \<Longrightarrow> deadline_from now amount u = Some w \<Longrightarrow> 0 < w \<and> in_int64 w"
proof -
  assume a: "0 \<le> now" "0 < amount" "1 \<le> u" "deadline_from now amount u = Some w"
  then have "w = now + amount * u" "in_int64 w" by (auto simp: deadline_from_def Let_def split: if_splits)
  moreover have "0 < amount * u" using a by (intro mult_pos_pos) auto
  ultimately show ?thesis using a(1) by simp
qed

lemma set_options_ok:
  "set_options now rest so = Inr so' \<Longrightarrow> 0 \<le> now \<Longrightarrow> opts_ok so \<Longrightarrow> opts_ok so'"
proof (induction now rest so rule: set_options.induct)
  case (2 now arg rest so)
  define opt where "opt = to_upper arg"
  note IH = 2(1-4) [OF opt_def] and unfolded = 2(5) [unfolded set_options.simps Let_def opt_def [symmetric]]
  consider (nx) "opt = ''NX'' \<and> \<not> so_xx so"
    | (xx) "\<not> (opt = ''NX'' \<and> \<not> so_xx so)" "opt = ''XX'' \<and> \<not> so_nx so"
    | (keep) "\<not> (opt = ''NX'' \<and> \<not> so_xx so)" "\<not> (opt = ''XX'' \<and> \<not> so_nx so)"
        "opt = ''KEEPTTL'' \<and> so_expire_at so = None"
    | (expire) "\<not> (opt = ''NX'' \<and> \<not> so_xx so)" "\<not> (opt = ''XX'' \<and> \<not> so_nx so)"
        "\<not> (opt = ''KEEPTTL'' \<and> so_expire_at so = None)"
        "opt \<in> {''EX'', ''PX'', ''EXAT'', ''PXAT''} \<and> \<not> so_keep_ttl so \<and> so_expire_at so = None \<and> rest \<noteq> []"
    using unfolded by (auto split: if_splits)
  then show ?case
  proof cases
    case nx
    then show ?thesis using IH(1) 2(6,7) unfolded by (simp add: opts_ok_def)
  next
    case xx
    then show ?thesis using IH(2) 2(6,7) unfolded by (auto simp: opts_ok_def)
  next
    case keep
    then show ?thesis using IH(3) 2(6,7) unfolded by (auto simp: opts_ok_def)
  next
    case expire
    from expire unfolded obtain amount where a: "parse_int64 (hd rest) = Some amount"
      by (auto split: option.splits if_splits)
    define t u :: int where "t = (if opt = ''EX'' \<or> opt = ''PX'' then now else 0)"
      and "u = (if opt = ''EX'' \<or> opt = ''EXAT'' then 1000 else 1)"
    have tu: "0 \<le> t" "1 \<le> u" using 2(6) by (simp_all add: t_def u_def)
    define w where "w = (if amount > 0 then deadline_from t amount u else None)"
    have w: "w \<noteq> None" "set_options now (tl rest) (so\<lparr>so_expire_at := w\<rparr>) = Inr so'"
      using unfolded expire a unfolding t_def [symmetric] u_def [symmetric] by (auto simp: w_def split: if_splits)
    then have "0 < x \<and> in_int64 x" if "w = Some x" for x
      using that deadline_pos [OF tu(1) _ tu(2), of amount x] by (auto simp: w_def split: if_splits)
    then have "opts_ok (so\<lparr>so_expire_at := w\<rparr>)"
      using expire(4) by (simp add: opts_ok_def)
    with IH(4) [OF expire a refl refl refl] w 2(6) show ?thesis
      unfolding t_def [symmetric] u_def [symmetric] w_def [symmetric] by blast
  qed
qed simp

text \<open>The commands that only use the store.\<close>

definition data_commands :: "bytes list" where
  "data_commands =
     [''PING'', ''ECHO'', ''SET'', ''GET'', ''DEL'', ''EXISTS'', ''INCR'', ''DECR'', ''INCRBY'', ''DECRBY'',
      ''EXPIRE'', ''PEXPIRE'', ''EXPIREAT'', ''PEXPIREAT'', ''TTL'', ''PTTL'', ''PERSIST'', ''DBSIZE'',
      ''DUMP'', ''RESTORE'', ''RESTORE-ASKING'', ''MIGRATE'']"

lemma evict_drops:
  assumes "kv_ok s"
  obtains ks where "snd (kv_evict_if_needed cfg s) = kv_drop ks s"
proof (cases cfg)
  case (fields limit policy p)
  show ?thesis
  proof (cases "limit = 0 \<or> policy = kNoEviction")
    case True
    then have "snd (kv_evict_if_needed cfg s) = kv_drop [] s" by (auto simp: fields kv_evict_if_needed_def)
    then show ?thesis by (rule that)
  next
    case False
    from kv_evict_minimal [OF assms, of limit] obtain ks where "kv_evict limit s = kv_drop ks s" by blast
    then have "snd (kv_evict_if_needed cfg s) = kv_drop ks s"
      using False by (simp add: fields kv_evict_if_needed_def)
    then show ?thesis by (rule that)
  qed
qed

lemma fold_log_dels: "fold (log_apply lo) (map (\<lambda>k. [''DEL'', k]) ks) m = m |` (- set ks)"
proof (induction ks arbitrary: m)
  case (Cons k ks)
  have "- set [k] \<inter> - set ks = - set (k # ks)" by auto
  with Cons show ?case by (simp add: log_apply_forms del: set_simps)
qed simp

text \<open>
  The interface of the log: while it is active, the propagator and the deletion listener append to
  it, they leave it active, and something reads it.
\<close>

locale command_log =
  fixes sv :: "'e services" and emit :: "args \<Rightarrow> 'e \<Rightarrow> 'e" and log :: "'e \<Rightarrow> args list" and act :: "'e \<Rightarrow> bool"
  assumes propagator: "sv_propagator sv = Some emit"
    and wanted: "act e \<Longrightarrow> case sv_log_wanted sv of None \<Rightarrow> True | Some w \<Rightarrow> w e"
    and log_emit: "act e \<Longrightarrow> act (emit argv e) \<and> log (emit argv e) = log e @ [argv]"
    and log_deleted: "act e \<Longrightarrow> act (sv_on_deleted sv k e) \<and> log (sv_on_deleted sv k e) = log e @ [[''DEL'', k]]"
begin

lemma log_propagate [simp]:
  assumes "act (d_env d)"
  shows "act (d_env (propagate sv argv d))" "log (d_env (propagate sv argv d)) = log (d_env d) @ [argv]"
    "act (d_env (propagate_built sv argv d))" "log (d_env (propagate_built sv argv d)) = log (d_env d) @ [argv]"
  using wanted [OF assms] log_emit [OF assms]
  by (auto simp: propagate_def propagate_built_def propagator split: option.splits)

lemma log_deliver:
  "act e \<Longrightarrow> act (fold (sv_on_deleted sv) ks e) \<and>
     log (fold (sv_on_deleted sv) ks e) = log e @ map (\<lambda>k. [''DEL'', k]) ks"
  by (induction ks arbitrary: e) (simp_all add: log_deleted)

lemma act_calls [simp]:
  "act (d_env d) \<Longrightarrow> act (d_env (snd (st_call sv f d)))" "act (d_env d) \<Longrightarrow> act (d_env (st_do sv g d))"
  using log_deliver by (auto simp: st_call_def st_do_def deliver_def split: prod.splits)

lemma synced_act: "synced log act lo hi m0 d \<Longrightarrow> act (d_env d)"
  by (auto simp: synced_def sees_def)

lemma sees_propagate:
  assumes "sees log act lo hi m0 F m d" "loggable lo hi argv"
  shows "sees log act lo hi m0 (log_apply lo argv F) m (propagate sv argv d)"
    "sees log act lo hi m0 (log_apply lo argv F) m (propagate_built sv argv d)"
  using assms by (auto simp: sees_def)

lemma sees_acts:
  assumes s: "sees log act lo hi m0 F m d" and a: "acts lo k (d_store d) m' st'" and q: "quiet lo hi m'"
  shows "sees log act lo hi m0 (if reaped lo k m = [] then F else F(k := None)) m' (deliver sv (d\<lparr>d_store := st'\<rparr>))"
proof -
  let ?d' = "deliver sv (d\<lparr>d_store := st'\<rparr>)"
  have h: "holds lo hi m d" and n: "st_notified (d_store d) = []" using s by (auto simp: sees_def)
  have m: "kv_map (st_kv (d_store d)) = m" using h by (simp add: holds_def)
  have r: "st_notified st' = reaped lo k m" using a n by (simp add: acts_def m)
  have "holds lo hi m' ?d'" by (rule holds_acts [OF h a q]) simp
  moreover have "m |` (- {k}) = m(k := None)" for m :: keyspace
    by (auto simp: restrict_map_def fun_eq_iff)
  ultimately show ?thesis
    using s by (auto simp: sees_def log_deliver r reaped_def log_apply_forms loggable_forms)
qed

lemma sees_calls:
  assumes s: "sees log act lo hi m0 m m d" and t: "lo \<le> now" "now \<le> hi"
  shows "sees log act lo hi m0 (m_reap lo k m) (m_reap lo k m) (snd (st_call sv (store_get now k) d))"
    "sees log act lo hi m0 (m_reap lo k m) (m_reap lo k m) (snd (st_call sv (store_exists now k) d))"
    "sees log act lo hi m0 (m_reap lo k m) (m_reap lo k m) (snd (st_call sv (store_pttl now now' k) d))"
    "sees log act lo hi m0 (m_reap lo k m) (m_set lo k v keep m) (st_do sv (store_set now k v keep) d)"
    "sees log act lo hi m0 (m_reap lo k m) (m(k := None)) (snd (st_call sv (store_del now k) d))"
    "w \<le> lo \<or> hi < w \<Longrightarrow> lo \<le> now' \<Longrightarrow> now' \<le> hi \<Longrightarrow>
       sees log act lo hi m0 (m_reap lo k m) (m_expire lo k w m) (snd (st_call sv (store_set_expire now now' k w) d))"
    "w \<le> now' \<Longrightarrow> sees log act lo hi m0 (m_reap lo k m) (m(k := None)) (snd (st_call sv (store_set_expire now now' k w) d))"
    "sees log act lo hi m0 (m_reap lo k m) (m_persist lo k m) (snd (st_call sv (store_persist now k) d))"
    "\<not> m_live lo k m \<Longrightarrow>
       sees log act lo hi m0 (m_reap lo k m) (m_reap lo k m) (snd (st_call sv (store_set_expire now now' k w) d))"
proof -
  have c: "calm lo hi (d_store d)" and m: "kv_map (st_kv (d_store d)) = m" and q: "quiet lo hi m"
    using s by (auto simp: sees_def holds_def calm_def)
  note a = store_acts [OF c t, unfolded m]
  have r: "(if reaped lo k m = [] then m else m(k := None)) = m_reap lo k m"
    by (cases "m k") (auto simp: reaped_def m_reap_def m_live_def fun_eq_iff split: if_splits)
  have "sees log act lo hi m0 (m_reap lo k m) m' (deliver sv (d\<lparr>d_store := st'\<rparr>))"
    if "acts lo k (d_store d) m' st'" "quiet lo hi m'" for m' st'
    using sees_acts [OF s that] by (simp add: r)
  note step = this
  note quiet_upd = quiet_ops [OF q] quiet_del [OF q]
  note unf = st_call_def st_do_def split_beta snd_conv
  show "sees log act lo hi m0 (m_reap lo k m) (m_reap lo k m) (snd (st_call sv (store_get now k) d))"
    unfolding unf by (rule step [OF a(1) quiet_upd(1)])
  show "sees log act lo hi m0 (m_reap lo k m) (m_reap lo k m) (snd (st_call sv (store_exists now k) d))"
    unfolding unf by (rule step [OF a(3) quiet_upd(1)])
  show "sees log act lo hi m0 (m_reap lo k m) (m_reap lo k m) (snd (st_call sv (store_pttl now now' k) d))"
    unfolding unf by (rule step [OF a(5) quiet_upd(1)])
  show "sees log act lo hi m0 (m_reap lo k m) (m_set lo k v keep m) (st_do sv (store_set now k v keep) d)"
    unfolding unf by (rule step [OF a(6) quiet_upd(2)])
  show "sees log act lo hi m0 (m_reap lo k m) (m(k := None)) (snd (st_call sv (store_del now k) d))"
    unfolding unf by (rule step [OF a(7) quiet_upd(5)])
  show "sees log act lo hi m0 (m_reap lo k m) (m_expire lo k w m) (snd (st_call sv (store_set_expire now now' k w) d))"
    if "w \<le> lo \<or> hi < w" "lo \<le> now'" "now' \<le> hi"
    unfolding unf by (rule step [OF a(9) quiet_upd(3)]) (use that in auto)
  show "sees log act lo hi m0 (m_reap lo k m) (m(k := None)) (snd (st_call sv (store_set_expire now now' k w) d))"
    if "w \<le> now'"
    unfolding unf by (rule step [OF a(10) quiet_upd(5)]) (use that in auto)
  show "sees log act lo hi m0 (m_reap lo k m) (m_persist lo k m) (snd (st_call sv (store_persist now k) d))"
    unfolding unf by (rule step [OF a(12) quiet_upd(4)])
  show "sees log act lo hi m0 (m_reap lo k m) (m_reap lo k m) (snd (st_call sv (store_set_expire now now' k w) d))"
    if "\<not> m_live lo k m"
    unfolding unf by (rule step [OF a(14) quiet_upd(1)]) (use that in auto)
qed

lemma syncedI: "sees log act lo hi m0 F m d \<Longrightarrow> F = m \<Longrightarrow> synced log act lo hi m0 d"
  by (auto simp: synced_def)

lemma m_reap_absorb:
  "m_set lo k v keep (m_reap lo k m) = m_set lo k v keep m"
  "m_expire lo k w (m_reap lo k m) = m_expire lo k w m"
  "m_persist lo k (m_reap lo k m) = m_persist lo k m"
  by (auto simp: m_set_def m_reap_def m_expire_def m_persist_def m_live_def fun_eq_iff)

lemma synced_reads:
  assumes "synced log act lo hi m0 d" "lo \<le> now" "now \<le> hi"
  shows "synced log act lo hi m0 (snd (st_call sv (store_get now k) d))"
    "synced log act lo hi m0 (snd (st_call sv (store_exists now k) d))"
    "synced log act lo hi m0 (snd (st_call sv (store_pttl now now' k) d))"
  using assms sees_calls(1-3) [where now = now and k = k] unfolding synced_def by blast+

lemma synced_set_built:
  assumes "synced log act lo hi m0 d" "lo \<le> now" "now \<le> hi"
  shows "synced log act lo hi m0
      (propagate_built sv ([''SET'', k, v] @ (if keep then [''KEEPTTL''] else [])) (st_do sv (store_set now k v keep) d))"
proof -
  obtain m where m: "sees log act lo hi m0 m m d" using assms(1) by (auto simp: synced_def)
  show ?thesis
    by (rule syncedI [OF sees_propagate(2) [OF sees_calls(4) [OF m assms(2,3)]]])
      (auto simp: loggable_forms log_apply_forms m_reap_absorb)
qed

lemma synced_set_at_built:
  assumes s: "synced log act lo hi m0 d" and t: "lo \<le> now" "now \<le> hi" "lo \<le> now1" "now1 \<le> hi" "lo \<le> now2" "now2 \<le> hi"
    and w: "w \<le> lo \<or> hi < w" "0 < w" "in_int64 w"
  shows "synced log act lo hi m0
      (propagate_built sv [''SET'', k, v, ''PXAT'', to_string_int w]
        (snd (st_call sv (store_set_expire now1 now2 k w) (st_do sv (store_set now k v False) d))))"
proof -
  obtain m where m: "sees log act lo hi m0 m m d" using s by (auto simp: synced_def)
  let ?m1 = "m_set lo k v False m" and ?d1 = "st_do sv (store_set now k v False) d"
  have 1: "sees log act lo hi m0 (m_reap lo k m) ?m1 ?d1" by (rule sees_calls(4) [OF m t(1,2)])
  then have c: "calm lo hi (d_store ?d1)" "kv_map (st_kv (d_store ?d1)) = ?m1" and q: "quiet lo hi ?m1"
    by (auto simp: sees_def holds_def calm_def)
  have a: "acts lo k (d_store ?d1) (m_expire lo k w ?m1) (snd (store_set_expire now1 now2 k w (d_store ?d1)))"
    using store_acts(9) [OF c(1) t(3,4), of now2 w k] t(5,6) w(1) unfolding c(2) by linarith
  have r: "reaped lo k ?m1 = []" by (simp add: reaped_def m_live_def m_set_def)
  have 2: "sees log act lo hi m0 (m_reap lo k m) (m_expire lo k w ?m1)
      (snd (st_call sv (store_set_expire now1 now2 k w) ?d1))"
    using sees_acts [OF 1 a quiet_ops(3) [OF q w(1)]] r by (simp add: st_call_def split_beta)
  show ?thesis
    by (rule syncedI [OF sees_propagate(2) [OF 2]])
      (simp_all add: loggable_forms log_apply_forms m_reap_absorb w)
qed

end

section \<open>Every data command keeps the log in step\<close>

context command_log
begin

lemma synced_cmd_set:
  assumes w: "in_window lo hi clk" "0 \<le> lo" and s: "synced log act lo hi m0 d"
    and c: "calm_log lo hi (log (d_env (snd (cmd_set sv clk argv out d))))"
  shows "synced log act lo hi m0 (snd (cmd_set sv clk argv out d))"
proof -
  note t = windowD(1,2) [OF w(1)]
  let ?so0 = "\<lparr>so_nx = False, so_xx = False, so_keep_ttl = False, so_expire_at = None\<rparr>"
  show ?thesis
  proof (cases "set_options (clk 0) (drop 3 argv) ?so0")
    case (Inl err)
    then show ?thesis using s by (simp add: cmd_set_def)
  next
    case (Inr so)
    have ok: "opts_ok so" using set_options_ok [OF Inr] w(2) t(1) [of 0] by (auto simp: opts_ok_def)
    define r where "r = (if so_nx so \<or> so_xx so then st_call sv (store_exists (clk 1) (argv ! 1)) d else (False, d))"
    have s1: "synced log act lo hi m0 (snd r)" using s synced_reads(2) [OF s t] by (simp add: r_def)
    show ?thesis
    proof (cases "so_nx so \<and> fst r \<or> so_xx so \<and> \<not> fst r")
      case True
      then show ?thesis using Inr s1 by (simp add: cmd_set_def r_def [symmetric] Let_def split_beta)
    next
      case False
      let ?d2 = "st_do sv (store_set (clk 2) (argv ! 1) (argv ! 2) (so_keep_ttl so)) (snd r)"
      show ?thesis
      proof (cases "so_expire_at so")
        case None
        then have "snd (cmd_set sv clk argv out d) = propagate_built sv
            ([''SET'', argv ! 1, argv ! 2] @ (if so_keep_ttl so then [''KEEPTTL''] else [])) ?d2"
          using Inr False by (auto simp: cmd_set_def r_def [symmetric] Let_def split_beta)
        then show ?thesis using synced_set_built [OF s1 t] by simp
      next
        case (Some x)
        then have x: "\<not> so_keep_ttl so" "0 < x" "in_int64 x" using ok by (auto simp: opts_ok_def)
        have eq: "snd (cmd_set sv clk argv out d) = propagate_built sv
            [''SET'', argv ! 1, argv ! 2, ''PXAT'', to_string_int x]
            (snd (st_call sv (store_set_expire (clk 3) (clk 4) (argv ! 1) x) ?d2))"
          using Inr False Some x(1) by (auto simp: cmd_set_def r_def [symmetric] Let_def split_beta)
        have "x \<le> lo \<or> hi < x" using c synced_act [OF s1] unfolding eq by (simp add: calm_log_def)
        then show ?thesis using synced_set_at_built [OF s1 t t t] x unfolding eq by simp
      qed
    qed
  qed
qed

lemma synced_incr_by:
  assumes w: "in_window lo hi clk" and s: "synced log act lo hi m0 d"
  shows "synced log act lo hi m0 (snd (incr_by sv clk k delta out d))"
proof -
  note t = windowD(1,2) [OF w]
  obtain cur d1 where 1: "st_call sv (store_get (clk 0) k) d = (cur, d1)" by fastforce
  have s1: "synced log act lo hi m0 d1" using synced_reads(1) [OF s t [of 0], of k] by (simp add: 1)
  from synced_set_built [OF this t, where keep = True and k = k] s1 show ?thesis
    by (simp add: incr_by_def 1 Let_def split: option.splits)
qed

lemma synced_expire:
  assumes w: "in_window lo hi clk" and s: "synced log act lo hi m0 d"
    and c: "calm_log lo hi (log (d_env (snd (expire_generic sv clk argv u rel name out d))))"
  shows "synced log act lo hi m0 (snd (expire_generic sv clk argv u rel name out d))"
proof (cases "parse_int64 (argv ! 2)")
  case None
  then show ?thesis using s by (simp add: expire_generic_def)
next
  case (Some amount)
  note t = windowD(1,2) [OF w]
  obtain m where m: "sees log act lo hi m0 m m d" using s by (auto simp: synced_def)
  have h: "holds lo hi m d" using m by (simp add: sees_def)
  show ?thesis
  proof (cases "deadline_from (if rel then clk 0 else 0) amount u")
    case None
    then show ?thesis using s Some by (simp add: expire_generic_def Let_def)
  next
    case (Some x)
    have x: "in_int64 x" using Some by (auto simp: deadline_from_def Let_def split: if_splits)
    obtain b d1 where 1: "st_call sv (store_set_expire (clk 1) (clk 2) (argv ! 1) x) d = (b, d1)" by fastforce
    have b: "b \<longleftrightarrow> m_live lo (argv ! 1) m" using holds_ops(11) [OF h t [of 1], of sv "clk 2" "argv ! 1" x, unfolded 1 fst_conv] .
    have eq: "snd (expire_generic sv clk argv u rel name out d) =
        (if b then propagate_built sv (if x \<le> clk 0 then [''DEL'', argv ! 1]
          else [''PEXPIREAT'', argv ! 1, to_string_int x]) d1 else d1)"
      using Some \<open>parse_int64 (argv ! 2) = Some amount\<close> by (simp add: expire_generic_def Let_def 1 del: One_nat_def split: bool.splits)
    show ?thesis
    proof (cases b)
      case False
      then have "\<not> m_live lo (argv ! 1) m" using b by simp
      from syncedI [OF sees_calls(9) [OF m t [of 1] this, of "clk 2" x, unfolded 1 snd_conv] refl]
      show ?thesis unfolding eq using False by simp
    next
      case b: True
      show ?thesis
      proof (cases "x \<le> clk 0")
        case True
        then have "x \<le> clk 2" using windowD(3) [OF w, of 0 2] by simp
        from sees_calls(7) [OF m t [of 1] this, of "argv ! 1"]
        have s1: "sees log act lo hi m0 (m_reap lo (argv ! 1) m) (m(argv ! 1 := None)) d1"
          unfolding 1 snd_conv .
        have del: "m |` (- {k}) = m(k := None)" for m :: keyspace and k
          by (auto simp: restrict_map_def fun_eq_iff)
        show ?thesis
          unfolding eq using True b
          by (simp, intro syncedI [OF sees_propagate(2) [OF s1]])
            (auto simp: loggable_forms log_apply_forms del m_reap_def)
      next
        case False
        have "act (d_env d1)" using act_calls(1) [OF synced_act [OF s]] 1 by (metis snd_conv)
        then have xw: "x \<le> lo \<or> hi < x" using c b False unfolding eq by (simp add: calm_log_def)
        from sees_calls(6) [OF m t [of 1] xw t [of 2], of "argv ! 1"]
        have s1: "sees log act lo hi m0 (m_reap lo (argv ! 1) m) (m_expire lo (argv ! 1) x m) d1"
          unfolding 1 snd_conv .
        show ?thesis
          unfolding eq using b False
          by (simp, intro syncedI [OF sees_propagate(2) [OF s1]])
            (auto simp: loggable_forms log_apply_forms xw x m_reap_absorb)
      qed
    qed
  qed
qed

text \<open>Deleting with the log behind: \<open>D\<close> are keys deleted but not yet logged.\<close>

lemma sees_del:
  assumes s: "sees log act lo hi m0 F (F |` (- D)) d" and t: "lo \<le> now" "now \<le> hi"
    and r: "st_call sv (store_del now k) d = (live, d')"
  shows "\<exists>F'. sees log act lo hi m0 F' (F' |` (- insert k D)) d' \<and> (\<not> live \<longrightarrow> F' |` (- insert k D) = F' |` (- D))"
proof -
  let ?m = "F |` (- D)"
  have c: "calm lo hi (d_store d)" and m: "kv_map (st_kv (d_store d)) = ?m" and q: "quiet lo hi ?m"
    using s by (auto simp: sees_def holds_def calm_def)
  note a = store_acts(7,8) [OF c t, unfolded m]
  have live: "live \<longleftrightarrow> m_live lo k ?m" using a(2) [of k] arg_cong [OF r, of fst] by simp
  have d': "d' = deliver sv (d\<lparr>d_store := snd (store_del now k (d_store d))\<rparr>)"
    using r by (simp add: st_call_def split_beta)
  let ?F = "if reaped lo k ?m = [] then F else F(k := None)"
  have "?F |` (- insert k D) = ?m(k := None)" by (auto simp: restrict_map_def fun_eq_iff)
  then have "sees log act lo hi m0 ?F (?F |` (- insert k D)) d'"
    using sees_acts [OF s a(1) quiet_del [OF q]] unfolding d' by simp
  moreover have "?F |` (- insert k D) = ?F |` (- D)" if "\<not> live"
    using that live
    by (cases "F k"; cases "k \<in> D") (auto simp: restrict_map_def fun_eq_iff reaped_def m_live_def split: if_splits)
  ultimately show ?thesis by blast
qed

lemma sees_del_loop:
  assumes w: "in_window lo hi clk"
  shows "sees log act lo hi m0 F (F |` (- D)) d \<Longrightarrow> del_loop sv clk i ks n d = (n', d') \<Longrightarrow>
    n \<le> n' \<and> (\<exists>F'. sees log act lo hi m0 F' (F' |` (- (set ks \<union> D))) d' \<and>
      (n' = n \<longrightarrow> F' |` (- (set ks \<union> D)) = F' |` (- D)))"
proof (induction ks arbitrary: i n d F D)
  case (Cons k ks)
  obtain live d1 where 1: "st_call sv (store_del (clk i) k) d = (live, d1)" by fastforce
  from sees_del [OF Cons.prems(1) windowD(1,2) [OF w] 1] obtain F1 where
    F1: "sees log act lo hi m0 F1 (F1 |` (- insert k D)) d1" "\<not> live \<longrightarrow> F1 |` (- insert k D) = F1 |` (- D)" by blast
  have "del_loop sv clk (Suc i) ks (if live then n + 1 else n) d1 = (n', d')" using Cons.prems(2) 1 by simp
  from Cons.IH [OF F1(1) this] obtain F' where
    F': "(if live then n + 1 else n) \<le> n'" "sees log act lo hi m0 F' (F' |` (- (set ks \<union> insert k D))) d'"
    "n' = (if live then n + 1 else n) \<longrightarrow> F' |` (- (set ks \<union> insert k D)) = F' |` (- insert k D)" by blast
  have eq: "set ks \<union> insert k D = set (k # ks) \<union> D" by auto
  show ?case
  proof (cases "n' = n")
    case True
    then have l: "\<not> live" using F'(1) by auto
    have s1: "sees log act lo hi m0 F1 (F1 |` (- D)) d1" using F1 l by simp
    have "del_loop sv clk (Suc i) ks n d1 = (n', d')" using Cons.prems(2) 1 l by simp
    from Cons.IH [OF s1 this] True obtain F2 where
      F2: "sees log act lo hi m0 F2 (F2 |` (- (set ks \<union> D))) d'" "F2 |` (- (set ks \<union> D)) = F2 |` (- D)" by blast
    have "F2 = F'" using F2(1) F'(2) by (simp add: sees_def)
    moreover have "F2 |` (- (set ks \<union> D)) = F' |` (- (set ks \<union> insert k D))"
      using F2(1) F'(2) by (auto simp: sees_def holds_def)
    ultimately show ?thesis using F'(1,2) F2(2) l unfolding eq by (auto intro!: exI [of _ F'])
  next
    case False
    then show ?thesis using F'(1,2) unfolding eq by (auto intro!: exI [of _ F'] split: if_splits)
  qed
qed auto

lemma synced_cmd_del:
  assumes w: "in_window lo hi clk" and s: "synced log act lo hi m0 d" and a: "to_upper (argv ! 0) = ''DEL''" "2 \<le> length argv"
  shows "synced log act lo hi m0 (snd (cmd_del sv clk argv out d))"
proof -
  obtain m where m: "sees log act lo hi m0 m (m |` (- {})) d" using s by (auto simp: synced_def)
  obtain n d1 where 1: "del_loop sv clk 0 (tl argv) 0 d = (n, d1)" by fastforce
  from sees_del_loop [OF w m 1] obtain F where F: "0 \<le> n" "sees log act lo hi m0 F (F |` (- set (tl argv))) d1"
    "n = 0 \<longrightarrow> F |` (- set (tl argv)) = F" by auto
  obtain name ks where argv: "argv = name # ks" "ks \<noteq> []" using a(2) by (cases argv; cases "tl argv") auto
  show ?thesis
  proof (cases "n = 0")
    case True
    then show ?thesis using F 1 by (auto simp: cmd_del_def synced_def)
  next
    case False
    have "sees log act lo hi m0 (log_apply lo argv F) (F |` (- set (tl argv))) (propagate sv argv d1)"
      by (rule sees_propagate(1) [OF F(2)]) (use argv a(1) in \<open>simp add: loggable_forms\<close>)
    then have "synced log act lo hi m0 (propagate sv argv d1)"
      using argv a(1) by (intro syncedI) (auto simp: log_apply_forms)
    then show ?thesis using False F(1) 1 by (simp add: cmd_del_def)
  qed
qed

lemma synced_exists_loop:
  assumes w: "in_window lo hi clk"
  shows "synced log act lo hi m0 d \<Longrightarrow> synced log act lo hi m0 (snd (exists_loop sv clk i ks n d))"
proof (induction ks arbitrary: i n d)
  case (Cons k ks)
  have "synced log act lo hi m0 (snd (st_call sv (store_exists (clk i) k) d))"
    by (rule synced_reads(2) [OF Cons.prems windowD(1,2) [OF w]])
  with Cons.IH show ?case by (cases "st_call sv (store_exists (clk i) k) d") simp
qed simp

lemma synced_cmd_persist:
  assumes w: "in_window lo hi clk" and s: "synced log act lo hi m0 d" and a: "to_upper (argv ! 0) = ''PERSIST''" "length argv = 2"
  shows "synced log act lo hi m0 (snd (cmd_persist sv clk argv out d))"
proof -
  obtain name k where argv: "argv = [name, k]" using a(2) by (auto simp: numeral_2_eq_2 length_Suc_conv)
  obtain m where m: "sees log act lo hi m0 m m d" using s by (auto simp: synced_def)
  note t = windowD(1,2) [OF w, of 0]
  have h: "holds lo hi m d" using m by (simp add: sees_def)
  obtain b d1 where 1: "st_call sv (store_persist (clk 0) k) d = (b, d1)" by fastforce
  note s1 = sees_calls(8) [OF m t, of k, unfolded 1 snd_conv]
  note b = holds_ops(13) [OF h t, of sv k, unfolded 1 fst_conv]
  show ?thesis
  proof (cases b)
    case True
    have "synced log act lo hi m0 (propagate sv argv d1)"
      by (rule syncedI [OF sees_propagate(1) [OF s1]])
        (use argv a(1) in \<open>auto simp: loggable_forms log_apply_forms m_reap_absorb\<close>)
    then show ?thesis using True by (simp add: cmd_persist_def argv 1)
  next
    case False
    then have "m_reap lo k m = m_persist lo k m"
      using b by (auto simp: m_reap_def m_persist_def m_live_def fun_eq_iff)
    then show ?thesis using False s1 by (auto simp: cmd_persist_def argv 1 synced_def)
  qed
qed

lemma synced_restore_key:
  assumes w: "in_window lo hi clk" "0 \<le> lo" "lo \<le> now" "now \<le> hi" and s: "synced log act lo hi m0 d"
    and x: "\<And>x. expire_at = Some x \<Longrightarrow> in_int64 x"
    and c: "calm_log lo hi (log (d_env (snd (restore_key sv clk k v now expire_at out d))))"
  shows "synced log act lo hi m0 (snd (restore_key sv clk k v now expire_at out d))"
proof (cases expire_at)
  case None
  note t = windowD(1,2) [OF w(1)]
  from synced_set_built [OF s t, where keep = False] None show ?thesis by (simp add: restore_key_def Let_def)
next
  case (Some y)
  note t = windowD(1,2) [OF w(1)]
  show ?thesis
  proof (cases "y \<le> now")
    case True
    obtain m where m: "sees log act lo hi m0 m (m |` (- {})) d" using s by (auto simp: synced_def)
    obtain live d1 where 1: "st_call sv (store_del (clk 2) k) d = (live, d1)" by fastforce
    from sees_del [OF m t 1] obtain F where F: "sees log act lo hi m0 F (F |` (- {k})) d1" "\<not> live \<longrightarrow> F |` (- {k}) = F"
      by auto
    have "synced log act lo hi m0 (propagate sv [''DEL'', k] d1)"
      by (rule syncedI [OF sees_propagate(1) [OF F(1)]]) (simp_all add: loggable_forms log_apply_forms)
    then show ?thesis using F Some True 1 by (auto simp: restore_key_def synced_def)
  next
    case False
    have eq: "snd (restore_key sv clk k v now expire_at out d) = propagate_built sv [''SET'', k, v, ''PXAT'', to_string_int y]
        (snd (st_call sv (store_set_expire (clk 3) (clk 4) k y) (st_do sv (store_set (clk 2) k v False) d)))"
      using Some False by (simp add: restore_key_def Let_def)
    have "y \<le> lo \<or> hi < y" using c synced_act [OF s] unfolding eq by (simp add: calm_log_def)
    then show ?thesis
      unfolding eq using synced_set_at_built [OF s t t t] x [OF Some] False w(2,3) by simp
  qed
qed

lemma synced_cmd_restore:
  assumes w: "in_window lo hi clk" "0 \<le> lo" and s: "synced log act lo hi m0 d"
    and c: "calm_log lo hi (log (d_env (snd (cmd_restore sv clk argv out d))))"
  shows "synced log act lo hi m0 (snd (cmd_restore sv clk argv out d))"
proof -
  note t = windowD(1,2) [OF w(1)]
  show ?thesis
  proof (cases "restore_options (drop 4 argv) False False")
    case None
    then show ?thesis using s by (simp add: cmd_restore_def)
  next
    case (Some p)
    obtain rep abs where p: "p = (rep, abs)" by (cases p)
    show ?thesis
    proof (cases "parse_int64 (argv ! 2)")
      case None
      then show ?thesis using s Some p by (simp add: cmd_restore_def)
    next
      case ttl: (Some ttl)
      define r where "r = (if \<not> rep then st_call sv (store_exists (clk 0) (argv ! 1)) d else (False, d))"
      have s1: "synced log act lo hi m0 (snd r)" using s synced_reads(2) [OF s t] by (simp add: r_def)
      define e where "e = (if ttl > 0 then
          Some (if abs then ttl else case deadline_from (clk 1) ttl 1 of Some w \<Rightarrow> w | None \<Rightarrow> int64_max) else None)"
      have e: "in_int64 x" if "e = Some x" for x
        using that parse_int64_range [OF ttl]
        by (auto simp: e_def in_int64_def deadline_from_def Let_def int64_min_def int64_max_def split: if_splits option.splits)
      have eq: "cmd_restore sv clk argv out d =
          (if ttl < 0 then (reply_error out ''ERR Invalid TTL value, must be >= 0'', d)
           else if fst r then (reply_error out ''BUSYKEY Target key name already exists.'', snd r)
           else case restore_value (argv ! 3) of
             None \<Rightarrow> (reply_error out ''ERR DUMP payload version or checksum are wrong'', snd r)
           | Some val \<Rightarrow> restore_key sv clk (argv ! 1) val (clk 1) e out (snd r))"
        by (cases "restore_value (argv ! 3)") (simp_all add: cmd_restore_def Some p ttl r_def e_def Let_def split_beta)
      show ?thesis
        using c s s1 synced_restore_key [OF w t [of 1] s1 e] unfolding eq
        by (auto split: option.splits if_splits)
    qed
  qed
qed

lemma synced_migrate_request:
  assumes w: "in_window lo hi clk"
  shows "synced log act lo hi m0 d \<Longrightarrow> synced log act lo hi m0 (snd (snd (migrate_request sv clk i rep ks req sent d)))"
proof (induction ks arbitrary: i req sent d)
  case (Cons k ks)
  note t = windowD(1,2) [OF w]
  obtain v d1 where 1: "st_call sv (store_get (clk i) k) d = (v, d1)" by fastforce
  obtain p d2 where 2: "st_call sv (store_pttl (clk (i + 1)) (clk (i + 2)) k) d1 = (p, d2)" by fastforce
  have s1: "synced log act lo hi m0 d1" using synced_reads(1) [OF Cons.prems t, of i k] by (simp add: 1)
  have s2: "synced log act lo hi m0 d2"
    using synced_reads(3) [OF s1 t, of "i + 1" "clk (i + 2)" k] unfolding 2 by simp
  show ?case
    using Cons.IH [OF s1] Cons.IH [OF s2] 2
    by (cases v) (simp_all add: 1 Let_def del: One_nat_def add_2_eq_Suc' Suc_eq_plus1)
qed simp

lemma sees_migrate_replies:
  assumes w: "in_window lo hi clk"
  shows "sees log act lo hi m0 F (F |` (- set deleted)) d \<Longrightarrow>
    migrate_replies sv clk i copy rs err deleted d = (err', deleted', d') \<Longrightarrow>
    \<exists>F'. sees log act lo hi m0 F' (F' |` (- set deleted')) d'"
proof (induction rs arbitrary: i err deleted d F)
  case (Cons rk rest)
  obtain reply k where rk: "rk = (reply, k)" by (cases rk)
  note t = windowD(1,2) [OF w]
  show ?case
  proof (cases "reply \<noteq> [] \<and> reply ! 0 = CHR ''-'' \<or> copy")
    case True
    then show ?thesis using Cons.IH [OF Cons.prems(1)] Cons.prems(2) by (auto simp: rk split: if_splits)
  next
    case False
    obtain live d1 where 1: "st_call sv (store_del (clk i) k) d = (live, d1)" by fastforce
    from sees_del [OF Cons.prems(1) t 1] obtain F1 where
      F1: "sees log act lo hi m0 F1 (F1 |` (- insert k (set deleted))) d1"
      "\<not> live \<longrightarrow> F1 |` (- insert k (set deleted)) = F1 |` (- set deleted)" by blast
    have "sees log act lo hi m0 F1 (F1 |` (- set (if live then deleted @ [k] else deleted))) d1"
      using F1 by auto
    from Cons.IH [OF this] Cons.prems(2) False 1 show ?thesis by (auto simp: rk)
  qed
qed auto

lemma synced_migrate_keys:
  assumes w: "in_window lo hi clk" and s: "synced log act lo hi m0 d"
  shows "synced log act lo hi m0 (snd (migrate_keys sv clk copy rep ks out d))"
proof -
  obtain req sent d1 where 1: "migrate_request sv clk 0 rep ks [] [] d = (req, sent, d1)" by (metis prod_cases3)
  obtain ok rs e where 2: "exchange (sv_migrate_io sv) req (length sent) = (ok, rs, e)" by (metis prod_cases3)
  obtain err deleted d2 where 3: "migrate_replies sv clk (3 * length ks) copy (zip rs sent) [] [] d1 = (err, deleted, d2)"
    by (metis prod_cases3)
  have s1: "synced log act lo hi m0 d1" using synced_migrate_request [OF w s, of 0 rep ks "[]" "[]"] by (simp add: 1)
  then obtain m where m: "sees log act lo hi m0 m (m |` (- set [])) d1" by (auto simp: synced_def)
  from sees_migrate_replies [OF w m 3] obtain F where F: "sees log act lo hi m0 F (F |` (- set deleted)) d2" by blast
  have "synced log act lo hi m0 (propagate sv (''DEL'' # deleted) d2)" if "deleted \<noteq> []"
    by (rule syncedI [OF sees_propagate(1) [OF F]]) (use that in \<open>simp_all add: loggable_forms log_apply_forms\<close>)
  moreover have "synced log act lo hi m0 d2" if "deleted = []" using F that by (auto simp: synced_def)
  ultimately show ?thesis using s1 by (simp add: migrate_keys_def 1 2 3)
qed

lemma synced_cmd_migrate:
  assumes w: "in_window lo hi clk" and s: "synced log act lo hi m0 d"
  shows "synced log act lo hi m0 (snd (cmd_migrate sv clk argv out d))"
  using s synced_migrate_keys [OF w s] unfolding cmd_migrate_def
  by (auto split: option.splits sum.splits prod.splits)

lemma sees_evict:
  assumes s: "synced log act lo hi m0 d"
  shows "\<exists>ok st. evict_if_needed (d_store d) = Some (ok, st) \<and> synced log act lo hi m0 (deliver sv (d\<lparr>d_store := st\<rparr>))"
proof -
  obtain m where m: "sees log act lo hi m0 m m d" using s by (auto simp: synced_def)
  then have c: "calm lo hi (d_store d)" "kv_map (st_kv (d_store d)) = m" "st_notified (d_store d) = []"
    by (auto simp: sees_def holds_def)
  have inv: "store_inv (d_store d)" using c by (simp add: calm_def)
  let ?s = "st_kv (d_store d)" and ?cfg = "settings (d_store d)"
  from evict_if_needed_ok [OF inv] obtain st where
    st: "evict_if_needed (d_store d) = Some (fst (kv_evict_if_needed ?cfg ?s), st)"
    "step_ok (d_store d) (snd (kv_evict_if_needed ?cfg ?s)) st" by blast
  obtain ks where ks: "snd (kv_evict_if_needed ?cfg ?s) = kv_drop ks ?s"
    by (rule evict_drops [OF store_inv_kv_ok [OF inv]])
  note ok = st(2) [unfolded ks]
  have map: "kv_map (st_kv st) = m |` (- set ks)"
    by (auto simp: step_okD(2) [OF ok] kv_drop_simps c(2) restrict_map_def fun_eq_iff)
  have n: "st_notified st = ks"
    using arg_cong [OF step_okD(2) [OF ok], of kv_log] c(3) by (simp add: kv_drop_simps st_kv_def)
  note fold_log_dels [of lo ks m]
  moreover have "list_all (loggable lo hi) (map (\<lambda>k. [''DEL'', k]) ks)"
    by (simp add: list_all_iff loggable_forms)
  moreover have "calm lo hi st"
    using c step_okD(1,3) [OF ok] quiet_restrict [of lo hi m] by (simp add: calm_def map)
  then have "calm lo hi (st\<lparr>st_notified := []\<rparr>)" by (simp add: calm_def)
  ultimately have "sees log act lo hi m0 (m |` (- set ks)) (m |` (- set ks)) (deliver sv (d\<lparr>d_store := st\<rparr>))"
    using m by (simp add: sees_def holds_def log_deliver n map)
  then show ?thesis using st(1) by (auto simp: synced_def)
qed

lemma synced_handler:
  assumes f: "find_command (argv ! 0) = Some sp" and data: "to_upper (argv ! 0) \<in> set data_commands"
    and a: "arity_ok (cs_arity sp) (length argv)"
    and w: "in_window lo hi clk" "0 \<le> lo" and s: "synced log act lo hi m0 d"
    and c: "calm_log lo hi (log (d_env (snd (cs_handler sp sv clk argv out d))))"
  shows "synced log act lo hi m0 (snd (cs_handler sp sv clk argv out d))"
proof -
  note t = windowD(1,2) [OF w(1)]
  have get: "synced log act lo hi m0 (snd (cmd_get sv clk argv out d))"
    "synced log act lo hi m0 (snd (cmd_dump sv clk argv out d))"
    using synced_reads(1) [OF s t, of 0 "argv ! 1"]
    by (auto simp: cmd_get_def cmd_dump_def split: prod.splits option.splits)
  have ttl: "synced log act lo hi m0 (snd (cmd_ttl sv clk argv out d))"
    "synced log act lo hi m0 (snd (cmd_pttl sv clk argv out d))"
    using synced_reads(3) [OF s t, of 0 "clk 1" "argv ! 1"]
    by (auto simp: cmd_ttl_def cmd_pttl_def split: prod.splits)
  have exists: "synced log act lo hi m0 (snd (cmd_exists sv clk argv out d))"
    using synced_exists_loop [OF w(1) s, of 0 "tl argv" 0] by (auto simp: cmd_exists_def split: prod.splits)
  have plain: "synced log act lo hi m0 (snd (cmd_ping sv clk argv out d))"
    "synced log act lo hi m0 (snd (cmd_echo sv clk argv out d))" "synced log act lo hi m0 (snd (cmd_dbsize sv clk argv out d))"
    using s by (simp_all add: cmd_ping_def cmd_echo_def cmd_dbsize_def)
  have incr: "synced log act lo hi m0 (snd (cmd_incr sv clk argv out d))"
    "synced log act lo hi m0 (snd (cmd_decr sv clk argv out d))"
    "synced log act lo hi m0 (snd (cmd_incrby sv clk argv out d))"
    "synced log act lo hi m0 (snd (cmd_decrby sv clk argv out d))"
    using s synced_incr_by [OF w(1) s]
    by (simp_all add: cmd_incr_def cmd_decr_def cmd_incrby_def cmd_decrby_def split: option.splits)
  note expire = synced_expire [OF w(1) s]
  show ?thesis
    using f data a c
    by (auto simp: data_commands_def find_command_def command_table_def spec_def arity_ok_def
        get ttl exists plain incr synced_cmd_migrate [OF w(1) s]
        cmd_expire_def cmd_pexpire_def cmd_expireat_def cmd_pexpireat_def
        intro!: expire synced_cmd_set [OF w s] synced_cmd_restore [OF w s]
          synced_cmd_del [OF w(1) s] synced_cmd_persist [OF w(1) s])
qed

lemma synced_client [simp]: "synced log act lo hi m0 (d\<lparr>d_client := c\<rparr>) = synced log act lo hi m0 d"
  by (simp add: synced_def sees_def holds_def)

lemma dispatch_synced:
  assumes cl: "sv_cluster sv = None" and w: "in_window lo hi clk" "0 \<le> lo" and s: "synced log act lo hi m0 d"
    and data: "argv = [] \<or> to_upper (argv ! 0) \<in> set data_commands"
  shows "\<exists>out' d'. dispatch sv clk argv out d = Some (out', d') \<and>
    (calm_log lo hi (log (d_env d')) \<longrightarrow> synced log act lo hi m0 d')"
proof (cases "argv = []")
  case True
  then show ?thesis using s by (simp add: dispatch_def)
next
  case False
  define d1 where "d1 = d\<lparr>d_client := map_option (c_asking_update (\<lambda>_. False)) (d_client d)\<rparr>"
  have s1: "synced log act lo hi m0 d1" using s by (simp add: d1_def)
  obtain sp :: "'e command_spec" where sp: "find_command (argv ! 0) = Some sp"
    using data False by (auto simp: data_commands_def find_command_def command_table_def)
  show ?thesis
  proof (cases "arity_ok (cs_arity sp) (length argv)")
    case False
    then show ?thesis using \<open>argv \<noteq> []\<close> sp s1 unfolding d1_def by (simp add: dispatch_def Let_def)
  next
    case True
    have disp: "dispatch sv clk argv out d = run_handler sv clk sp argv out d1"
      using True \<open>argv \<noteq> []\<close> sp cl unfolding d1_def by (simp add: dispatch_def Let_def route_check_def)
    define fm where "fm = (case d_client d1 of Some c \<Rightarrow> c_is_master c | None \<Rightarrow> False)"
    show ?thesis
    proof (cases "write_check sv sp fm d1")
      case (Some err)
      then show ?thesis using s1 by (simp add: disp run_handler_def fm_def [symmetric])
    next
      case None
      obtain r d2 where 2: "oom_check sv sp fm d1 = Some (r, d2)" "synced log act lo hi m0 d2"
      proof (cases "kDenyOom \<in> set (cs_flags sp) \<and> \<not> loading sv (d_env d1) \<and> \<not> fm")
        case True
        then show ?thesis using sees_evict [OF s1] that by (fastforce simp: oom_check_def)
      next
        case False
        then have "oom_check sv sp fm d1 = Some (None, d1)" by (auto simp: oom_check_def)
        then show ?thesis using s1 that by blast
      qed
      show ?thesis
      proof (cases r)
        case (Some err)
        then show ?thesis using None 2 by (simp add: disp run_handler_def fm_def [symmetric])
      next
        case r: None
        have "dispatch sv clk argv out d = Some (cs_handler sp sv (\<lambda>i. clk (2 * i + 1)) argv out d2)"
          using None 2 r by (simp add: disp run_handler_def fm_def [symmetric])
        then show ?thesis
          using synced_handler [OF sp _ True window_handler [OF w(1)] w(2) 2(2), of out] data \<open>argv \<noteq> []\<close>
          by (cases "cs_handler sp sv (\<lambda>i. clk (2 * i + 1)) argv out d2") auto
      qed
    qed
  qed
qed

end

section \<open>Time passes\<close>

text \<open>
  What is left of a keyspace at a time: the keys whose deadline has not passed. A log is replayed
  later than it was written, and a deadline may have passed in between. The result is what is left
  of the keyspace that was, provided that no key was given a new deadline, or none, or a new value
  under the old one, while it had one that has passed at the time of the replay.
\<close>

definition alive :: "int \<Rightarrow> keyspace \<Rightarrow> keyspace" where
  "alive t m = (\<lambda>k. if m_live t k m then m k else None)"

definition retimes :: "args \<Rightarrow> bool" where
  "retimes argv \<longleftrightarrow>
     (let name = to_upper (argv ! 0) in
      name = ''PEXPIREAT'' \<or> name = ''PERSIST'' \<or> name = ''SET'' \<and> length argv = 4)"

definition outlives :: "int \<Rightarrow> int \<Rightarrow> args \<Rightarrow> keyspace \<Rightarrow> bool" where
  "outlives lo t argv m \<longleftrightarrow>
     (retimes argv \<longrightarrow> (case m (argv ! 1) of Some (v, Some w) \<Rightarrow> w \<le> lo \<or> t < w | _ \<Rightarrow> True))"

fun all_outlive :: "int \<Rightarrow> int \<Rightarrow> args list \<Rightarrow> keyspace \<Rightarrow> bool" where
  "all_outlive lo t [] m \<longleftrightarrow> True"
| "all_outlive lo t (argv # log) m \<longleftrightarrow> outlives lo t argv m \<and> all_outlive lo t log (log_apply lo argv m)"

lemma alive_alive [simp]: "alive t (alive t m) = alive t m"
  by (auto simp: alive_def m_live_def fun_eq_iff)

lemma alive_eq:
  assumes "alive t m = alive t n"
  shows "m_live t k m = m_live t k n" "m_live t k n \<Longrightarrow> m k = n k"
  using fun_cong [OF assms, of k] by (auto simp: alive_def m_live_def split: if_splits)

lemma alive_pointwise: "alive t m = alive t n \<longleftrightarrow> (\<forall>k. m_live t k m = m_live t k n \<and> (m_live t k n \<longrightarrow> m k = n k))"
proof
  show "alive t m = alive t n" if "\<forall>k. m_live t k m = m_live t k n \<and> (m_live t k n \<longrightarrow> m k = n k)"
    unfolding alive_def using that by (intro ext) simp
qed (blast dest: alive_eq)

lemma m_live_upd:
  "m_live t k (m(j := x)) = (if k = j then (case x of Some (v, Some w) \<Rightarrow> t < w | Some (v, None) \<Rightarrow> True | None \<Rightarrow> False) else m_live t k m)"
  by (auto simp: m_live_def split: option.splits)

lemma m_live_restrict: "m_live t k (m |` A) \<longleftrightarrow> k \<in> A \<and> m_live t k m"
  by (auto simp: m_live_def restrict_map_def)

lemma alive_upd: "alive t m = alive t n \<Longrightarrow> alive t (m(k := x)) = alive t (n(k := x))"
  by (auto simp: alive_pointwise m_live_upd)

lemma live_later:
  "alive t m = alive t n \<Longrightarrow> lo \<le> t \<Longrightarrow> (case m k of Some (v, Some w) \<Rightarrow> w \<le> lo \<or> t < w | _ \<Rightarrow> True) \<Longrightarrow>
     m_live lo k m = m_live t k n \<and> (m_live t k n \<longrightarrow> m k = n k)"
  using alive_eq [of t m n k] by (auto simp: m_live_def split: option.splits)

lemma log_forms:
  assumes "loggable lo hi argv"
  obtains (del) name ks where "to_upper name = ''DEL''" "argv = name # ks"
  | (set) k v where "argv = [''SET'', k, v]"
  | (keep) k v where "argv = [''SET'', k, v, ''KEEPTTL'']"
  | (set_at) k v w where "argv = [''SET'', k, v, ''PXAT'', to_string_int w]" "in_int64 w"
  | (expire) k w where "argv = [''PEXPIREAT'', k, to_string_int w]" "in_int64 w"
  | (persist) name k where "to_upper name = ''PERSIST''" "argv = [name, k]"
proof -
  obtain f where "form_ok lo hi f" "argv = form_args f" using assms by (auto simp: loggable_def)
  then show thesis by (cases f) (auto intro: that)
qed

lemma retimes_forms:
  "retimes [''SET'', k, v, ''KEEPTTL'']" "retimes [''PEXPIREAT'', k, x]" "to_upper name = ''PERSIST'' \<Longrightarrow> retimes [name, k]"
  by (simp_all add: retimes_def)

lemma alive_log_apply:
  assumes "lo \<le> t" "alive t m = alive t n" "outlives lo t argv m" "loggable lo' hi' argv"
  shows "alive t (log_apply lo argv m) = alive t (log_apply t argv n)"
  using assms(4)
proof (cases rule: log_forms)
  case (del name ks)
  then show ?thesis using assms(2) by (simp add: log_apply_forms alive_pointwise m_live_restrict)
next
  case (set k v)
  then show ?thesis using alive_upd [OF assms(2)] by (simp add: log_apply_forms m_set_def)
next
  case (keep k v)
  then have "m_live lo k m = m_live t k n \<and> (m_live t k n \<longrightarrow> m k = n k)"
    using assms(3) by (intro live_later [OF assms(2,1)]) (simp add: outlives_def retimes_forms)
  then show ?thesis using alive_upd [OF assms(2)] keep by (simp add: log_apply_forms m_set_def)
next
  case (set_at k v w)
  then show ?thesis using assms(1,2)
    by (auto simp: log_apply_forms m_set_def m_expire_def m_live_upd alive_pointwise)
next
  case (expire k w)
  then have "m_live lo k m = m_live t k n \<and> (m_live t k n \<longrightarrow> m k = n k)"
    using assms(3) by (intro live_later [OF assms(2,1)]) (simp add: outlives_def retimes_forms)
  then show ?thesis using assms(1,2) expire
    by (auto simp: log_apply_forms m_expire_def m_live_upd alive_pointwise)
next
  case (persist name k)
  then have "m_live lo k m = m_live t k n \<and> (m_live t k n \<longrightarrow> m k = n k)"
    using assms(3) by (intro live_later [OF assms(2,1)]) (simp add: outlives_def retimes_forms)
  then show ?thesis using assms(2) persist
    by (auto simp: log_apply_forms m_persist_def m_live_upd alive_pointwise)
qed

lemma alive_log:
  assumes "lo \<le> t" "alive t m = alive t n" "all_outlive lo t log m" "list_all (loggable lo' hi') log"
  shows "alive t (fold (log_apply lo) log m) = alive t (fold (log_apply t) log n)"
  using assms(2-)
proof (induction log arbitrary: m n)
  case (Cons argv log)
  then show ?case using alive_log_apply [OF assms(1) Cons.prems(1), of argv lo' hi'] by simp
qed simp

text \<open>A replay leaves no key whose deadline has passed.\<close>

lemma alive_iff: "alive t n = n \<longleftrightarrow> (\<forall>k. n k \<noteq> None \<longrightarrow> m_live t k n)"
  unfolding alive_def fun_eq_iff by metis

lemma alive_upds:
  assumes "alive t m = m"
  shows "alive t (m |` A) = m |` A" "alive t (m(k := None)) = m(k := None)" "alive t (m(k \<mapsto> (v, None))) = m(k \<mapsto> (v, None))"
    "t < w \<Longrightarrow> alive t (m(k \<mapsto> (v, Some w))) = m(k \<mapsto> (v, Some w))"
    "m_live t k m \<Longrightarrow> alive t (m(k \<mapsto> (v, snd (the (m k))))) = m(k \<mapsto> (v, snd (the (m k))))"
proof -
  have a: "m j \<noteq> None \<Longrightarrow> m_live t j m" for j using assms by (simp only: alive_iff) blast
  show "alive t (m |` A) = m |` A" unfolding alive_iff m_live_restrict using a by (metis restrict_in restrict_out)
  show "alive t (m(k := None)) = m(k := None)" "alive t (m(k \<mapsto> (v, None))) = m(k \<mapsto> (v, None))"
    "t < w \<Longrightarrow> alive t (m(k \<mapsto> (v, Some w))) = m(k \<mapsto> (v, Some w))"
    using a by (simp_all add: alive_iff m_live_upd)
  show "m_live t k m \<Longrightarrow> alive t (m(k \<mapsto> (v, snd (the (m k))))) = m(k \<mapsto> (v, snd (the (m k))))"
    using a by (auto simp: alive_iff m_live_upd m_live_def [of t k m] split: option.splits)
qed

lemma log_apply_alive:
  assumes "alive t m = m" "loggable lo' hi' argv"
  shows "alive t (log_apply t argv m) = log_apply t argv m"
  using assms(2)
proof (cases rule: log_forms)
  case (keep k v)
  then show ?thesis using alive_upds [OF assms(1)] by (simp add: log_apply_forms m_set_def)
qed (use alive_upds [OF assms(1)] in
  \<open>simp_all add: log_apply_forms m_set_def m_expire_def m_persist_def not_le del: fun_upd_apply\<close>)

lemma replayed_alive:
  "alive t m = m \<Longrightarrow> list_all (loggable lo' hi') log \<Longrightarrow> alive t (fold (log_apply t) log m) = fold (log_apply t) log m"
  by (induction log arbitrary: m) (auto dest: log_apply_alive)

text \<open>With no window, only the form of a command matters.\<close>

lemma loggable_weaken: "loggable lo hi argv \<Longrightarrow> loggable t t argv"
  unfolding loggable_def by (elim exE conjE, rename_tac f, rule_tac x = f in exI) (auto elim!: form_ok.elims)

lemma loggable_calm:
  assumes "list_all (loggable t t) log" "calm_log lo hi log"
  shows "list_all (loggable lo hi) log"
  unfolding list_all_iff
proof
  fix argv assume argv: "argv \<in> set log"
  then obtain f where f: "form_ok t t f" "argv = form_args f" using assms(1) by (auto simp: list_all_iff loggable_def)
  then have "form_ok lo hi f" using assms(2) argv by (cases f) (auto simp: calm_log_def)
  then show "loggable lo hi argv" using f(2) by (auto simp: loggable_def)
qed

end
