(* ===== verification/Aof.thy ===== *)
theory Aof
  imports Dispatcher Snapshot_Properties "HOL-Library.Monad_Syntax"
begin

text \<open>
  The append-only file (\<^verbatim>\<open>aof.hpp\<close>, \<^verbatim>\<open>aof.cpp\<close>): the manifest that lists its parts,
  creating, loading, appending and rewriting. \<open>files\<close> maps a path to the contents of the file, as
  a process that starts at that moment would read it. What the kernel answers to the calls of an
  operation is its argument; an error number 0 is success. \<open>se\<close> is \<^verbatim>\<open>std::strerror\<close>.
\<close>

section \<open>State\<close>

type_synonym files = "bytes \<rightharpoonup> bytes"
type_synonym strerror = "nat \<Rightarrow> bytes"

datatype fsync_policy = kAlways | kEverySec | kNo

record file_entry =
  fe_name :: bytes
  fe_seq :: u64
  fe_is_base :: bool

record fsync_worker =
  fw_busy :: bool
  fw_errno :: nat

record aof =
  ao_dir :: bytes
  ao_policy :: fsync_policy
  ao_worker :: "fsync_worker option"
  ao_base :: "file_entry option"
  ao_incrs :: "file_entry list"
  ao_next_seq :: u64
  ao_fd :: "bytes option"
  ao_buf :: bytes
  ao_write_errno :: nat
  ao_unsynced :: bool
  ao_last_fsync :: int
  ao_base_bytes :: u64
  ao_older_incr_bytes :: u64
  ao_incr_bytes :: u64
  ao_size_after_rewrite :: u64

definition kManifestName :: bytes where "kManifestName = ''appendonly.aof.manifest''"

text \<open>One second, in the steady clock's nanoseconds.\<close>

definition kEverySecInterval :: int where "kEverySecInterval = 1000000000"

definition to_string_u64 :: "u64 \<Rightarrow> bytes" where
  "to_string_u64 n = to_string_nat (unat n)"

definition base_name :: "u64 \<Rightarrow> bytes" where
  "base_name n = ''appendonly.aof.'' @ to_string_u64 n @ ''.base.snap''"

definition incr_name :: "u64 \<Rightarrow> bytes" where
  "incr_name n = ''appendonly.aof.'' @ to_string_u64 n @ ''.incr.aof''"

definition file_size :: "files \<Rightarrow> bytes \<Rightarrow> u64" where
  "file_size files path = (case files path of Some c \<Rightarrow> of_nat (length c) | None \<Rightarrow> 0)"

section \<open>The background fsync\<close>

text \<open>
  The thread has at most one request. \<open>worker_done\<close> is the end of a round of its loop, with what
  \<^verbatim>\<open>fdatasync\<close> returned; waiting for it is taking that step if a request is pending.
\<close>

definition try_submit :: "fsync_worker \<Rightarrow> bool \<times> fsync_worker" where
  "try_submit w = (if fw_busy w then (False, w) else (True, w\<lparr>fw_busy := True\<rparr>))"

definition worker_done :: "nat \<Rightarrow> fsync_worker \<Rightarrow> fsync_worker" where
  "worker_done rc w = w\<lparr>fw_errno := rc, fw_busy := False\<rparr>"

definition wait_idle :: "nat \<Rightarrow> fsync_worker \<Rightarrow> fsync_worker" where
  "wait_idle rc w = (if fw_busy w then worker_done rc w else w)"

definition make_aof :: "bytes \<Rightarrow> fsync_policy \<Rightarrow> aof" where
  "make_aof dir policy =
     \<lparr>ao_dir = dir, ao_policy = policy,
      ao_worker = (if policy = kEverySec then Some \<lparr>fw_busy = False, fw_errno = 0\<rparr> else None),
      ao_base = None, ao_incrs = [], ao_next_seq = 1, ao_fd = None, ao_buf = [], ao_write_errno = 0,
      ao_unsynced = False, ao_last_fsync = 0, ao_base_bytes = 0, ao_older_incr_bytes = 0,
      ao_incr_bytes = 0, ao_size_after_rewrite = 0\<rparr>"

definition aof_path :: "aof \<Rightarrow> bytes \<Rightarrow> bytes" where
  "aof_path a name = join (ao_dir a) name"

definition temp_base_path :: "aof \<Rightarrow> nat \<Rightarrow> bytes" where
  "temp_base_path a child_pid = aof_path a (''temp-rewrite-'' @ to_string_nat child_pid @ ''.snap'')"

definition aof_exists :: "files \<Rightarrow> aof \<Rightarrow> bool" where
  "aof_exists files a \<longleftrightarrow> files (aof_path a kManifestName) \<noteq> None"

definition current_size :: "aof \<Rightarrow> u64" where
  "current_size a = ao_base_bytes a + ao_older_incr_bytes a + ao_incr_bytes a"

definition healthy :: "aof \<Rightarrow> bool" where
  "healthy a \<longleftrightarrow>
     ao_write_errno a = 0 \<and> (case ao_worker a of None \<Rightarrow> True | Some w \<Rightarrow> fw_errno w = 0)"

definition last_error :: "strerror \<Rightarrow> aof \<Rightarrow> bytes" where
  "last_error se a =
     (let err = (if ao_write_errno a \<noteq> 0 then ao_write_errno a
                 else case ao_worker a of None \<Rightarrow> 0 | Some w \<Rightarrow> fw_errno w)
      in if err \<noteq> 0 then se err else ''no error'')"

section \<open>The manifest\<close>

text \<open>
  \<^verbatim>\<open>std::getline\<close> until the end of the file, and the extractions of words and numbers from a
  string stream: leading white space is skipped, a number may have a sign (negated as unsigned).
\<close>

function getlines :: "bytes \<Rightarrow> bytes list" where
  "getlines s =
     (if s = [] then []
      else takeWhile (\<lambda>c. c \<noteq> CHR 0x0A) s # getlines (drop 1 (dropWhile (\<lambda>c. c \<noteq> CHR 0x0A) s)))"
  by pat_completeness auto
termination
proof (relation "measure length")
  fix s :: bytes assume "s \<noteq> []"
  then have "0 < length s" by simp
  moreover have "length (dropWhile (\<lambda>c. c \<noteq> CHR 0x0A) s) \<le> length s" by (rule length_dropWhile_le)
  ultimately have "length (dropWhile (\<lambda>c. c \<noteq> CHR 0x0A) s) - 1 < length s" by linarith
  then show "(drop 1 (dropWhile (\<lambda>c. c \<noteq> CHR 0x0A) s), s) \<in> measure length" by simp
qed simp

declare getlines.simps [simp del]

definition is_space :: "char \<Rightarrow> bool" where
  "is_space c \<longleftrightarrow> c \<in> {CHR '' '', CHR 0x09, CHR 0x0A, CHR 0x0B, CHR 0x0C, CHR 0x0D}"

definition extract_word :: "bytes \<Rightarrow> (bytes \<times> bytes) option" where
  "extract_word s =
     (let s = dropWhile is_space s; w = takeWhile (\<lambda>c. \<not> is_space c) s in
      if w = [] then None else Some (w, dropWhile (\<lambda>c. \<not> is_space c) s))"

definition extract_uint64 :: "bytes \<Rightarrow> (u64 \<times> bytes) option" where
  "extract_uint64 s =
     (let s = dropWhile is_space s;
          neg = (s \<noteq> [] \<and> hd s = CHR ''-'');
          s = (if s \<noteq> [] \<and> (hd s = CHR ''-'' \<or> hd s = CHR ''+'') then tl s else s);
          ds = takeWhile is_digit s
      in if ds = [] \<or> digits_val ds > uint64_max then None
         else Some (if neg then - of_nat (digits_val ds) else of_nat (digits_val ds), dropWhile is_digit s))"

definition parse_manifest_line :: "bytes \<Rightarrow> file_entry option" where
  "parse_manifest_line line =
     do {
       (file_kw, s) \<leftarrow> extract_word line;
       (name, s) \<leftarrow> extract_word s;
       (seq_kw, s) \<leftarrow> extract_word s;
       (n, s) \<leftarrow> extract_uint64 s;
       (type_kw, s) \<leftarrow> extract_word s;
       (type, s) \<leftarrow> extract_word s;
       (if file_kw \<noteq> ''file'' \<or> seq_kw \<noteq> ''seq'' \<or> type_kw \<noteq> ''type'' \<or> (type \<noteq> ''b'' \<and> type \<noteq> ''i'') \<or>
           CHR ''/'' \<in> set name
        then None
        else Some \<lparr>fe_name = name, fe_seq = n, fe_is_base = (type = ''b'')\<rparr>)
     }"

text \<open>The loop of \<open>read_manifest\<close>: the error text, if any, and the state.\<close>

fun manifest_lines :: "bytes list \<Rightarrow> aof \<Rightarrow> bytes option \<times> aof" where
  "manifest_lines [] a =
     (if ao_incrs a = [] then (Some ''AOF manifest lists no incr file'', a) else (None, a))"
| "manifest_lines (line # lines) a =
     (if line = [] then manifest_lines lines a
      else case parse_manifest_line line of
        None \<Rightarrow> (Some (''malformed AOF manifest line: '' @ line), a)
      | Some entry \<Rightarrow>
          if fe_is_base entry then
            if ao_base a \<noteq> None \<or> ao_incrs a \<noteq> [] then
              (Some ''AOF manifest: the base file must be listed once, first'', a)
            else manifest_lines lines
                   (a\<lparr>ao_base := Some entry, ao_next_seq := max (ao_next_seq a) (fe_seq entry + 1)\<rparr>)
          else manifest_lines lines
                 (a\<lparr>ao_incrs := ao_incrs a @ [entry], ao_next_seq := max (ao_next_seq a) (fe_seq entry + 1)\<rparr>))"

text \<open>\<open>opened\<close> is the error number of opening the file.\<close>

definition read_manifest :: "strerror \<Rightarrow> nat \<Rightarrow> files \<Rightarrow> aof \<Rightarrow> bytes option \<times> aof" where
  "read_manifest se opened files a =
     (case files (aof_path a kManifestName) of
        Some content \<Rightarrow>
          if opened \<noteq> 0 then (Some (aof_path a kManifestName @ '': '' @ se opened), a)
          else manifest_lines (getlines content) a
      | None \<Rightarrow> (Some (aof_path a kManifestName @ '': '' @ se opened), a))"

definition manifest_line :: "file_entry \<Rightarrow> bytes" where
  "manifest_line f =
     ''file '' @ fe_name f @ '' seq '' @ to_string_u64 (fe_seq f) @ '' type '' @
       (if fe_is_base f then ''b'' else ''i'')"

definition manifest_content :: "aof \<Rightarrow> bytes" where
  "manifest_content a =
     concat (map (\<lambda>f. manifest_line f @ [CHR 0x0A])
       ((case ao_base a of None \<Rightarrow> [] | Some b \<Rightarrow> [b]) @ ao_incrs a))"

text \<open>
  What the calls of \<open>persist_manifest\<close> do: \<open>mi_written\<close> is the result of \<^verbatim>\<open>write_all\<close>, the last
  is the error number after a failure.
\<close>

record manifest_io =
  mi_open :: bool
  mi_written :: nat
  mi_fsync :: bool
  mi_rename :: bool
  mi_dir :: "bool \<times> bool"
  mi_errno :: nat

definition persist_manifest :: "strerror \<Rightarrow> manifest_io \<Rightarrow> files \<Rightarrow> aof \<Rightarrow> bytes option \<times> files" where
  "persist_manifest se io files a =
     (let content = manifest_content a;
          manifest = aof_path a kManifestName;
          temp = aof_path a (kManifestName @ ''.tmp'');
          files = (if mi_open io then files(temp \<mapsto> take (mi_written io) content) else files);
          ok = (mi_open io \<and> mi_written io = length content \<and> mi_fsync io);
          (ok, target) = (if ok then durable_rename (mi_rename io) (mi_dir io) content (files manifest)
                          else (False, files manifest));
          files = files(manifest := target, temp := None)
      in (if ok then None else Some (''writing the AOF manifest: '' @ se (mi_errno io)), files))"

section \<open>Creating and replacing\<close>

record create_io =
  ci_mkdir :: bool
  ci_save_open :: bool
  ci_save_write :: "nat \<Rightarrow> bytes \<Rightarrow> nat"
  ci_save_fsync :: bool
  ci_save_close :: bool
  ci_save_rename :: bool
  ci_save_dir :: "bool \<times> bool"
  ci_save_now :: int
  ci_open :: bool
  ci_manifest :: manifest_io
  ci_errno :: nat

definition aof_create ::
  "strerror \<Rightarrow> create_io \<Rightarrow> store \<Rightarrow> files \<Rightarrow> aof \<Rightarrow> bytes option \<times> files \<times> aof" where
  "aof_create se io st files a =
     (if \<not> ci_mkdir io then (Some (ao_dir a @ '': '' @ se (ci_errno io)), files, a)
      else
        let base = \<lparr>fe_name = base_name (ao_next_seq a), fe_seq = ao_next_seq a, fe_is_base = True\<rparr>;
            incr = \<lparr>fe_name = incr_name (ao_next_seq a + 1), fe_seq = ao_next_seq a + 1, fe_is_base = False\<rparr>;
            base_path = aof_path a (fe_name base);
            incr_path = aof_path a (fe_name incr);
            (saved, content) = save (ci_save_open io) (ci_save_write io) (ci_save_fsync io) (ci_save_close io)
                                 (ci_save_rename io) (ci_save_dir io) (ci_save_now io) st (files base_path);
            files = files(base_path := content)
        in if \<not> saved then (Some (''writing the AOF base: '' @ se (ci_errno io)), files, a)
           else if \<not> ci_open io then (Some (incr_path @ '': '' @ se (ci_errno io)), files, a)
           else
             let files = files(incr_path \<mapsto> []);
                 a = a\<lparr>ao_base := Some base, ao_incrs := [incr]\<rparr>
             in case persist_manifest se (ci_manifest io) files a of
                  (Some err, files) \<Rightarrow> (Some err, files, a)
                | (None, files) \<Rightarrow>
                    let a = a\<lparr>ao_next_seq := ao_next_seq a + 2, ao_fd := Some incr_path,
                              ao_base_bytes := file_size files base_path,
                              ao_older_incr_bytes := 0, ao_incr_bytes := 0\<rparr>
                    in (None, files, a\<lparr>ao_size_after_rewrite := current_size a\<rparr>))"

definition unlink_entries :: "aof \<Rightarrow> file_entry list \<Rightarrow> files \<Rightarrow> files" where
  "unlink_entries a es files = fold (\<lambda>f fs. fs(aof_path a (fe_name f) := None)) es files"

text \<open>\<open>rc\<close> is the outcome of the fsync that may be running.\<close>

definition aof_reset ::
  "strerror \<Rightarrow> nat \<Rightarrow> create_io \<Rightarrow> store \<Rightarrow> files \<Rightarrow> aof \<Rightarrow> bytes option \<times> files \<times> aof" where
  "aof_reset se rc io st files a =
     (let a = a\<lparr>ao_worker := map_option (wait_idle rc) (ao_worker a)\<rparr>;
          old_base = ao_base a; old_incrs = ao_incrs a
      in case aof_create se io st files a of
           (Some err, files, a) \<Rightarrow> (Some err, files, a\<lparr>ao_base := old_base, ao_incrs := old_incrs\<rparr>)
         | (None, files, a) \<Rightarrow>
             (None,
              unlink_entries a ((case old_base of None \<Rightarrow> [] | Some b \<Rightarrow> [b]) @ old_incrs) files,
              a\<lparr>ao_buf := [], ao_write_errno := 0, ao_unsynced := False\<rparr>))"

section \<open>Appending\<close>

definition aof_feed :: "args \<Rightarrow> aof \<Rightarrow> aof" where
  "aof_feed argv a = a\<lparr>ao_buf := reply_command (ao_buf a) argv\<rparr>"

text \<open>Writing at the end of the file that is open, and cutting it to a length.\<close>

definition fd_append :: "aof \<Rightarrow> bytes \<Rightarrow> files \<Rightarrow> files" where
  "fd_append a data files =
     (case ao_fd a of None \<Rightarrow> files | Some p \<Rightarrow> files(p := map_option (\<lambda>c. c @ data) (files p)))"

definition fd_truncate :: "aof \<Rightarrow> nat \<Rightarrow> files \<Rightarrow> files" where
  "fd_truncate a n files =
     (case ao_fd a of
        None \<Rightarrow> files
      | Some p \<Rightarrow> files(p := map_option (\<lambda>c. take n (c @ replicate n (CHR 0x00))) (files p)))"

text \<open>
  What the calls of \<open>flush\<close> do: the result of \<^verbatim>\<open>write_all\<close> and its error number, whether
  \<^verbatim>\<open>ftruncate\<close> succeeded, the error number of \<^verbatim>\<open>fdatasync\<close>, and the steady clock.
\<close>

record flush_io =
  fi_written :: nat
  fi_errno :: nat
  fi_truncated :: bool
  fi_fsync :: nat
  fi_now :: int

definition flush_write :: "flush_io \<Rightarrow> files \<Rightarrow> aof \<Rightarrow> bool \<times> files \<times> aof" where
  "flush_write io files a =
     (if ao_buf a = [] then (True, files, a)
      else
        let written = fi_written io; files = fd_append a (take written (ao_buf a)) files in
        if written < length (ao_buf a) then
          let a = a\<lparr>ao_write_errno := fi_errno io\<rparr> in
          if written > 0 then
            if \<not> fi_truncated io then
              (False, files, a\<lparr>ao_incr_bytes := ao_incr_bytes a + of_nat written, ao_buf := drop written (ao_buf a)\<rparr>)
            else (False, fd_truncate a (unat (ao_incr_bytes a)) files, a)
          else (False, files, a)
        else
          let a = a\<lparr>ao_incr_bytes := ao_incr_bytes a + of_nat written, ao_buf := [],
                    ao_write_errno := 0, ao_unsynced := True\<rparr>
          in if ao_policy a = kAlways then
               if fi_fsync io \<noteq> 0 then (False, files, a\<lparr>ao_write_errno := fi_fsync io\<rparr>)
               else (True, files, a\<lparr>ao_unsynced := False\<rparr>)
             else (True, files, a))"

definition flush_submit :: "int \<Rightarrow> aof \<Rightarrow> aof" where
  "flush_submit now a =
     (case ao_worker a of
        None \<Rightarrow> a
      | Some w \<Rightarrow>
          if ao_policy a = kEverySec \<and> ao_unsynced a \<and> now - ao_last_fsync a \<ge> kEverySecInterval then
            (case try_submit w of
               (True, w) \<Rightarrow> a\<lparr>ao_worker := Some w, ao_unsynced := False, ao_last_fsync := now\<rparr>
             | (False, w) \<Rightarrow> a)
          else a)"

definition aof_flush :: "flush_io \<Rightarrow> files \<Rightarrow> aof \<Rightarrow> bool \<times> files \<times> aof" where
  "aof_flush io files a =
     (case flush_write io files a of
        (False, files, a) \<Rightarrow> (False, files, a)
      | (True, files, a) \<Rightarrow> (True, files, flush_submit (fi_now io) a))"

text \<open>\<open>rc\<close> is the outcome of the fsync that may be running, \<open>fsync\<close> of the one made here.\<close>

definition flush_and_sync :: "flush_io \<Rightarrow> nat \<Rightarrow> nat \<Rightarrow> files \<Rightarrow> aof \<Rightarrow> bool \<times> files \<times> aof" where
  "flush_and_sync io rc fsync files a =
     (case aof_flush io files a of
        (False, files, a) \<Rightarrow> (False, files, a)
      | (True, files, a) \<Rightarrow>
          let a = a\<lparr>ao_worker := map_option (wait_idle rc) (ao_worker a)\<rparr> in
          if fsync \<noteq> 0 then (False, files, a\<lparr>ao_write_errno := fsync\<rparr>)
          else (True, files, a\<lparr>ao_unsynced := False\<rparr>))"

section \<open>Rewriting\<close>

record rewrite_io =
  wi_flush :: flush_io
  wi_worker :: nat
  wi_fsync :: nat
  wi_open :: nat
  wi_manifest :: manifest_io

definition begin_rewrite :: "strerror \<Rightarrow> rewrite_io \<Rightarrow> files \<Rightarrow> aof \<Rightarrow> bytes option \<times> files \<times> aof" where
  "begin_rewrite se io files a =
     (case flush_and_sync (wi_flush io) (wi_worker io) (wi_fsync io) files a of
        (False, files, a) \<Rightarrow> (Some (''flushing the AOF before rewrite: '' @ last_error se a), files, a)
      | (True, files, a) \<Rightarrow>
          let incr = \<lparr>fe_name = incr_name (ao_next_seq a), fe_seq = ao_next_seq a, fe_is_base = False\<rparr>;
              incr_path = aof_path a (fe_name incr)
          in if wi_open io \<noteq> 0 then (Some (incr_path @ '': '' @ se (wi_open io)), files, a)
             else
               let files = files(incr_path \<mapsto> []);
                   pushed = a\<lparr>ao_incrs := ao_incrs a @ [incr]\<rparr>
               in case persist_manifest se (wi_manifest io) files pushed of
                    (Some err, files) \<Rightarrow> (Some err, files(incr_path := None), a)
                  | (None, files) \<Rightarrow>
                      (None, files,
                       pushed\<lparr>ao_next_seq := ao_next_seq a + 1, ao_fd := Some incr_path,
                              ao_older_incr_bytes := ao_older_incr_bytes a + ao_incr_bytes a,
                              ao_incr_bytes := 0\<rparr>))"

text \<open>\<open>renamed\<close> is the error number of moving the child's file into place.\<close>

definition finish_rewrite ::
  "strerror \<Rightarrow> nat \<Rightarrow> manifest_io \<Rightarrow> bool \<Rightarrow> bytes \<Rightarrow> files \<Rightarrow> aof \<Rightarrow> bytes option \<times> files \<times> aof" where
  "finish_rewrite se renamed io child_ok temp_base files a =
     (if \<not> child_ok then (Some ''rewrite child failed'', files(temp_base := None), a)
      else
        let new_base = \<lparr>fe_name = base_name (ao_next_seq a), fe_seq = ao_next_seq a, fe_is_base = True\<rparr>;
            new_base_path = aof_path a (fe_name new_base)
        in if renamed \<noteq> 0 then
             (Some (''installing the new AOF base: '' @ se renamed), files(temp_base := None), a)
           else
             let files = files(temp_base := None, new_base_path := files temp_base);
                 old_base = ao_base a; old_incrs = ao_incrs a;
                 installed = a\<lparr>ao_base := Some new_base, ao_incrs := [last old_incrs]\<rparr>
             in case persist_manifest se io files installed of
                  (Some err, files) \<Rightarrow> (Some err, files(new_base_path := None), a)
                | (None, files) \<Rightarrow>
                    let files = unlink_entries a
                          ((case old_base of None \<Rightarrow> [] | Some b \<Rightarrow> [b]) @ butlast old_incrs) files;
                        a = installed\<lparr>ao_next_seq := ao_next_seq a + 1,
                                      ao_base_bytes := file_size files new_base_path, ao_older_incr_bytes := 0\<rparr>
                    in (None, files, a\<lparr>ao_size_after_rewrite := current_size a\<rparr>))"

section \<open>Loading\<close>

text \<open>
  \<open>rp i argv\<close> is the \<open>i\<close>th call of the replay callback, \<^const>\<open>None\<close> if it does not return.
  The inner loop of \<open>replay_incr\<close> takes the complete commands off the parser's buffer; \<open>valid\<close> is
  the length of the prefix made of complete commands and \<open>fed\<close> what was read so far.
\<close>

type_synonym 's replay_cb = "nat \<Rightarrow> args \<Rightarrow> 's \<Rightarrow> 's option"

function incr_parse ::
  "'s replay_cb \<Rightarrow> nat \<Rightarrow> bytes \<Rightarrow> nat \<Rightarrow> nat \<Rightarrow> 's \<Rightarrow> (parse_status \<times> bytes \<times> nat \<times> nat \<times> 's) option" where
  "incr_parse rp fed buf valid i s =
     (let r = try_parse_command buf in
      if pr_status r = kComplete then
        (case rp i (pr_command r) s of
           None \<Rightarrow> None
         | Some s \<Rightarrow> incr_parse rp fed (pr_buffer r) (fed - length (pr_buffer r)) (Suc i) s)
      else Some (pr_status r, pr_buffer r, valid, i, s))"
  by pat_completeness auto
termination
proof (relation "measure (\<lambda>(rp, fed, buf, valid, i, s). length buf)", goal_cases)
  case (2 rp fed buf valid i s r s')
  then show ?case
    using try_parse_complete [of buf] by (cases "pr_raw r") (auto dest: arg_cong [where f = length])
qed simp

declare incr_parse.simps [simp del]

text \<open>The outer loop, over what \<^verbatim>\<open>read\<close> returns: the error, the unparsed rest, \<open>fed\<close>, \<open>valid\<close>, the next call and the state.\<close>

fun incr_loop ::
  "strerror \<Rightarrow> bytes \<Rightarrow> 's replay_cb \<Rightarrow> sys_read list \<Rightarrow> bytes \<Rightarrow> nat \<Rightarrow> nat \<Rightarrow> nat \<Rightarrow> 's \<Rightarrow>
     (bytes option \<times> bytes \<times> nat \<times> nat \<times> nat \<times> 's) option" where
  "incr_loop se path rp [] buf fed valid i s = Some (None, buf, fed, valid, i, s)"
| "incr_loop se path rp (RInterrupted # rs) buf fed valid i s = incr_loop se path rp rs buf fed valid i s"
| "incr_loop se path rp (RFailed e # rs) buf fed valid i s =
     Some (Some (path @ '': '' @ se e), buf, fed, valid, i, s)"
| "incr_loop se path rp (RData d # rs) buf fed valid i s =
     (if d = [] then Some (None, buf, fed, valid, i, s)
      else case incr_parse rp (fed + length d) (feed buf d) valid i s of
        None \<Rightarrow> None
      | Some (st, buf, valid, i, s) \<Rightarrow>
          if st = kProtocolError then
            Some (Some (path @ '': corrupt command at byte offset '' @ to_string_nat valid),
                  buf, fed + length d, valid, i, s)
          else incr_loop se path rp rs buf (fed + length d) valid i s)"

text \<open>
  \<open>replay_incr\<close>: the error, the valid bytes, the next call, the files and the state; \<open>truncated\<close> is
  the error number of \<^verbatim>\<open>truncate\<close>.
\<close>

definition replay_incr ::
  "strerror \<Rightarrow> open_result \<Rightarrow> nat \<Rightarrow> bytes \<Rightarrow> bool \<Rightarrow> 's replay_cb \<Rightarrow> nat \<Rightarrow> files \<Rightarrow> 's \<Rightarrow>
     (bytes option \<times> nat \<times> nat \<times> files \<times> 's) option" where
  "replay_incr se opened truncated path is_last rp i files s =
     (case opened of
        NoEntry \<Rightarrow> Some (Some (path @ '': '' @ se 2), 0, i, files, s)
      | OpenFailed e \<Rightarrow> Some (Some (path @ '': '' @ se e), 0, i, files, s)
      | Opened reads \<Rightarrow>
          (case incr_loop se path rp reads [] 0 0 i s of
             None \<Rightarrow> None
           | Some (Some err, buf, fed, valid, i, s) \<Rightarrow> Some (Some err, valid, i, files, s)
           | Some (None, buf, fed, valid, i, s) \<Rightarrow>
               if length buf > 0 then
                 if \<not> is_last then
                   Some (Some (path @ '': truncated command at byte offset '' @ to_string_nat valid),
                         valid, i, files, s)
                 else if truncated \<noteq> 0 then
                   Some (Some (path @ '': truncate: '' @ se truncated), valid, i, files, s)
                 else Some (None, valid, i, files(path := map_option (take valid) (files path)), s)
               else Some (None, valid, i, files, s)))"

datatype aof_error = AofText bytes | AofBase load_error

text \<open>
  The calls of \<open>load\<close>: opening the manifest; opening and reading each file; \<^verbatim>\<open>truncate\<close>; opening
  the last file for appending; the clock that loading the base reads.
\<close>

record load_io =
  li_manifest :: nat
  li_open :: "bytes \<Rightarrow> open_result"
  li_truncate :: nat
  li_append :: nat
  li_now :: int
  li_clk :: "nat \<Rightarrow> nat \<Rightarrow> int"

text \<open>The loop over the incr files.\<close>

fun load_incrs ::
  "strerror \<Rightarrow> load_io \<Rightarrow> 's replay_cb \<Rightarrow> file_entry list \<Rightarrow> nat \<Rightarrow> files \<Rightarrow> 's \<Rightarrow> aof \<Rightarrow>
     (bytes option \<times> files \<times> 's \<times> aof) option" where
  "load_incrs se io rp [] i files s a = Some (None, files, s, a)"
| "load_incrs se io rp (f # fs) i files s a =
     (let is_last = (fs = []); path = aof_path a (fe_name f) in
      case replay_incr se (li_open io path) (li_truncate io) path is_last rp i files s of
        None \<Rightarrow> None
      | Some (Some err, bytes, i, files, s) \<Rightarrow> Some (Some err, files, s, a)
      | Some (None, bytes, i, files, s) \<Rightarrow>
          load_incrs se io rp fs i files s
            (if is_last then a\<lparr>ao_incr_bytes := ao_incr_bytes a + of_nat bytes\<rparr>
             else a\<lparr>ao_older_incr_bytes := ao_older_incr_bytes a + of_nat bytes\<rparr>))"

text \<open>
  The base goes into the store of the dispatcher's state. The deletion listener ignores what it is
  told while loading.
\<close>

definition load_base ::
  "load_io \<Rightarrow> files \<Rightarrow> aof \<Rightarrow> 'e disp \<Rightarrow> aof_error option \<times> aof \<times> 'e disp" where
  "load_base io files a d =
     (case ao_base a of
        None \<Rightarrow> (None, a, d)
      | Some b \<Rightarrow>
          let base_path = aof_path a (fe_name b) in
          (case snapshot_load (li_open io base_path) (li_now io) (li_clk io) (d_store d) of
             (LoadOk, _, st) \<Rightarrow>
               (None, a\<lparr>ao_base_bytes := file_size files base_path\<rparr>, d\<lparr>d_store := st\<lparr>st_notified := []\<rparr>\<rparr>)
           | (LoadNotFound, _, st) \<Rightarrow>
               (Some (AofText (base_path @ '': listed in the manifest but missing'')), a, d\<lparr>d_store := st\<lparr>st_notified := []\<rparr>\<rparr>)
           | (LoadError, e, st) \<Rightarrow> (map_option AofBase e, a, d\<lparr>d_store := st\<lparr>st_notified := []\<rparr>\<rparr>)))"

definition aof_load ::
  "strerror \<Rightarrow> load_io \<Rightarrow> 'e disp replay_cb \<Rightarrow> files \<Rightarrow> aof \<Rightarrow> 'e disp \<Rightarrow>
     (aof_error option \<times> files \<times> aof \<times> 'e disp) option" where
  "aof_load se io rp files a d =
     (case read_manifest se (li_manifest io) files a of
        (Some err, a) \<Rightarrow> Some (Some (AofText err), files, a, d)
      | (None, a) \<Rightarrow>
          (case load_base io files a d of
             (Some err, a, d) \<Rightarrow> Some (Some err, files, a, d)
           | (None, a, d) \<Rightarrow>
               (case load_incrs se io rp (ao_incrs a) 0 files d a of
                  None \<Rightarrow> None
                | Some (Some err, files, d, a) \<Rightarrow> Some (Some (AofText err), files, a, d)
                | Some (None, files, d, a) \<Rightarrow>
                    let path = aof_path a (fe_name (last (ao_incrs a))) in
                    if li_append io \<noteq> 0 then
                      Some (Some (AofText (path @ '': '' @ se (li_append io))), files, a\<lparr>ao_fd := None\<rparr>, d)
                    else Some (None, files, a\<lparr>ao_fd := Some path, ao_size_after_rewrite := current_size a\<rparr>, d))))"

end
