(* ===== verification/Aof_Properties.thy ===== *)
theory Aof_Properties
  imports Aof
begin

text \<open>
  What the append-only file guarantees. The manifest on disk lists exactly the parts in memory; the
  parts and the buffer together are the encodings of the commands that were fed, cut anywhere by
  failing writes; and loading replays them. The one failure that breaks this, a directory fsync
  that fails after the manifest was renamed, is the subject of the last section.
\<close>

section \<open>The manifest round trip\<close>

definition plain_name :: "bytes \<Rightarrow> bool" where
  "plain_name s \<longleftrightarrow> s \<noteq> [] \<and> (\<forall>c \<in> set s. \<not> is_space c \<and> c \<noteq> CHR ''/'')"

lemma extract_word_plain:
  assumes "w \<noteq> []" "\<forall>c \<in> set w. \<not> is_space c" "rest = [] \<or> is_space (hd rest)"
  shows "extract_word (w @ rest) = Some (w, rest)" "extract_word (CHR '' '' # w @ rest) = Some (w, rest)"
proof -
  have 1: "dropWhile is_space (w @ rest) = w @ rest" using assms by (cases w) auto
  have 2: "takeWhile (\<lambda>c. \<not> is_space c) (w @ rest) = w" "dropWhile (\<lambda>c. \<not> is_space c) (w @ rest) = rest"
    using assms by (cases rest; auto simp: takeWhile_append2 dropWhile_append2)+
  show "extract_word (w @ rest) = Some (w, rest)" using assms(1) 1 2 by (simp add: extract_word_def Let_def)
  have "is_space (CHR '' '')" by (simp add: is_space_def)
  then show "extract_word (CHR '' '' # w @ rest) = Some (w, rest)"
    using assms(1) 1 2 by (simp add: extract_word_def Let_def)
qed

lemma digit_not_space: "is_digit c \<Longrightarrow> \<not> is_space c \<and> c \<noteq> CHR ''-'' \<and> c \<noteq> CHR ''+'' \<and> c \<noteq> CHR ''/''"
  by (auto simp: is_digit_def is_space_def)

lemma to_string_u64_digits: "c \<in> set (to_string_u64 n) \<Longrightarrow> is_digit c"
  by (simp add: to_string_u64_def to_string_nat_digits)

lemma extract_uint64_plain:
  assumes "rest = [] \<or> \<not> is_digit (hd rest)"
  shows "extract_uint64 (CHR '' '' # to_string_u64 n @ rest) = Some (n, rest)"
proof -
  obtain c t where w: "to_string_u64 n = c # t" by (cases "to_string_u64 n") (simp_all add: to_string_u64_def)
  have c: "is_digit c" using to_string_u64_digits [of c n] w by simp
  have sp: "is_space (CHR '' '')" by (simp add: is_space_def)
  have all: "\<forall>c \<in> set (to_string_u64 n). is_digit c" using to_string_u64_digits by blast
  have tw: "takeWhile is_digit (to_string_u64 n @ rest) = to_string_u64 n"
    "dropWhile is_digit (to_string_u64 n @ rest) = rest"
    using all assms by (cases rest; auto simp: takeWhile_append2 dropWhile_append2)+
  have dw: "dropWhile is_space (CHR '' '' # to_string_u64 n @ rest) = to_string_u64 n @ rest"
    using sp c digit_not_space w by simp
  have hd: "hd (to_string_u64 n @ rest) \<noteq> CHR ''-''" "hd (to_string_u64 n @ rest) \<noteq> CHR ''+''"
    using digit_not_space [OF c] w by simp_all
  have v: "digits_val (to_string_u64 n) = unat n" by (simp add: to_string_u64_def)
  have "unat n \<le> uint64_max" using unsigned_less [where 'a = nat, of n] by (simp add: uint64_max_def)
  then show ?thesis
    using dw hd tw v w by (simp add: extract_uint64_def Let_def)
qed

lemma parse_manifest_line_roundtrip:
  assumes "plain_name (fe_name f)"
  shows "parse_manifest_line (manifest_line f) = Some f"
proof -
  note n = assms [unfolded plain_name_def]
  have sp: "is_space (CHR '' '')" "\<not> is_digit (CHR '' '')" by (simp_all add: is_space_def is_digit_def)
  let ?t = "if fe_is_base f then ''b'' else ''i''"
  let ?s4 = "'' type '' @ ?t"
  let ?s3 = "CHR '' '' # to_string_u64 (fe_seq f) @ ?s4"
  let ?s2 = "CHR '' '' # ''seq'' @ ?s3"
  let ?s1 = "CHR '' '' # fe_name f @ ?s2"
  have line: "manifest_line f = ''file'' @ ?s1" by (simp add: manifest_line_def)
  have 1: "extract_word (''file'' @ ?s1) = Some (''file'', ?s1)"
    by (rule extract_word_plain) (auto simp: is_space_def)
  have 2: "extract_word ?s1 = Some (fe_name f, ?s2)"
    by (rule extract_word_plain) (use n sp in auto)
  have 3: "extract_word ?s2 = Some (''seq'', ?s3)"
    by (rule extract_word_plain) (auto simp: is_space_def)
  have 4: "extract_uint64 ?s3 = Some (fe_seq f, ?s4)"
    by (rule extract_uint64_plain) (simp add: sp)
  have 5: "extract_word ?s4 = Some (''type'', CHR '' '' # ?t)"
    using extract_word_plain(2) [of "''type''" "CHR '' '' # ?t"] by (simp add: is_space_def)
  have 6: "extract_word (CHR '' '' # ?t) = Some (?t, [])"
    using extract_word_plain(2) [of ?t "[]"] by (auto simp: is_space_def)
  show ?thesis
    unfolding line parse_manifest_line_def 1 2 3 4 5 6 Option.bind.bind_lunit prod.case
    using n by (cases f) auto
qed

definition aof_entries :: "aof \<Rightarrow> file_entry list" where
  "aof_entries a = (case ao_base a of None \<Rightarrow> [] | Some b \<Rightarrow> [b]) @ ao_incrs a"

definition seq_after :: "file_entry list \<Rightarrow> u64 \<Rightarrow> u64" where
  "seq_after es n = fold (\<lambda>f n. max n (fe_seq f + 1)) es n"

lemma getlines_Nil [simp]: "getlines [] = []"
  by (simp add: getlines.simps)

lemma getlines_line: "CHR 0x0A \<notin> set l \<Longrightarrow> getlines (l @ CHR 0x0A # rest) = l # getlines rest"
proof -
  assume l: "CHR 0x0A \<notin> set l"
  then have "takeWhile (\<lambda>c. c \<noteq> CHR 0x0A) (l @ CHR 0x0A # rest) = l"
    "dropWhile (\<lambda>c. c \<noteq> CHR 0x0A) (l @ CHR 0x0A # rest) = CHR 0x0A # rest"
    by (auto simp: takeWhile_append2 dropWhile_append2 intro!: takeWhile_append2 [THEN trans] dropWhile_append2 [THEN trans])
  then show ?thesis by (subst getlines.simps) simp
qed

lemma manifest_line_no_newline: "plain_name (fe_name f) \<Longrightarrow> CHR 0x0A \<notin> set (manifest_line f)"
  using to_string_u64_digits [of "CHR 0x0A" "fe_seq f"]
  by (auto simp: manifest_line_def plain_name_def is_space_def is_digit_def)

lemma getlines_manifest:
  "\<forall>f \<in> set es. plain_name (fe_name f) \<Longrightarrow>
     getlines (concat (map (\<lambda>f. manifest_line f @ [CHR 0x0A]) es)) = map manifest_line es"
  by (induction es) (simp_all add: getlines_line manifest_line_no_newline)

lemma manifest_lines_incrs:
  "\<forall>f \<in> set es. plain_name (fe_name f) \<and> \<not> fe_is_base f \<Longrightarrow> ao_incrs a @ es \<noteq> [] \<Longrightarrow>
     manifest_lines (map manifest_line es) a =
       (None, a\<lparr>ao_incrs := ao_incrs a @ es, ao_next_seq := seq_after es (ao_next_seq a)\<rparr>)"
proof (induction es arbitrary: a)
  case (Cons f es)
  have "manifest_line f \<noteq> []" by (simp add: manifest_line_def)
  moreover have "parse_manifest_line (manifest_line f) = Some f"
    using Cons.prems(1) by (simp add: parse_manifest_line_roundtrip)
  ultimately show ?case using Cons by (simp add: seq_after_def)
qed (simp add: seq_after_def)

definition entry_shape :: "aof \<Rightarrow> bool" where
  "entry_shape a \<longleftrightarrow>
     (\<forall>b. ao_base a = Some b \<longrightarrow> fe_is_base b) \<and> (\<forall>f \<in> set (ao_incrs a). \<not> fe_is_base f) \<and> ao_incrs a \<noteq> []"

lemma manifest_lines_roundtrip:
  assumes "entry_shape a" "\<forall>f \<in> set (aof_entries a). plain_name (fe_name f)"
    and "ao_base a0 = None" "ao_incrs a0 = []"
  shows "manifest_lines (getlines (manifest_content a)) a0 =
    (None, a0\<lparr>ao_base := ao_base a, ao_incrs := ao_incrs a,
              ao_next_seq := seq_after (aof_entries a) (ao_next_seq a0)\<rparr>)"
proof -
  have g: "getlines (manifest_content a) = map manifest_line (aof_entries a)"
    using getlines_manifest [OF assms(2)] by (simp add: manifest_content_def aof_entries_def)
  show ?thesis
  proof (cases "ao_base a")
    case None
    then show ?thesis
      using manifest_lines_incrs [of "ao_incrs a" a0] assms
      unfolding g by (auto simp: aof_entries_def entry_shape_def)
  next
    case (Some b)
    have "manifest_line b \<noteq> []" by (simp add: manifest_line_def)
    moreover have "parse_manifest_line (manifest_line b) = Some b" "fe_is_base b"
      using assms(1,2) Some by (auto simp: parse_manifest_line_roundtrip aof_entries_def entry_shape_def)
    ultimately show ?thesis
      using manifest_lines_incrs [of "ao_incrs a" "a0\<lparr>ao_base := Some b, ao_next_seq := max (ao_next_seq a0) (fe_seq b + 1)\<rparr>"]
        assms Some unfolding g by (auto simp: aof_entries_def entry_shape_def seq_after_def)
  qed
qed

section \<open>Names\<close>

lemma aof_path_inj [simp]: "aof_path a x = aof_path a y \<longleftrightarrow> x = y"
  by (auto simp: aof_path_def join_def)

lemma to_string_u64_inj [simp]: "to_string_u64 m = to_string_u64 n \<longleftrightarrow> m = n"
  using digits_val_to_string_nat by (metis to_string_u64_def unsigned_word_eqI)

lemma name_tail: "\<lbrakk>to_string_u64 m @ s = to_string_u64 n @ t; \<not> is_digit (hd s); \<not> is_digit (hd t); s \<noteq> []; t \<noteq> []\<rbrakk>
  \<Longrightarrow> m = n \<and> s = t"
proof -
  assume eq: "to_string_u64 m @ s = to_string_u64 n @ t"
    and h: "\<not> is_digit (hd s)" "\<not> is_digit (hd t)" "s \<noteq> []" "t \<noteq> []"
  have tw: "takeWhile is_digit (to_string_u64 m @ s) = to_string_u64 m" if "\<not> is_digit (hd s)" "s \<noteq> []" for m s
    using that to_string_u64_digits [of _ m] by (cases s) (auto simp: takeWhile_append2)
  from tw [OF h(1,3), of m] tw [OF h(2,4), of n] eq have "to_string_u64 m = to_string_u64 n" by simp
  with eq show ?thesis by simp
qed

lemma names_distinct [simp]:
  "base_name m = base_name n \<longleftrightarrow> m = n" "incr_name m = incr_name n \<longleftrightarrow> m = n"
  "base_name m \<noteq> incr_name n" "incr_name n \<noteq> base_name m"
  using name_tail [of m "''.base.snap''" n "''.incr.aof''"]
  by (auto simp: base_name_def incr_name_def is_digit_def)

lemma manifest_names:
  "to_string_u64 n @ s \<noteq> ''manifest''" "to_string_u64 n @ s \<noteq> ''manifest.tmp''"
proof -
  obtain c t where w: "to_string_u64 n = c # t" by (cases "to_string_u64 n") (simp_all add: to_string_u64_def)
  have "is_digit c" using to_string_u64_digits [of c n] w by simp
  then have "c \<noteq> CHR ''m''" by (auto simp: is_digit_def)
  then show "to_string_u64 n @ s \<noteq> ''manifest''" "to_string_u64 n @ s \<noteq> ''manifest.tmp''" using w by auto
qed

lemma names_not_manifest [simp]:
  "base_name n \<noteq> kManifestName" "incr_name n \<noteq> kManifestName"
  "base_name n \<noteq> kManifestName @ ''.tmp''" "incr_name n \<noteq> kManifestName @ ''.tmp''"
  using manifest_names by (simp_all add: base_name_def incr_name_def kManifestName_def)

lemma names_plain [simp]: "plain_name (base_name n)" "plain_name (incr_name n)"
  using digit_not_space to_string_u64_digits [of _ n]
  by (auto simp: plain_name_def base_name_def incr_name_def is_space_def)

lemma temp_base_name [simp]:
  "temp_base_path a p \<noteq> aof_path a (base_name n)" "temp_base_path a p \<noteq> aof_path a (incr_name n)"
  "temp_base_path a p \<noteq> aof_path a kManifestName" "temp_base_path a p \<noteq> aof_path a (kManifestName @ ''.tmp'')"
  by (auto simp: temp_base_path_def base_name_def incr_name_def kManifestName_def)

section \<open>The invariant\<close>

definition entry_name :: "file_entry \<Rightarrow> bytes" where
  "entry_name f = (if fe_is_base f then base_name (fe_seq f) else incr_name (fe_seq f))"

definition contents :: "files \<Rightarrow> aof \<Rightarrow> file_entry \<Rightarrow> bytes" where
  "contents files a f = the (files (aof_path a (fe_name f)))"

text \<open>What holds of the state alone, and of it and the files.\<close>

definition aof_wf :: "aof \<Rightarrow> bool" where
  "aof_wf a \<longleftrightarrow>
     entry_shape a \<and> (\<forall>f \<in> set (aof_entries a). fe_name f = entry_name f \<and> fe_seq f < ao_next_seq a) \<and>
     distinct (map fe_name (aof_entries a)) \<and> ao_fd a = Some (aof_path a (fe_name (last (ao_incrs a))))"

definition aof_inv :: "files \<Rightarrow> aof \<Rightarrow> bool" where
  "aof_inv files a \<longleftrightarrow>
     aof_wf a \<and> files (aof_path a kManifestName) = Some (manifest_content a) \<and>
     (\<forall>f \<in> set (aof_entries a). files (aof_path a (fe_name f)) \<noteq> None) \<and>
     ao_incr_bytes a = of_nat (length (contents files a (last (ao_incrs a))))"

definition encode_log :: "args list \<Rightarrow> bytes" where
  "encode_log cmds = concat (map (reply_command []) cmds)"

text \<open>
  \<open>css\<close> are the commands of the incr files: all but the last are complete on disk, and what is
  missing from the last is in the buffer.
\<close>

definition aof_log :: "files \<Rightarrow> aof \<Rightarrow> args list list \<Rightarrow> bool" where
  "aof_log files a css \<longleftrightarrow>
     aof_inv files a \<and> css \<noteq> [] \<and>
     map (contents files a) (butlast (ao_incrs a)) = map encode_log (butlast css) \<and>
     contents files a (last (ao_incrs a)) @ ao_buf a = encode_log (last css)"

text \<open>Offsets in a file are signed 64-bit numbers.\<close>

definition off_t_fits :: "files \<Rightarrow> bool" where
  "off_t_fits files \<longleftrightarrow> (\<forall>p c. files p = Some c \<longrightarrow> length c < 2 ^ 63)"

text \<open>
  The manifest is torn when it has been renamed into place and the fsync of its directory fails
  after that: \<open>persist_manifest\<close> reports a failure, but the new manifest is the one on disk.
\<close>

definition torn :: "manifest_io \<Rightarrow> bool" where
  "torn io \<longleftrightarrow> mi_rename io \<and> \<not> fsync_dir (mi_dir io)"

lemma manifest_not_temp [simp]: "kManifestName @ ''.tmp'' \<noteq> kManifestName"
  by simp

lemma persist_manifest_cases:
  obtains (written) "\<not> torn io" "persist_manifest se io files a =
      (None, files(aof_path a kManifestName \<mapsto> manifest_content a, aof_path a (kManifestName @ ''.tmp'') := None))"
  | (kept) err where "persist_manifest se io files a = (Some err, files(aof_path a (kManifestName @ ''.tmp'') := None))"
  | (torn) err where "torn io" "persist_manifest se io files a =
      (Some err, files(aof_path a kManifestName \<mapsto> manifest_content a, aof_path a (kManifestName @ ''.tmp'') := None))"
proof -
  define c where "c = manifest_content a"
  define m where "m = aof_path a kManifestName"
  define t where "t = aof_path a (kManifestName @ ''.tmp'')"
  have mt: "m \<noteq> t" by (simp add: m_def t_def)
  define w where "w \<longleftrightarrow> mi_open io \<and> mi_written io = length c \<and> mi_fsync io"
  define f1 where "f1 = (if mi_open io then files(t \<mapsto> take (mi_written io) c) else files)"
  have f1: "f1 m = files m" "f1(m := v, t := None) = files(m := v, t := None)" for v
    using mt by (auto simp: f1_def fun_eq_iff)
  obtain ok target where d: "(if w then durable_rename (mi_rename io) (mi_dir io) c (f1 m) else (False, f1 m)) = (ok, target)"
    by fastforce
  have p: "persist_manifest se io files a =
      (if ok then None else Some (''writing the AOF manifest: '' @ se (mi_errno io)), files(m := target, t := None))"
    unfolding persist_manifest_def Let_def c_def [symmetric] m_def [symmetric] t_def [symmetric] w_def [symmetric]
      f1_def [symmetric] d f1(2) prod.case by simp
  have "ok \<and> target = Some c \<and> \<not> torn io \<or> \<not> ok \<and> target = files m \<or> \<not> ok \<and> target = Some c \<and> torn io"
    using d f1(1) by (auto simp: durable_rename_def torn_def split: if_splits)
  then show thesis
    by (elim disjE conjE) (use that p in \<open>simp_all add: m_def t_def c_def\<close>)
qed

lemma persist_manifest_whole:
  assumes "\<not> torn io"
  obtains "persist_manifest se io files a =
      (None, files(aof_path a kManifestName \<mapsto> manifest_content a, aof_path a (kManifestName @ ''.tmp'') := None))"
  | err where "persist_manifest se io files a = (Some err, files(aof_path a (kManifestName @ ''.tmp'') := None))"
  using assms by (cases rule: persist_manifest_cases [of io se files a]) auto

section \<open>Appending keeps the log\<close>

definition same_parts :: "aof \<Rightarrow> aof \<Rightarrow> bool" where
  "same_parts a a' \<longleftrightarrow>
     ao_dir a' = ao_dir a \<and> ao_base a' = ao_base a \<and> ao_incrs a' = ao_incrs a \<and>
     ao_next_seq a' = ao_next_seq a \<and> ao_fd a' = ao_fd a"

lemma same_parts_simps:
  assumes "same_parts a a'"
  shows "aof_path a' = aof_path a" "aof_entries a' = aof_entries a" "aof_wf a' = aof_wf a"
    "manifest_content a' = manifest_content a" "contents files a' = contents files a"
proof -
  show p: "aof_path a' = aof_path a" using assms by (auto simp: same_parts_def aof_path_def fun_eq_iff)
  show e: "aof_entries a' = aof_entries a" using assms by (simp add: same_parts_def aof_entries_def)
  show "aof_wf a' = aof_wf a" using assms e p by (simp add: same_parts_def aof_wf_def entry_shape_def)
  show "manifest_content a' = manifest_content a" using assms by (simp add: same_parts_def manifest_content_def)
  show "contents files a' = contents files a" using p by (simp add: contents_def fun_eq_iff)
qed

lemma last_incr_entry: "aof_wf a \<Longrightarrow> last (ao_incrs a) \<in> set (aof_entries a)"
  by (auto simp: aof_wf_def entry_shape_def aof_entries_def)

lemma incrs_distinct: "aof_wf a \<Longrightarrow> f \<in> set (butlast (ao_incrs a)) \<Longrightarrow> fe_name f \<noteq> fe_name (last (ao_incrs a))"
proof -
  assume "aof_wf a" and f: "f \<in> set (butlast (ao_incrs a))"
  then have "distinct (map fe_name (ao_incrs a))" "ao_incrs a = butlast (ao_incrs a) @ [last (ao_incrs a)]"
    by (auto simp: aof_wf_def entry_shape_def aof_entries_def split: option.splits)
  then obtain fs g where "distinct (map fe_name (fs @ [g]))" "fs = butlast (ao_incrs a)" "g = last (ao_incrs a)"
    by metis
  then have "fe_name g \<notin> fe_name ` set fs" "f \<in> set fs" "g = last (ao_incrs a)" using f by auto
  then show ?thesis by (metis imageI)
qed

lemma entry_not_manifest: "aof_wf a \<Longrightarrow> f \<in> set (aof_entries a) \<Longrightarrow> fe_name f \<noteq> kManifestName"
  by (auto simp: aof_wf_def entry_name_def)

text \<open>The step all appends share: the open file now has \<open>c'\<close>.\<close>

lemma aof_log_append:
  assumes log: "aof_log files a css" and s: "same_parts a a'"
    and f': "files' = files(aof_path a (fe_name (last (ao_incrs a))) \<mapsto> c')"
    and "ao_incr_bytes a' = of_nat (length c')" and "c' @ ao_buf a' = encode_log (last css')"
    and "butlast css' = butlast css" "css' \<noteq> []"
  shows "aof_log files' a' css'"
proof -
  note ss = same_parts_simps [OF s]
  have wf: "aof_wf a" using log by (simp add: aof_log_def aof_inv_def)
  have i: "ao_incrs a' = ao_incrs a" using s by (simp add: same_parts_def)
  have last: "contents files' a (last (ao_incrs a)) = c'" by (simp add: contents_def f')
  have "contents files' a f = contents files a f" if "f \<in> set (butlast (ao_incrs a))" for f
    using incrs_distinct [OF wf that] by (simp add: contents_def f')
  moreover have "aof_inv files' a'"
    using log assms(4) last wf entry_not_manifest [OF wf last_incr_entry [OF wf]]
    by (auto simp: aof_log_def aof_inv_def ss i f')
  ultimately show ?thesis
    using log assms(5-7) last by (auto simp: aof_log_def ss i cong: map_cong)
qed

lemma aof_log_feed:
  assumes "aof_log files a css"
  shows "aof_log files (aof_feed argv a) (butlast css @ [last css @ [argv]])"
proof -
  let ?p = "aof_path a (fe_name (last (ao_incrs a)))"
  have wf: "aof_wf a" using assms by (simp add: aof_log_def aof_inv_def)
  obtain c where c: "files ?p = Some c" using assms last_incr_entry [OF wf] by (auto simp: aof_log_def aof_inv_def)
  then have "files = files(?p \<mapsto> c)" by (auto simp: fun_eq_iff)
  then show ?thesis
    using assms c
    by (intro aof_log_append [OF assms])
      (auto simp: same_parts_def aof_feed_def aof_log_def aof_inv_def contents_def encode_log_def
        reply_command_eq [of "ao_buf a"] reply_command_eq [of "[]"])
qed

lemma aof_log_flush_write:
  assumes log: "aof_log files a css" and fits: "off_t_fits files" and io: "fi_written io \<le> length (ao_buf a)"
    and w: "flush_write io files a = (ok, files', a')"
  shows "aof_log files' a' css \<and> same_parts a a' \<and> (ok \<longrightarrow> ao_buf a' = [])"
proof -
  let ?p = "aof_path a (fe_name (last (ao_incrs a)))"
  have wf: "aof_wf a" using log by (simp add: aof_log_def aof_inv_def)
  obtain c where c: "files ?p = Some c" using log last_incr_entry [OF wf] by (auto simp: aof_log_def aof_inv_def)
  have fd: "ao_fd a = Some ?p" using wf by (simp add: aof_wf_def)
  have len: "ao_incr_bytes a = of_nat (length c)" "c @ ao_buf a = encode_log (last css)"
    using log c by (auto simp: aof_log_def aof_inv_def contents_def)
  have "length c < 2 ^ 63" using fits c by (auto simp: off_t_fits_def)
  then have unat: "unat (ao_incr_bytes a) = length c" using len(1) by (simp add: unat_of_nat_u64)
  have ap: "fd_append a d files = files(?p \<mapsto> c @ d)" for d by (simp add: fd_append_def fd c)
  have tr: "fd_truncate a (length c) (files(?p \<mapsto> c @ d)) = files(?p \<mapsto> c)" for d
    by (simp add: fd_truncate_def fd)
  have tr': "fd_truncate (a\<lparr>ao_write_errno := e\<rparr>) n f = fd_truncate a n f" for e n f by (simp add: fd_truncate_def)
  have same: "files = files(?p \<mapsto> c)" using c by (auto simp: fun_eq_iff)
  have css: "css \<noteq> []" using log by (simp add: aof_log_def)
  note step = aof_log_append [OF log, where css' = css]
  show ?thesis
  proof (cases "ao_buf a = []")
    case True
    then show ?thesis using w log by (auto simp: flush_write_def same_parts_def)
  next
    case False
    show ?thesis
    proof (cases "fi_written io < length (ao_buf a)")
      case lt: True
      show ?thesis
      proof (cases "fi_written io > 0 \<and> \<not> fi_truncated io")
        case True
        then have "files' = files(?p \<mapsto> c @ take (fi_written io) (ao_buf a))"
          "a' = a\<lparr>ao_write_errno := fi_errno io, ao_incr_bytes := ao_incr_bytes a + of_nat (fi_written io),
                 ao_buf := drop (fi_written io) (ao_buf a)\<rparr>" "\<not> ok"
          using w False lt by (auto simp: flush_write_def Let_def ap)
        then show ?thesis
          using len css lt by (auto intro!: step simp: same_parts_def)
      next
        case nt: False
        then have "files' = files(?p \<mapsto> c)" "a' = a\<lparr>ao_write_errno := fi_errno io\<rparr>" "\<not> ok"
          using w False lt unat same by (auto simp: flush_write_def Let_def ap tr tr' split: if_splits)
        then show ?thesis using len css by (auto intro!: step simp: same_parts_def)
      qed
    next
      case ge: False
      then have "fi_written io = length (ao_buf a)" using io by simp
      then have "files' = files(?p \<mapsto> c @ ao_buf a)" "same_parts a a'" "ao_buf a' = []"
        "ao_incr_bytes a' = ao_incr_bytes a + of_nat (length (ao_buf a))"
        using w False ge by (auto simp: flush_write_def Let_def ap same_parts_def split: if_splits)
      moreover have "aof_log files' a' css"
      proof (rule step)
        show "ao_incr_bytes a' = of_nat (length (c @ ao_buf a))" using calculation(4) len(1) by simp
        show "(c @ ao_buf a) @ ao_buf a' = encode_log (last css)" using calculation(3) len(2) by simp
      qed (use calculation css in simp_all)
      ultimately show ?thesis by blast
    qed
  qed
qed

definition base_content :: "files \<Rightarrow> aof \<Rightarrow> bytes option" where
  "base_content files a = (case ao_base a of None \<Rightarrow> None | Some b \<Rightarrow> files (aof_path a (fe_name b)))"

text \<open>Only the files of the manifest matter.\<close>

definition agree :: "aof \<Rightarrow> files \<Rightarrow> files \<Rightarrow> bool" where
  "agree a files files' \<longleftrightarrow>
     files' (aof_path a kManifestName) = files (aof_path a kManifestName) \<and>
     (\<forall>f \<in> set (aof_entries a). files' (aof_path a (fe_name f)) = files (aof_path a (fe_name f)))"

lemma entries_parts:
  "f \<in> set (ao_incrs a) \<Longrightarrow> f \<in> set (aof_entries a)" "ao_base a = Some b \<Longrightarrow> b \<in> set (aof_entries a)"
  "f \<in> set (butlast (ao_incrs a)) \<Longrightarrow> f \<in> set (aof_entries a)"
  by (auto simp: aof_entries_def dest: in_set_butlastD)

lemma aof_log_frame:
  assumes "agree a files files'" "aof_log files a css"
  shows "aof_log files' a css" "base_content files' a = base_content files a"
proof -
  have c: "contents files' a f = contents files a f" if "f \<in> set (aof_entries a)" for f
    using that assms(1) by (simp add: contents_def agree_def)
  have wf: "aof_wf a" using assms(2) by (simp add: aof_log_def aof_inv_def)
  have "aof_inv files' a"
    using assms c last_incr_entry [OF wf] by (simp add: aof_log_def aof_inv_def agree_def)
  moreover have "map (contents files' a) (butlast (ao_incrs a)) = map (contents files a) (butlast (ao_incrs a))"
    using c entries_parts by (auto cong: map_cong)
  ultimately show "aof_log files' a css"
    using assms(2) c [OF last_incr_entry [OF wf]] unfolding aof_log_def by metis
  show "base_content files' a = base_content files a"
    using assms(1) entries_parts by (auto simp: base_content_def agree_def split: option.splits)
qed

lemma aof_log_same:
  assumes "same_parts a a'" "ao_buf a' = ao_buf a" "ao_incr_bytes a' = ao_incr_bytes a"
  shows "aof_log files a' css = aof_log files a css" "base_content files a' = base_content files a"
  using same_parts_simps [OF assms(1)] assms
  by (auto simp: aof_log_def aof_inv_def base_content_def same_parts_def split: option.splits)

lemma base_not_open:
  assumes "aof_wf a" "ao_base a = Some b"
  shows "fe_name b \<noteq> fe_name (last (ao_incrs a))"
  using assms by (auto simp: aof_wf_def aof_entries_def entry_shape_def)

lemma fd_ops_elsewhere:
  assumes "ao_fd a = Some p" "q \<noteq> p"
  shows "fd_append a d files q = files q" "fd_truncate a n files q = files q"
  using assms by (simp_all add: fd_append_def fd_truncate_def)

lemma flush_write_elsewhere:
  assumes "ao_fd a = Some p" "q \<noteq> p" "flush_write io files a = (ok, files', a')"
  shows "files' q = files q"
  using assms fd_ops_elsewhere [OF assms(1,2)]
  by (auto simp: flush_write_def Let_def fd_truncate_def split: if_splits)

lemma flush_submit_same:
  "same_parts a (flush_submit now a)" "ao_buf (flush_submit now a) = ao_buf a"
  "ao_incr_bytes (flush_submit now a) = ao_incr_bytes a"
  by (auto simp: flush_submit_def same_parts_def split: option.splits prod.splits bool.splits)

lemma same_parts_trans: "same_parts a b \<Longrightarrow> same_parts b c \<Longrightarrow> same_parts a c"
  by (simp add: same_parts_def)

lemma aof_log_flush:
  assumes log: "aof_log files a css" and fits: "off_t_fits files" and io: "fi_written io \<le> length (ao_buf a)"
    and f: "aof_flush io files a = (ok, files', a')"
  shows "aof_log files' a' css" "same_parts a a'" "base_content files' a' = base_content files a"
    "ok \<Longrightarrow> ao_buf a' = []"
proof -
  obtain ok1 files1 a1 where 1: "flush_write io files a = (ok1, files1, a1)" by (metis prod.exhaust)
  note w = aof_log_flush_write [OF log fits io 1]
  have a': "files' = files1" "ok = ok1" "a' = a1 \<or> a' = flush_submit (fi_now io) a1"
    using f 1 by (auto simp: aof_flush_def split: bool.splits)
  have s: "same_parts a1 a'" "ao_buf a' = ao_buf a1" "ao_incr_bytes a' = ao_incr_bytes a1"
    using a'(3) flush_submit_same by (auto simp: same_parts_def)
  have wf: "aof_wf a" using log by (simp add: aof_log_def aof_inv_def)
  have "files1 (aof_path a (fe_name b)) = files (aof_path a (fe_name b))" if "ao_base a = Some b" for b
    by (rule flush_write_elsewhere [OF _ _ 1]) (use wf base_not_open [OF wf that] in \<open>auto simp: aof_wf_def\<close>)
  then show "base_content files' a' = base_content files a"
    using w aof_log_same(2) [OF s] same_parts_simps(1) [of a a1] a'(1)
    by (auto simp: base_content_def same_parts_def split: option.splits)
  show "aof_log files' a' css" "same_parts a a'" "ok \<Longrightarrow> ao_buf a' = []"
    using w aof_log_same(1) [OF s] same_parts_trans [OF _ s(1), of a] unfolding a'(1,2) s(2) by blast+
qed

lemma aof_log_sync:
  assumes log: "aof_log files a css" and fits: "off_t_fits files" and io: "fi_written io \<le> length (ao_buf a)"
    and f: "flush_and_sync io rc fsync files a = (ok, files', a')"
  shows "aof_log files' a' css" "same_parts a a'" "base_content files' a' = base_content files a"
    "ok \<Longrightarrow> ao_buf a' = []"
proof -
  obtain ok1 files1 a1 where 1: "aof_flush io files a = (ok1, files1, a1)" by (metis prod.exhaust)
  note w = aof_log_flush [OF log fits io 1]
  have "files' = files1" "same_parts a1 a'" "ao_buf a' = ao_buf a1" "ao_incr_bytes a' = ao_incr_bytes a1"
    "ok \<longrightarrow> ok1"
    using f 1 by (auto simp: flush_and_sync_def Let_def same_parts_def split: bool.splits if_splits)
  then show "aof_log files' a' css" "same_parts a a'" "base_content files' a' = base_content files a"
    "ok \<Longrightarrow> ao_buf a' = []"
    using w aof_log_same [of a1 a'] same_parts_trans [of a a1 a'] by simp_all
qed

section \<open>Rewriting keeps the log\<close>

lemma agree_fresh:
  assumes "aof_wf a" "files' = files(aof_path a (kManifestName @ ''.tmp'') := None)"
  shows "agree a files files'"
  using assms by (auto simp: agree_def aof_wf_def entry_name_def)

lemma agree_trans: "agree a f g \<Longrightarrow> agree a g h \<Longrightarrow> agree a f h"
  by (simp add: agree_def)

lemma fresh_incr: "aof_wf a \<Longrightarrow> f \<in> set (aof_entries a) \<Longrightarrow> fe_name f \<noteq> incr_name (ao_next_seq a)"
  and fresh_base: "aof_wf a \<Longrightarrow> f \<in> set (aof_entries a) \<Longrightarrow> fe_name f \<noteq> base_name (ao_next_seq a)"
  by (auto simp: aof_wf_def entry_name_def)

lemma agree_upd:
  assumes "aof_wf a" "n = incr_name (ao_next_seq a) \<or> n = base_name (ao_next_seq a)"
  shows "agree a files (files(aof_path a n := v))"
  using fresh_incr [OF assms(1)] fresh_base [OF assms(1)] assms(2)
  by (auto simp: agree_def names_not_manifest [symmetric])

text \<open>Switching to a new incr file.\<close>

lemma aof_log_push:
  assumes log: "aof_log files a css" and buf: "ao_buf a = []" and seq: "ao_next_seq a < ao_next_seq a + 1"
    and n: "n = incr_name (ao_next_seq a)"
    and a': "a' = a\<lparr>ao_incrs := ao_incrs a @ [\<lparr>fe_name = n, fe_seq = ao_next_seq a, fe_is_base = False\<rparr>],
                    ao_next_seq := ao_next_seq a + 1, ao_fd := Some (aof_path a n),
                    ao_older_incr_bytes := x, ao_incr_bytes := 0\<rparr>"
    and f': "files' = files(aof_path a n \<mapsto> [], aof_path a kManifestName \<mapsto> manifest_content a',
                            aof_path a (kManifestName @ ''.tmp'') := None)"
  shows "aof_log files' a' (css @ [[]])" "base_content files' a' = base_content files a"
proof -
  let ?f = "\<lparr>fe_name = n, fe_seq = ao_next_seq a, fe_is_base = False\<rparr>"
  have wf: "aof_wf a" and inv: "aof_inv files a" using log by (simp_all add: aof_log_def aof_inv_def)
  have fld: "ao_incrs a' = ao_incrs a @ [?f]" "ao_base a' = ao_base a" "ao_next_seq a' = ao_next_seq a + 1"
    "ao_fd a' = Some (aof_path a n)" "ao_incr_bytes a' = 0" "ao_buf a' = []" "ao_dir a' = ao_dir a"
    by (simp_all add: a' buf)
  have p: "aof_path a' = aof_path a" using fld by (simp add: aof_path_def fun_eq_iff)
  have e: "aof_entries a' = aof_entries a @ [?f]" using fld by (simp add: aof_entries_def)
  have nm: "fe_name f \<noteq> n" "fe_name f \<noteq> kManifestName" "fe_name f \<noteq> kManifestName @ ''.tmp''"
    if "f \<in> set (aof_entries a)" for f
    using fresh_incr [OF wf that] n wf that by (auto simp: aof_wf_def entry_name_def)
  have same: "files' (aof_path a (fe_name f)) = files (aof_path a (fe_name f))" if "f \<in> set (aof_entries a)" for f
    using nm [OF that] by (simp add: f')
  have new: "files' (aof_path a n) = Some []" using n by (simp add: f')
  have less: "fe_seq f < ao_next_seq a + 1" if "f \<in> set (aof_entries a)" for f
    using wf that seq by (auto simp: aof_wf_def)
  have "aof_wf a'"
    using wf nm less seq unfolding aof_wf_def e p fld
    by (auto simp: fld entry_shape_def entry_name_def n)
  moreover have "files' (aof_path a kManifestName) = Some (manifest_content a')"
    by (simp add: f')
  ultimately have "aof_inv files' a'"
    using same new inv unfolding aof_inv_def e p fld by (auto simp: contents_def p)
  moreover have "map (contents files' a') (ao_incrs a) = map encode_log css"
  proof -
    have "map (contents files' a') (ao_incrs a) = map (contents files a) (ao_incrs a)"
      using same entries_parts(1) by (auto simp: contents_def p)
    also have "\<dots> = map (contents files a) (butlast (ao_incrs a) @ [last (ao_incrs a)])"
      using wf by (simp add: aof_wf_def entry_shape_def)
    also have "\<dots> = map encode_log (butlast css @ [last css])"
      unfolding map_append using log buf by (simp add: aof_log_def)
    also have "\<dots> = map encode_log css" using log by (simp add: aof_log_def)
    finally show ?thesis .
  qed
  moreover have "contents files' a' (last (ao_incrs a')) = []" by (simp add: contents_def p fld new)
  ultimately show "aof_log files' a' (css @ [[]])"
    unfolding aof_log_def fld by (simp add: encode_log_def)
  show "base_content files' a' = base_content files a"
    using same entries_parts(2) by (auto simp: base_content_def p fld split: option.splits)
qed

lemma aof_log_begin_rewrite:
  assumes log: "aof_log files a css" and fits: "off_t_fits files"
    and io: "fi_written (wi_flush io) \<le> length (ao_buf a)" "\<not> torn (wi_manifest io)"
    and seq: "ao_next_seq a < ao_next_seq a + 1"
    and b: "begin_rewrite se io files a = (r, files', a')"
  shows "aof_log files' a' (if r = None then css @ [[]] else css)"
    "base_content files' a' = base_content files a" "r = None \<Longrightarrow> ao_buf a' = []"
proof -
  obtain ok files1 a1 where 1: "flush_and_sync (wi_flush io) (wi_worker io) (wi_fsync io) files a = (ok, files1, a1)"
    by (metis prod.exhaust)
  note w = aof_log_sync [OF log fits io(1) 1]
  have wf: "aof_wf a1" using w(1) by (simp add: aof_log_def aof_inv_def)
  have seq1: "ao_next_seq a1 < ao_next_seq a1 + 1" using w(2) seq by (simp add: same_parts_def)
  let ?n = "incr_name (ao_next_seq a1)"
  let ?p = "aof_path a1 ?n"
  let ?pushed = "a1\<lparr>ao_incrs := ao_incrs a1 @ [\<lparr>fe_name = ?n, fe_seq = ao_next_seq a1, fe_is_base = False\<rparr>]\<rparr>"
  have pp: "aof_path ?pushed = aof_path a1" by (simp add: aof_path_def fun_eq_iff)
  note b' = b [unfolded begin_rewrite_def 1 prod.case]
  have "aof_log files' a' (if r = None then css @ [[]] else css) \<and>
    base_content files' a' = base_content files1 a1 \<and> (r = None \<longrightarrow> ao_buf a' = [])"
  proof (cases "\<not> ok \<or> wi_open io \<noteq> 0")
    case True
    then have "files' = files1 \<and> a' = a1 \<and> r \<noteq> None"
    proof (cases ok)
      case True
      with \<open>\<not> ok \<or> wi_open io \<noteq> 0\<close> have "wi_open io \<noteq> 0" by simp
      with True b' have "(Some (?p @ '': '' @ se (wi_open io)), files1, a1) = (r, files', a')"
        by (simp only: bool.case Let_def if_True simp_thms file_entry.simps)
      then show ?thesis by auto
    next
      case False
      then show ?thesis using b' by auto
    qed
    then show ?thesis using w(1) by auto
  next
    case False
    then have o: "ok" "wi_open io = 0" by auto
    have b2: "(case persist_manifest se (wi_manifest io) (files1(?p \<mapsto> [])) ?pushed of
        (None, fs) \<Rightarrow> (None, fs, ?pushed\<lparr>ao_next_seq := ao_next_seq a1 + 1, ao_fd := Some ?p,
           ao_older_incr_bytes := ao_older_incr_bytes a1 + ao_incr_bytes a1, ao_incr_bytes := 0\<rparr>)
      | (Some err, fs) \<Rightarrow> (Some err, fs(?p := None), a1)) = (r, files', a')"
      using b' o by (simp only: bool.case Let_def if_True if_False simp_thms file_entry.simps)
    show ?thesis
    proof (cases rule: persist_manifest_whole [OF io(2), of se "files1(?p \<mapsto> [])" ?pushed])
      case P: 1
      define a2 where "a2 = ?pushed\<lparr>ao_next_seq := ao_next_seq a1 + 1, ao_fd := Some ?p,
            ao_older_incr_bytes := ao_older_incr_bytes a1 + ao_incr_bytes a1, ao_incr_bytes := 0\<rparr>"
      have mc: "manifest_content ?pushed = manifest_content a2" by (simp add: a2_def manifest_content_def)
      have r: "r = None" "a' = a2" "files' = files1(?p \<mapsto> [], aof_path a1 kManifestName \<mapsto> manifest_content a2,
            aof_path a1 (kManifestName @ ''.tmp'') := None)"
        using b2 [symmetric] unfolding P a2_def [symmetric] mc pp prod.case option.case
        by (simp_all only: prod.inject simp_thms)
      have buf: "ao_buf a1 = []" using w(4) o(1) by blast
      have "ao_buf a2 = []" by (simp add: a2_def buf)
      moreover note aof_log_push [OF w(1) buf seq1 refl a2_def r(3)]
      ultimately show ?thesis unfolding r(1,2) by simp
    next
      case P: (2 err)
      have r: "r = Some err" "a' = a1"
        "files' = files1(?p \<mapsto> [], aof_path a1 (kManifestName @ ''.tmp'') := None, ?p := None)"
        using b2 [symmetric] unfolding P pp prod.case option.case by (simp_all only: prod.inject simp_thms)
      have "agree a1 files1 files'"
        unfolding r(3) by (intro agree_trans [OF agree_upd [OF wf] agree_trans [OF agree_fresh [OF wf refl] agree_upd [OF wf]]]) simp_all
      then show ?thesis using aof_log_frame [OF _ w(1)] r by simp
    qed
  qed
  then show "aof_log files' a' (if r = None then css @ [[]] else css)"
    "base_content files' a' = base_content files a" "r = None \<Longrightarrow> ao_buf a' = []"
    using w(3) by auto
qed

text \<open>Installing a new base: only the last incr file is kept.\<close>

lemma unlink_entries_other:
  "p \<notin> (\<lambda>f. aof_path a (fe_name f)) ` set es \<Longrightarrow> unlink_entries a es files p = files p"
  by (induction es arbitrary: files) (auto simp: unlink_entries_def)

lemma aof_log_install:
  assumes log: "aof_log files a css" and seq: "ao_next_seq a < ao_next_seq a + 1"
    and n: "n = base_name (ao_next_seq a)"
    and fld: "ao_incrs a' = [last (ao_incrs a)]" "ao_dir a' = ao_dir a" "ao_next_seq a' = ao_next_seq a + 1"
      "ao_base a' = Some \<lparr>fe_name = n, fe_seq = ao_next_seq a, fe_is_base = True\<rparr>"
      "ao_fd a' = ao_fd a" "ao_incr_bytes a' = ao_incr_bytes a" "ao_buf a' = ao_buf a"
    and f': "files' (aof_path a (fe_name (last (ao_incrs a)))) = files (aof_path a (fe_name (last (ao_incrs a))))"
      "files' (aof_path a kManifestName) = Some (manifest_content a')" "files' (aof_path a n) = Some snap"
  shows "aof_log files' a' [last css]" "base_content files' a' = Some snap"
proof -
  have wf: "aof_wf a" and inv: "aof_inv files a" using log by (simp_all add: aof_log_def aof_inv_def)
  let ?l = "last (ao_incrs a)" and ?b = "\<lparr>fe_name = n, fe_seq = ao_next_seq a, fe_is_base = True\<rparr>"
  have p: "aof_path a' = aof_path a" using fld by (simp add: aof_path_def fun_eq_iff)
  have e: "aof_entries a' = [?b, ?l]" using fld by (simp add: aof_entries_def)
  have l: "?l \<in> set (aof_entries a)" "\<not> fe_is_base ?l" using last_incr_entry [OF wf] wf by (auto simp: aof_wf_def entry_shape_def)
  have nm: "fe_name ?l \<noteq> n" using fresh_base [OF wf l(1)] n by simp
  have "aof_wf a'"
    unfolding aof_wf_def e p fld
    using wf l nm n seq by (auto simp: fld entry_shape_def entry_name_def aof_wf_def)
  moreover have c: "contents files' a' ?l = contents files a ?l" by (simp add: contents_def p f')
  ultimately have "aof_inv files' a'"
    using inv l f' unfolding aof_inv_def e p fld by (auto simp: c)
  then show "aof_log files' a' [last css]"
    using log c by (simp add: aof_log_def fld)
  show "base_content files' a' = Some snap" by (simp add: base_content_def fld p f')
qed

lemma aof_log_finish_rewrite:
  assumes log: "aof_log files a css" and seq: "ao_next_seq a < ao_next_seq a + 1"
    and io: "\<not> torn io" and temp: "temp = temp_base_path a pid" "child_ok \<Longrightarrow> files temp = Some snap"
    and f: "finish_rewrite se renamed io child_ok temp files a = (r, files', a')"
  shows "r \<noteq> None \<Longrightarrow> aof_log files' a' css \<and> base_content files' a' = base_content files a \<and> a' = a"
    "r = None \<Longrightarrow> aof_log files' a' [last css] \<and> base_content files' a' = Some snap \<and> ao_buf a' = ao_buf a"
proof -
  have wf: "aof_wf a" using log by (simp add: aof_log_def aof_inv_def)
  let ?n = "base_name (ao_next_seq a)"
  let ?p = "aof_path a ?n"
  let ?inst = "a\<lparr>ao_base := Some \<lparr>fe_name = ?n, fe_seq = ao_next_seq a, fe_is_base = True\<rparr>,
                 ao_incrs := [last (ao_incrs a)]\<rparr>"
  let ?old = "(case ao_base a of None \<Rightarrow> [] | Some b \<Rightarrow> [b]) @ butlast (ao_incrs a)"
  define files1 where "files1 = files(temp := None, ?p := Some snap)"
  have pp: "aof_path ?inst = aof_path a" by (simp add: aof_path_def fun_eq_iff)
  have tmp: "agree a files (files(temp := None))"
    using wf temp(1) by (auto simp: agree_def aof_wf_def entry_name_def temp_base_name [symmetric])
  note fr = aof_log_frame [OF _ log]
  have "(r \<noteq> None \<longrightarrow> agree a files files' \<and> a' = a) \<and>
    (r = None \<longrightarrow> aof_log files' a' [last css] \<and> base_content files' a' = Some snap \<and> ao_buf a' = ao_buf a)"
  proof (cases "child_ok \<and> renamed = 0")
    case False
    then have "files' = files(temp := None) \<and> a' = a \<and> r \<noteq> None"
      using f unfolding finish_rewrite_def Let_def by (cases child_ok) (auto split: if_splits)
    then show ?thesis using tmp by auto
  next
    case True
    have f2: "(case persist_manifest se io files1 ?inst of
        (None, fs) \<Rightarrow> (let fs = unlink_entries a ?old fs;
            a = ?inst\<lparr>ao_next_seq := ao_next_seq a + 1, ao_base_bytes := file_size fs ?p, ao_older_incr_bytes := 0\<rparr>
            in (None, fs, a\<lparr>ao_size_after_rewrite := current_size a\<rparr>))
      | (Some err, fs) \<Rightarrow> (Some err, fs(?p := None), a)) = (r, files', a')"
      using f True temp(2) [OF conjunct1 [OF True]] unfolding finish_rewrite_def files1_def Let_def
      by (simp only: if_True if_False simp_thms file_entry.simps)
    show ?thesis
    proof (cases rule: persist_manifest_whole [OF io, of se files1 ?inst])
      case P: (2 err)
      have r: "r = Some err" "a' = a" "files' = files1(aof_path a (kManifestName @ ''.tmp'') := None, ?p := None)"
        using f2 [symmetric] unfolding P pp prod.case option.case by (simp_all only: prod.inject simp_thms)
      have "agree a (files(temp := None)) files1" unfolding files1_def by (rule agree_upd [OF wf]) simp
      moreover have "agree a files1 files'"
        unfolding r(3) by (rule agree_trans [OF agree_fresh [OF wf refl] agree_upd [OF wf]]) simp
      ultimately have "agree a files files'" using tmp agree_trans by blast
      then show ?thesis using r by simp
    next
      case P: 1
      define m where "m = manifest_content ?inst"
      define fs where "fs = files1(aof_path a kManifestName \<mapsto> m, aof_path a (kManifestName @ ''.tmp'') := None)"
      define a2 where "a2 = ?inst\<lparr>ao_next_seq := ao_next_seq a + 1,
          ao_base_bytes := file_size (unlink_entries a ?old fs) ?p, ao_older_incr_bytes := 0\<rparr>"
      have r: "r = None" "files' = unlink_entries a ?old fs" "a' = a2\<lparr>ao_size_after_rewrite := current_size a2\<rparr>"
        using f2 [symmetric] unfolding P pp m_def [symmetric] prod.case option.case Let_def fs_def [symmetric] a2_def [symmetric]
        by (simp_all only: prod.inject simp_thms)
      have old: "\<forall>f \<in> set ?old. f \<in> set (aof_entries a)" using entries_parts by (auto split: option.splits)
      have nl: "\<forall>f \<in> set ?old. fe_name f \<noteq> fe_name (last (ao_incrs a))"
        using incrs_distinct [OF wf] base_not_open [OF wf] by (auto split: option.splits)
      have keep: "unlink_entries a ?old fs (aof_path a q) = fs (aof_path a q)"
        if "\<forall>f \<in> set ?old. fe_name f \<noteq> q" for q
        by (rule unlink_entries_other) (use that in auto)
      have l: "last (ao_incrs a) \<in> set (aof_entries a)" by (rule last_incr_entry [OF wf])
      have m': "m = manifest_content a'" by (simp add: m_def r(3) a2_def manifest_content_def)
      have le: "fe_name (last (ao_incrs a)) = entry_name (last (ao_incrs a))" using wf l by (auto simp: aof_wf_def)
      have lt: "aof_path a (fe_name (last (ao_incrs a))) \<noteq> temp" "fe_name (last (ao_incrs a)) \<noteq> kManifestName @ ''.tmp''"
        unfolding le temp(1) by (simp_all add: entry_name_def temp_base_name [symmetric])
      have "files' (aof_path a kManifestName) = fs (aof_path a kManifestName)"
        unfolding r(2) by (rule keep) (use old entry_not_manifest [OF wf] in blast)
      then have "files' (aof_path a kManifestName) = Some m" by (simp add: fs_def)
      moreover have "files' ?p = fs ?p"
        unfolding r(2) by (rule keep) (use old fresh_base [OF wf] in blast)
      then have "files' ?p = Some snap" by (simp add: fs_def files1_def)
      moreover have "files' (aof_path a (fe_name (last (ao_incrs a)))) = files (aof_path a (fe_name (last (ao_incrs a))))"
        unfolding r(2) keep [OF nl]
        using lt entry_not_manifest [OF wf l] fresh_base [OF wf l] by (simp add: fs_def files1_def)
      ultimately have "aof_log files' a' [last css]" "base_content files' a' = Some snap"
        using aof_log_install [OF log seq refl, of a' files' snap] m' by (simp_all add: r(3) a2_def)
      then show ?thesis using r by (simp add: a2_def)
    qed
  qed
  then show "r \<noteq> None \<Longrightarrow> aof_log files' a' css \<and> base_content files' a' = base_content files a \<and> a' = a"
    "r = None \<Longrightarrow> aof_log files' a' [last css] \<and> base_content files' a' = Some snap \<and> ao_buf a' = ao_buf a"
    using fr by auto
qed

section \<open>Loading replays the log\<close>

lemma encode_log_simps [simp]: "encode_log [] = []" "encode_log (c # cs) = reply_command [] c @ encode_log cs"
  "encode_log (xs @ ys) = encode_log xs @ encode_log ys"
  by (simp_all add: encode_log_def)

lemma reply_command_not_Nil [simp]: "reply_command [] c \<noteq> []"
  by (simp add: reply_command_eq)









text \<open>Opening a file gives what it contains, in pieces.\<close>

definition reads_files :: "(bytes \<Rightarrow> open_result) \<Rightarrow> files \<Rightarrow> bool" where
  "reads_files opn files \<longleftrightarrow>
     (\<forall>p. case files p of
            None \<Rightarrow> opn p = NoEntry
          | Some c \<Rightarrow> \<exists>reads. opn p = Opened reads \<and> reads_ok reads \<and> reads_data reads = c)"
















section \<open>A fresh file\<close>

lemma aof_create_parts:
  assumes seq: "ao_next_seq a < ao_next_seq a + 1" "ao_next_seq a + 1 < ao_next_seq a + 2"
    and c: "aof_create se io st files a = (None, files', a')"
  shows "aof_log files' (a'\<lparr>ao_buf := []\<rparr>) [[]]" "base_content files' a' = Some (snapshot_bytes (store_records (ci_save_now io) st))"
    "ao_buf a' = ao_buf a" "ao_dir a' = ao_dir a"
    "map fe_name (aof_entries a') = [base_name (ao_next_seq a), incr_name (ao_next_seq a + 1)]"
proof -
  let ?b = "\<lparr>fe_name = base_name (ao_next_seq a), fe_seq = ao_next_seq a, fe_is_base = True\<rparr>"
  let ?i = "\<lparr>fe_name = incr_name (ao_next_seq a + 1), fe_seq = ao_next_seq a + 1, fe_is_base = False\<rparr>"
  let ?bp = "aof_path a (base_name (ao_next_seq a))" and ?ip = "aof_path a (incr_name (ao_next_seq a + 1))"
  define a1 where "a1 = a\<lparr>ao_base := Some ?b, ao_incrs := [?i]\<rparr>"
  have p1: "aof_path a1 = aof_path a" by (simp add: a1_def aof_path_def fun_eq_iff)
  obtain saved content where s: "save (ci_save_open io) (ci_save_write io) (ci_save_fsync io) (ci_save_close io)
      (ci_save_rename io) (ci_save_dir io) (ci_save_now io) st (files ?bp) = (saved, content)" by fastforce
  let ?f1 = "files(?bp := content, ?ip \<mapsto> [])"
  have c': "ci_mkdir io \<and> saved \<and> ci_open io \<and>
      (case persist_manifest se (ci_manifest io) ?f1 a1 of
         (Some err, fs) \<Rightarrow> (Some err, fs, a1)
       | (None, fs) \<Rightarrow>
           let a = a1\<lparr>ao_next_seq := ao_next_seq a1 + 2, ao_fd := Some ?ip, ao_base_bytes := file_size fs ?bp,
                     ao_older_incr_bytes := 0, ao_incr_bytes := 0\<rparr>
           in (None, fs, a\<lparr>ao_size_after_rewrite := current_size a\<rparr>)) = (None, files', a')"
    using c unfolding aof_create_def Let_def file_entry.simps s prod.case a1_def
    by (cases "ci_mkdir io"; cases saved; cases "ci_open io") simp_all
  then have snap: "content = Some (snapshot_bytes (store_records (ci_save_now io) st))"
    using s write_file_bytes by (auto simp: save_def durable_rename_def split: prod.splits bool.splits if_splits)
  have P: "persist_manifest se (ci_manifest io) ?f1 a1 =
      (None, ?f1(aof_path a kManifestName \<mapsto> manifest_content a1, aof_path a (kManifestName @ ''.tmp'') := None))"
    using c' by (cases rule: persist_manifest_cases [of "ci_manifest io" se ?f1 a1]) (simp_all add: p1)
  have f': "files' = ?f1(aof_path a kManifestName \<mapsto> manifest_content a1, aof_path a (kManifestName @ ''.tmp'') := None)"
    using c' unfolding P by (simp add: Let_def)
  have fld: "ao_base a' = Some ?b" "ao_incrs a' = [?i]" "ao_next_seq a' = ao_next_seq a + 2" "ao_fd a' = Some ?ip"
    "ao_incr_bytes a' = 0" "ao_buf a' = ao_buf a" "ao_dir a' = ao_dir a"
    using c' unfolding P by (auto simp: Let_def a1_def)
  have p': "aof_path a' = aof_path a" using fld by (simp add: aof_path_def fun_eq_iff)
  have e: "aof_entries a' = [?b, ?i]" using fld by (simp add: aof_entries_def)
  have m: "manifest_content a' = manifest_content a1" using fld by (simp add: manifest_content_def a1_def)
  have fs: "files' ?bp = content" "files' ?ip = Some []" "files' (aof_path a kManifestName) = Some (manifest_content a1)"
    by (simp_all add: f')
  have "aof_wf a'"
    unfolding aof_wf_def e p' fld using seq by (auto simp: fld entry_shape_def entry_name_def)
  then have "aof_inv files' a'"
    unfolding aof_inv_def e p' m fld using fs snap by (simp add: contents_def p')
  then show "aof_log files' (a'\<lparr>ao_buf := []\<rparr>) [[]]"
    by (auto simp: aof_log_def fld contents_def p' fs aof_inv_def aof_wf_def entry_shape_def aof_entries_def aof_path_def
        manifest_content_def entry_name_def fs(2) [unfolded aof_path_def])
  show "base_content files' a' = Some (snapshot_bytes (store_records (ci_save_now io) st))"
    by (simp add: base_content_def fld p' fs snap)
  show "ao_buf a' = ao_buf a" "ao_dir a' = ao_dir a" using fld by simp_all
  show "map fe_name (aof_entries a') = [base_name (ao_next_seq a), incr_name (ao_next_seq a + 1)]" by (simp add: e)
qed

lemma aof_create_log:
  assumes buf: "ao_buf a = []" and seq: "ao_next_seq a < ao_next_seq a + 1" "ao_next_seq a + 1 < ao_next_seq a + 2"
    and c: "aof_create se io st files a = (None, files', a')"
  shows "aof_log files' a' [[]]" "base_content files' a' = Some (snapshot_bytes (store_records (ci_save_now io) st))"
    "ao_buf a' = []" "ao_dir a' = ao_dir a"
  using aof_create_parts [OF seq c] buf by simp_all (metis aof.surjective aof.update_convs(8) surj_pair)

text \<open>
  Replacing everything by a new base: a failure leaves only files that no manifest lists, unless the
  manifest is torn.
\<close>

lemma aof_create_failed:
  assumes wf: "aof_wf a" and seq: "ao_next_seq a < ao_next_seq a + 1" "ao_next_seq a + 1 < ao_next_seq a + 2"
    and io: "\<not> torn (ci_manifest io)"
    and c: "aof_create se io st files a = (Some err, files', a')"
  shows "agree a files files'" "\<exists>b i. a' = a\<lparr>ao_base := b, ao_incrs := i\<rparr>"
proof -
  let ?b = "\<lparr>fe_name = base_name (ao_next_seq a), fe_seq = ao_next_seq a, fe_is_base = True\<rparr>"
  let ?i = "\<lparr>fe_name = incr_name (ao_next_seq a + 1), fe_seq = ao_next_seq a + 1, fe_is_base = False\<rparr>"
  let ?bp = "aof_path a (base_name (ao_next_seq a))" and ?ip = "aof_path a (incr_name (ao_next_seq a + 1))"
  define a1 where "a1 = a\<lparr>ao_base := Some ?b, ao_incrs := [?i]\<rparr>"
  have p1: "aof_path a1 = aof_path a" by (simp add: a1_def aof_path_def fun_eq_iff)
  obtain saved content where s: "save (ci_save_open io) (ci_save_write io) (ci_save_fsync io) (ci_save_close io)
      (ci_save_rename io) (ci_save_dir io) (ci_save_now io) st (files ?bp) = (saved, content)" by fastforce
  let ?f0 = "files(?bp := content)" and ?f1 = "files(?bp := content, ?ip \<mapsto> [])"
  have ab: "agree a files ?f0" by (rule agree_upd [OF wf]) simp
  have "fe_name f \<noteq> incr_name (ao_next_seq a + 1)" if "f \<in> set (aof_entries a)" for f
    using wf that seq(1) by (auto simp: aof_wf_def entry_name_def)
  then have "agree a ?f0 ?f1" by (auto simp: agree_def names_not_manifest [symmetric])
  with ab have ai: "agree a files ?f1" by (rule agree_trans)
  have "files' = files \<and> a' = a \<or> files' = ?f0 \<and> a' = a \<or>
      (case persist_manifest se (ci_manifest io) ?f1 a1 of
         (Some err, fs) \<Rightarrow> (Some err, fs, a1)
       | (None, fs) \<Rightarrow>
           let a = a1\<lparr>ao_next_seq := ao_next_seq a1 + 2, ao_fd := Some ?ip, ao_base_bytes := file_size fs ?bp,
                     ao_older_incr_bytes := 0, ao_incr_bytes := 0\<rparr>
           in (None, fs, a\<lparr>ao_size_after_rewrite := current_size a\<rparr>)) = (Some err, files', a')"
    using c unfolding aof_create_def Let_def file_entry.simps s prod.case a1_def
    by (cases "ci_mkdir io"; cases saved; cases "ci_open io") simp_all
  then have "agree a files files' \<and> (a' = a \<or> a' = a1)"
  proof (elim disjE)
    assume P: "(case persist_manifest se (ci_manifest io) ?f1 a1 of
         (Some err, fs) \<Rightarrow> (Some err, fs, a1)
       | (None, fs) \<Rightarrow>
           let a = a1\<lparr>ao_next_seq := ao_next_seq a1 + 2, ao_fd := Some ?ip, ao_base_bytes := file_size fs ?bp,
                     ao_older_incr_bytes := 0, ao_incr_bytes := 0\<rparr>
           in (None, fs, a\<lparr>ao_size_after_rewrite := current_size a\<rparr>)) = (Some err, files', a')"
    show ?thesis
    proof (cases rule: persist_manifest_whole [OF io, of se ?f1 a1])
      case 1
      then show ?thesis using P by (simp add: Let_def)
    next
      case (2 e)
      have "files' = ?f1(aof_path a (kManifestName @ ''.tmp'') := None)" "a' = a1"
        using P [symmetric] unfolding 2 p1 prod.case option.case by (simp_all only: prod.inject simp_thms)
      then show ?thesis using agree_trans [OF ai agree_fresh [OF wf]] by blast
    qed
  qed (use ab in \<open>auto simp: agree_def\<close>)
  moreover have "a = a\<lparr>ao_base := ao_base a, ao_incrs := ao_incrs a\<rparr>" by simp
  ultimately show "agree a files files'" "\<exists>b i. a' = a\<lparr>ao_base := b, ao_incrs := i\<rparr>"
    unfolding a1_def by metis+
qed

lemma aof_log_reset:
  assumes log: "aof_log files a css" and seq: "ao_next_seq a < ao_next_seq a + 1" "ao_next_seq a + 1 < ao_next_seq a + 2"
    and io: "\<not> torn (ci_manifest io)"
    and f: "aof_reset se rc io st files a = (r, files', a')"
  shows "r \<noteq> None \<Longrightarrow> aof_log files' a' css \<and> base_content files' a' = base_content files a"
    "r = None \<Longrightarrow> aof_log files' a' [[]] \<and> base_content files' a' = Some (snapshot_bytes (store_records (ci_save_now io) st))"
proof -
  define a0 where "a0 = a\<lparr>ao_worker := map_option (wait_idle rc) (ao_worker a)\<rparr>"
  have same: "same_parts a a0" "ao_buf a0 = ao_buf a" "ao_incr_bytes a0 = ao_incr_bytes a" by (simp_all add: a0_def same_parts_def)
  have log0: "aof_log files a0 css" "base_content files a0 = base_content files a" using aof_log_same [OF same] log by simp_all
  have wf: "aof_wf a0" using log0 by (simp add: aof_log_def aof_inv_def)
  have seq0: "ao_next_seq a0 < ao_next_seq a0 + 1" "ao_next_seq a0 + 1 < ao_next_seq a0 + 2" using seq by (simp_all add: a0_def)
  obtain e files1 a1 where c: "aof_create se io st files a0 = (e, files1, a1)" by (metis prod.exhaust)
  note f' = f [unfolded aof_reset_def a0_def [symmetric] Let_def c prod.case]
  show "aof_log files' a' css \<and> base_content files' a' = base_content files a" if "r \<noteq> None"
  proof -
    have "e \<noteq> None" using f' that by (cases e) simp_all
    then obtain err where e: "e = Some err" by blast
    note c' = aof_create_failed [OF wf seq0 io c [unfolded e]]
    have "files' = files1" "a' = a0" using f' c'(2) by (auto simp: e)
    then show ?thesis using aof_log_frame [OF c'(1) log0(1)] log0(2) by simp
  qed
  show "aof_log files' a' [[]] \<and> base_content files' a' = Some (snapshot_bytes (store_records (ci_save_now io) st))" if "r = None"
  proof -
    have e: "e = None" using f' that by (cases e) auto
    note c' = aof_create_parts [OF seq0 c [unfolded e]]
    let ?old = "(case ao_base a0 of None \<Rightarrow> [] | Some b \<Rightarrow> [b]) @ ao_incrs a0"
    let ?a2 = "a1\<lparr>ao_buf := []\<rparr>"
    have r: "files' = unlink_entries a1 ?old files1" "a' = a1\<lparr>ao_buf := [], ao_write_errno := 0, ao_unsynced := False\<rparr>"
      using f' by (simp_all add: e)
    have p: "aof_path a1 = aof_path a0" "aof_path ?a2 = aof_path a0" using c'(4) by (simp_all add: aof_path_def fun_eq_iff)
    have old: "fe_name g \<noteq> base_name (ao_next_seq a0)" "fe_name g \<noteq> incr_name (ao_next_seq a0 + 1)" "fe_name g \<noteq> kManifestName"
      if "g \<in> set ?old" for g
    proof -
      have "g \<in> set (aof_entries a0)" using that entries_parts by (auto split: option.splits)
      then show "fe_name g \<noteq> base_name (ao_next_seq a0)" "fe_name g \<noteq> incr_name (ao_next_seq a0 + 1)" "fe_name g \<noteq> kManifestName"
        using wf seq0(1) entry_not_manifest [OF wf] by (auto simp: aof_wf_def entry_name_def)
    qed
    have new: "fe_name g = base_name (ao_next_seq a0) \<or> fe_name g = incr_name (ao_next_seq a0 + 1)"
      if "g \<in> set (aof_entries ?a2)" for g
    proof -
      have "fe_name g \<in> set (map fe_name (aof_entries a1))" using that by (auto simp: aof_entries_def)
      then show ?thesis unfolding c'(5) by simp
    qed
    have keep: "files' (aof_path a0 q) = files1 (aof_path a0 q)" if "\<forall>g \<in> set ?old. fe_name g \<noteq> q" for q
      unfolding r(1) by (rule unlink_entries_other) (use that p in auto)
    have "agree ?a2 files1 files'" unfolding agree_def p
    proof (intro conjI ballI keep)
      fix g q assume "g \<in> set (aof_entries ?a2)" "q \<in> set ?old"
      then show "fe_name q \<noteq> fe_name g" using old(1,2) [of q] new [of g] by metis
    qed (use old(3) in blast)
    from aof_log_frame [OF this c'(1)] have "aof_log files' ?a2 [[]]" "base_content files' ?a2 = base_content files1 ?a2" .
    moreover have "same_parts ?a2 a'" "ao_buf a' = ao_buf ?a2" "ao_incr_bytes a' = ao_incr_bytes ?a2"
      "base_content files1 ?a2 = base_content files1 a1"
      using p by (simp_all add: r(2) same_parts_def base_content_def split: option.splits)
    ultimately show ?thesis using aof_log_same [of ?a2 a'] c'(2) by simp
  qed
qed

section \<open>Every history\<close>

text \<open>
  The histories of an append-only file: it is created, then commands are fed, flushed with whatever
  outcome, and rewritten in two steps; the background fsync finishes at any time. \<open>recs\<close> are the
  records of the snapshot the log starts from and \<open>css\<close> what was fed since, one list per incr file.

  Every call may fail, with one exception: the manifest of a rewrite is not \<^const>\<open>torn\<close>, that is,
  the fsync of the directory does not fail once the manifest was renamed. The other side conditions
  are about the kernel (it writes no more than it is given, and offsets fit), about the child (one
  that exits with success has written a whole snapshot) and about numbers (64 bits are enough for
  the sizes of records and the sequence numbers of files).
\<close>

inductive aof_run :: "strerror \<Rightarrow> snap_record list \<Rightarrow> files \<Rightarrow> aof \<Rightarrow> args list list \<Rightarrow> bool" for se where
  run_create: "aof_create se io st files (make_aof dir policy) = (None, files', a') \<Longrightarrow>
     recs = store_records (ci_save_now io) st \<Longrightarrow> list_all record_ok recs \<Longrightarrow>
     aof_run se recs files' a' [[]]"
| run_feed: "aof_run se recs files a css \<Longrightarrow>
     aof_run se recs files (aof_feed argv a) (butlast css @ [last css @ [argv]])"
| run_flush: "aof_run se recs files a css \<Longrightarrow> aof_flush io files a = (ok, files', a') \<Longrightarrow>
     fi_written io \<le> length (ao_buf a) \<Longrightarrow> off_t_fits files \<Longrightarrow>
     aof_run se recs files' a' css"
| run_sync: "aof_run se recs files a css \<Longrightarrow>
     aof_run se recs files (a\<lparr>ao_worker := map_option (worker_done rc) (ao_worker a)\<rparr>) css"
| run_begin: "aof_run se recs files a css \<Longrightarrow> begin_rewrite se io files a = (r, files', a') \<Longrightarrow>
     fi_written (wi_flush io) \<le> length (ao_buf a) \<Longrightarrow> off_t_fits files \<Longrightarrow>
     \<not> torn (wi_manifest io) \<Longrightarrow> ao_next_seq a < ao_next_seq a + 1 \<Longrightarrow>
     aof_run se recs files' a' (if r = None then css @ [[]] else css)"
| run_child: "aof_run se recs files a css \<Longrightarrow>
     aof_run se recs (files(temp_base_path a pid := content)) a css"
| run_finish: "aof_run se recs files a css \<Longrightarrow>
     (child_ok \<Longrightarrow> files (temp_base_path a pid) = Some (snapshot_bytes snap) \<and> list_all record_ok snap) \<Longrightarrow>
     finish_rewrite se renamed io child_ok (temp_base_path a pid) files a = (r, files', a') \<Longrightarrow>
     \<not> torn io \<Longrightarrow> ao_next_seq a < ao_next_seq a + 1 \<Longrightarrow>
     aof_run se (if r = None then snap else recs) files' a' (if r = None then [last css] else css)"
| run_reset: "aof_run se recs files a css \<Longrightarrow> aof_reset se rc io st files a = (r, files', a') \<Longrightarrow>
     \<not> torn (ci_manifest io) \<Longrightarrow> ao_next_seq a < ao_next_seq a + 1 \<Longrightarrow> ao_next_seq a + 1 < ao_next_seq a + 2 \<Longrightarrow>
     snap = store_records (ci_save_now io) st \<Longrightarrow> list_all record_ok snap \<Longrightarrow>
     aof_run se (if r = None then snap else recs) files' a' (if r = None then [[]] else css)"

lemma finish_rewrite_child: "finish_rewrite se renamed io child_ok temp files a = (None, files', a') \<Longrightarrow> child_ok"
  by (auto simp: finish_rewrite_def split: if_splits)

lemma aof_run_log:
  "aof_run se recs files a css \<Longrightarrow>
     aof_log files a css \<and> base_content files a = Some (snapshot_bytes recs) \<and> list_all record_ok recs"
proof (induction rule: aof_run.induct)
  case (run_create io st files dir policy files' a' recs)
  then show ?case
    using aof_create_log [of "make_aof dir policy" se io st files files' a'] by (simp add: make_aof_def)
next
  case (run_feed recs files a css argv)
  then have "base_content files (aof_feed argv a) = base_content files a"
    by (simp add: base_content_def aof_feed_def aof_path_def split: option.splits)
  then show ?case using run_feed aof_log_feed by simp
next
  case (run_flush recs files a css io ok files' a')
  then show ?case using aof_log_flush [of files a css io ok files' a'] by simp
next
  case (run_sync recs files a css rc)
  then show ?case
    using aof_log_same [of a "a\<lparr>ao_worker := map_option (worker_done rc) (ao_worker a)\<rparr>"] by (simp add: same_parts_def)
next
  case (run_begin recs files a css io r files' a')
  then show ?case using aof_log_begin_rewrite [of files a css io se r files' a'] by simp
next
  case (run_child recs files a css pid content)
  then have "agree a files (files(temp_base_path a pid := content))"
    by (auto simp: agree_def aof_log_def aof_inv_def aof_wf_def entry_name_def temp_base_name [symmetric])
  from aof_log_frame [OF this] run_child.IH show ?case by metis
next
  case (run_finish recs files a css child_ok pid snap renamed io r files' a')
  note f = aof_log_finish_rewrite [OF _ run_finish.hyps(5) run_finish.hyps(4) refl _ run_finish.hyps(3)]
  show ?case
  proof (cases "r = None")
    case True
    then have "child_ok" using run_finish.hyps(3) finish_rewrite_child by simp
    then show ?thesis using f(2) [of css "snapshot_bytes snap"] run_finish True by auto
  next
    case False
    then show ?thesis using f(1) [of css "snapshot_bytes snap"] run_finish by auto
  qed
next
  case (run_reset recs files a css rc io st r files' a' snap)
  then show ?case
    using aof_log_reset [of files a css io se rc st r files' a'] by (cases r) simp_all
qed

section \<open>A sample run\<close>

definition sample_create :: create_io where
  "sample_create =
     \<lparr>ci_mkdir = True, ci_save_open = True, ci_save_write = (\<lambda>_. length), ci_save_fsync = True,
      ci_save_close = True, ci_save_rename = True, ci_save_dir = (True, True), ci_save_now = 5, ci_open = True,
      ci_manifest = \<lparr>mi_open = True, mi_written = 89, mi_fsync = True, mi_rename = True, mi_dir = (True, True), mi_errno = 0\<rparr>,
      ci_errno = 0\<rparr>"


definition sample_load :: "files \<Rightarrow> load_io" where
  "sample_load files =
     \<lparr>li_manifest = 0,
      li_open = (\<lambda>p. case files p of None \<Rightarrow> NoEntry | Some c \<Rightarrow> Opened (if c = [] then [] else [RData c])),
      li_truncate = 0, li_append = 0, li_now = 7, li_clk = (\<lambda>_ _. 7)\<rparr>"

lemma to_string_12: "to_string_u64 1 = ''1''" "to_string_u64 2 = ''2''"
  by code_simp+

lemma empty_store_records [simp]: "store_records now (make_store m pol) = []"
  by (simp add: store_records_def make_store_def store_for_each_def)
    (simp add: empty_table_def ht_entries_def make_table_def kInitialBucketCount_def)

lemma sample_created:
  "\<exists>files a. aof_create se sample_create (make_store m pol) Map.empty (make_aof dir policy) = (None, files, a) \<and>
     ao_buf a = [] \<and> healthy a \<and> off_t_fits files"
proof -
  have "length (snapshot_bytes (store_records 5 (make_store m pol))) < 2 ^ 63"
    by (simp add: snapshot_bytes_def snapshot_body_def kMagic_def)
  then show ?thesis
    unfolding aof_create_def sample_create_def make_aof_def
    by (simp add: Let_def save_def write_file_succeeds durable_rename_def fsync_dir_def persist_manifest_def
        manifest_content_def manifest_line_def base_name_def incr_name_def to_string_12 healthy_def off_t_fits_def)
qed


lemma sample_loads: "reads_files (li_open (sample_load files)) files"
  by (auto simp: sample_load_def reads_files_def split: option.splits)


section \<open>Recovery\<close>



section \<open>A torn manifest\<close>

text \<open>A directory whose manifest lists a file that is not there cannot be loaded.\<close>

definition broken :: "files \<Rightarrow> bytes \<Rightarrow> bool" where
  "broken files dir \<longleftrightarrow>
     (\<exists>a f. ao_dir a = dir \<and> entry_shape a \<and> (\<forall>f \<in> set (aof_entries a). plain_name (fe_name f)) \<and>
        files (aof_path a kManifestName) = Some (manifest_content a) \<and>
        f \<in> set (aof_entries a) \<and> files (aof_path a (fe_name f)) = None)"

lemma load_incrs_missing:
  assumes "f \<in> set fs" "li_open io (aof_path a (fe_name f)) = NoEntry"
  shows "load_incrs se io rp fs i files s a \<noteq> Some (None, files', s', a')"
  using assms
proof (induction fs arbitrary: i files s a)
  case (Cons g fs)
  have "aof_path (a\<lparr>ao_incr_bytes := x\<rparr>) = aof_path a" "aof_path (a\<lparr>ao_older_incr_bytes := x\<rparr>) = aof_path a" for x
    by (simp_all add: aof_path_def fun_eq_iff)
  note path = this
  show ?case
  proof (cases "f = g")
    case True
    then show ?thesis using Cons.prems by (simp add: Let_def replay_incr_def)
  next
    case False
    then have "f \<in> set fs" "fs \<noteq> []" using Cons.prems(1) by auto
    with Cons.IH [OF this(1)] Cons.prems(2) path show ?thesis
      by (auto simp: Let_def split: option.splits prod.splits)
  qed
qed simp

lemma broken_load:
  assumes "broken files dir" "reads_files (li_open io) files"
  shows "aof_load se io rp files (make_aof dir policy) d \<noteq> Some (None, files', a', d')"
proof -
  obtain a f where a: "ao_dir a = dir" "entry_shape a" "\<forall>f \<in> set (aof_entries a). plain_name (fe_name f)"
    "files (aof_path a kManifestName) = Some (manifest_content a)" "f \<in> set (aof_entries a)" "files (aof_path a (fe_name f)) = None"
    using assms(1) unfolding broken_def by blast
  let ?a0 = "make_aof dir policy"
  define a1 where "a1 = ?a0\<lparr>ao_base := ao_base a, ao_incrs := ao_incrs a, ao_next_seq := seq_after (aof_entries a) (ao_next_seq ?a0)\<rparr>"
  have p: "aof_path ?a0 = aof_path a" "aof_path a1 = aof_path a"
    "\<And>x. aof_path (a1\<lparr>ao_base_bytes := x\<rparr>) = aof_path a"
    using a(1) by (simp_all add: a1_def make_aof_def aof_path_def fun_eq_iff)
  have "ao_base ?a0 = None" "ao_incrs ?a0 = []" by (simp_all add: make_aof_def)
  from manifest_lines_roundtrip [OF a(2,3) this] a(4)
  have m: "li_manifest io = 0 \<Longrightarrow> read_manifest se (li_manifest io) files ?a0 = (None, a1)"
    by (simp add: read_manifest_def p a1_def)
  have o: "li_open io (aof_path a (fe_name f)) = NoEntry"
    using assms(2) a(6) by (auto simp: reads_files_def dest!: spec [of _ "aof_path a (fe_name f)"])
  have parts: "ao_base a1 = ao_base a" "ao_incrs a1 = ao_incrs a" by (simp_all add: a1_def)
  show ?thesis
  proof (cases "ao_base a = Some f")
    case True
    then have "load_base io files a1 d = (Some (AofText (aof_path a (fe_name f) @ '': listed in the manifest but missing'')), a1,
        d\<lparr>d_store := (d_store d)\<lparr>st_notified := []\<rparr>\<rparr>)"
      using o by (simp add: load_base_def parts p snapshot_load_def)
    then show ?thesis using m a(4)
      by (cases "li_manifest io = 0") (simp_all add: aof_load_def read_manifest_def p)
  next
    case False
    then have f: "f \<in> set (ao_incrs a)" using a(5) by (auto simp: aof_entries_def split: option.splits)
    obtain e a2 d2 where b: "load_base io files a1 d = (e, a2, d2)" by (metis prod.exhaust)
    then have "e = None \<Longrightarrow> aof_path a2 = aof_path a \<and> ao_incrs a2 = ao_incrs a"
      using p parts by (auto simp: load_base_def Let_def split: option.splits prod.splits load_result.splits)
    then show ?thesis using m a(4) b load_incrs_missing [OF f, of io a2 se rp 0 files d2] o
      by (cases "li_manifest io = 0"; cases e)
        (auto simp: aof_load_def read_manifest_def p Let_def split: option.splits prod.splits)
  qed
qed

lemma manifest_kept:
  assumes "aof_log files a css" "aof_log files' a' css'" "same_parts a a'"
  shows "files' (aof_path a kManifestName) = files (aof_path a kManifestName)"
proof -
  have "manifest_content a' = manifest_content a" "aof_path a' = aof_path a"
    using assms(3) by (auto simp: same_parts_def manifest_content_def aof_path_def fun_eq_iff)
  then show ?thesis using assms by (simp add: aof_log_def aof_inv_def)
qed

lemma begin_torn:
  assumes log: "aof_log files a css" and fits: "off_t_fits files" and io: "fi_written (wi_flush io) \<le> length (ao_buf a)"
    and b: "begin_rewrite se io files a = (Some err, files', a')"
    and changed: "files' (aof_path a kManifestName) \<noteq> files (aof_path a kManifestName)"
  shows "broken files' (ao_dir a) \<and> aof_entries a' = aof_entries a"
proof -
  obtain ok files1 a1 where 1: "flush_and_sync (wi_flush io) (wi_worker io) (wi_fsync io) files a = (ok, files1, a1)"
    by (metis prod.exhaust)
  note w = aof_log_sync [OF log fits io 1]
  have wf: "aof_wf a1" using w(1) by (simp add: aof_log_def aof_inv_def)
  let ?n = "incr_name (ao_next_seq a1)"
  let ?p = "aof_path a1 ?n" and ?m = "aof_path a1 kManifestName"
  define pushed where "pushed = a1\<lparr>ao_incrs := ao_incrs a1 @ [\<lparr>fe_name = ?n, fe_seq = ao_next_seq a1, fe_is_base = False\<rparr>]\<rparr>"
  have pp: "aof_path pushed = aof_path a1" "aof_path a = aof_path a1"
    using w(2) by (simp_all add: pushed_def same_parts_def aof_path_def fun_eq_iff)
  have same: "files1 ?m = files ?m" using manifest_kept [OF log w(1,2)] by (simp add: pp)
  note b' = b [unfolded begin_rewrite_def 1 prod.case]
  have ne: "files' \<noteq> files1" using changed same by (auto simp: pp)
  then have o1: "ok" using b' by (cases ok) auto
  have o2: "wi_open io = 0"
  proof (rule ccontr)
    assume "wi_open io \<noteq> 0"
    with o1 b' have "(Some (?p @ '': '' @ se (wi_open io)), files1, a1) = (Some err, files', a')"
      by (simp only: bool.case Let_def if_True simp_thms file_entry.simps)
    with ne show False by simp
  qed
  note o = o1 o2
  have b2: "(case persist_manifest se (wi_manifest io) (files1(?p \<mapsto> [])) pushed of
        (None, fs) \<Rightarrow> (None, fs, pushed\<lparr>ao_next_seq := ao_next_seq a1 + 1, ao_fd := Some ?p,
           ao_older_incr_bytes := ao_older_incr_bytes a1 + ao_incr_bytes a1, ao_incr_bytes := 0\<rparr>)
      | (Some err, fs) \<Rightarrow> (Some err, fs(?p := None), a1)) = (Some err, files', a')"
    using b' o unfolding pushed_def by (simp only: bool.case Let_def if_True if_False simp_thms file_entry.simps)
  have "a' = a1 \<and> files' ?m = Some (manifest_content pushed) \<and> files' ?p = None"
  proof (cases rule: persist_manifest_cases [of "wi_manifest io" se "files1(?p \<mapsto> [])" pushed])
    case written
    then show ?thesis using b2 by simp
  next
    case (kept e)
    have "files' = files1(?p \<mapsto> [], aof_path a1 (kManifestName @ ''.tmp'') := None, ?p := None)"
      using b2 [symmetric] unfolding kept pp prod.case option.case by (simp only: prod.inject simp_thms)
    then have "files' ?m = files ?m" using same by (simp add: names_not_manifest [symmetric])
    then show ?thesis using changed by (simp add: pp)
  next
    case (torn e)
    have "files' = files1(?p \<mapsto> [], ?m \<mapsto> manifest_content pushed, aof_path a1 (kManifestName @ ''.tmp'') := None, ?p := None)"
      "a' = a1"
      using b2 [symmetric] unfolding torn pp prod.case option.case by (simp_all only: prod.inject simp_thms)
    then show ?thesis by (simp add: names_not_manifest [symmetric])
  qed
  then have a': "a' = a1" "files' ?m = Some (manifest_content pushed) \<and> files' ?p = None" by blast+
  have "entry_shape pushed" "\<forall>f \<in> set (aof_entries pushed). plain_name (fe_name f)"
    "\<lparr>fe_name = ?n, fe_seq = ao_next_seq a1, fe_is_base = False\<rparr> \<in> set (aof_entries pushed)" "ao_dir pushed = ao_dir a"
    using wf w(2) by (auto simp: pushed_def aof_wf_def entry_shape_def aof_entries_def entry_name_def same_parts_def)
  then have "broken files' (ao_dir a)"
    unfolding broken_def using a'(2) pp(1) by (metis file_entry.select_convs(1))
  moreover have "aof_entries a1 = aof_entries a" using w(2) by (simp add: same_parts_def aof_entries_def)
  ultimately show ?thesis using a'(1) by simp
qed

lemma finish_torn:
  assumes log: "aof_log files a css"
    and f: "finish_rewrite se renamed io child_ok (temp_base_path a pid) files a = (Some err, files', a')"
    and changed: "files' (aof_path a kManifestName) \<noteq> files (aof_path a kManifestName)"
  shows "broken files' (ao_dir a) \<and> aof_entries a' = aof_entries a"
proof -
  have wf: "aof_wf a" using log by (simp add: aof_log_def aof_inv_def)
  let ?n = "base_name (ao_next_seq a)" and ?t = "temp_base_path a pid"
  let ?b = "\<lparr>fe_name = ?n, fe_seq = ao_next_seq a, fe_is_base = True\<rparr>"
  let ?p = "aof_path a ?n" and ?m = "aof_path a kManifestName"
  define inst where "inst = a\<lparr>ao_base := Some ?b, ao_incrs := [last (ao_incrs a)]\<rparr>"
  define files1 where "files1 = files(?t := None, ?p := files ?t)"
  have pp: "aof_path inst = aof_path a" by (simp add: inst_def aof_path_def fun_eq_iff)
  have mt: "?m \<noteq> ?t" using temp_base_name by metis
  have c: "child_ok \<and> renamed = 0"
  proof (rule ccontr)
    assume "\<not> (child_ok \<and> renamed = 0)"
    with f have "files' = files(?t := None)"
      unfolding finish_rewrite_def Let_def by (cases child_ok) (auto split: if_splits)
    then show False using changed mt by simp
  qed
  have f2: "(case persist_manifest se io files1 inst of
        (None, fs) \<Rightarrow> (let fs = unlink_entries a ((case ao_base a of None \<Rightarrow> [] | Some b \<Rightarrow> [b]) @ butlast (ao_incrs a)) fs;
            a = inst\<lparr>ao_next_seq := ao_next_seq a + 1, ao_base_bytes := file_size fs ?p, ao_older_incr_bytes := 0\<rparr>
            in (None, fs, a\<lparr>ao_size_after_rewrite := current_size a\<rparr>))
      | (Some err, fs) \<Rightarrow> (Some err, fs(?p := None), a)) = (Some err, files', a')"
    using f c unfolding finish_rewrite_def files1_def inst_def Let_def
    by (simp only: if_True if_False simp_thms file_entry.simps)
  have "a' = a \<and> files' ?m = Some (manifest_content inst) \<and> files' ?p = None"
  proof (cases rule: persist_manifest_cases [of io se files1 inst])
    case written
    then show ?thesis using f2 by (simp add: Let_def)
  next
    case (kept e)
    have "files' = files1(aof_path a (kManifestName @ ''.tmp'') := None, ?p := None)"
      using f2 [symmetric] unfolding kept pp prod.case option.case by (simp only: prod.inject simp_thms)
    then have "files' ?m = files ?m" using mt by (simp add: files1_def names_not_manifest [symmetric])
    then show ?thesis using changed by simp
  next
    case (torn e)
    have "files' = files1(?m \<mapsto> manifest_content inst, aof_path a (kManifestName @ ''.tmp'') := None, ?p := None)" "a' = a"
      using f2 [symmetric] unfolding torn pp prod.case option.case by (simp_all only: prod.inject simp_thms)
    then show ?thesis by (simp add: names_not_manifest [symmetric])
  qed
  then have a': "a' = a" "files' ?m = Some (manifest_content inst) \<and> files' ?p = None" by blast+
  have "entry_shape inst" "\<forall>f \<in> set (aof_entries inst). plain_name (fe_name f)" "?b \<in> set (aof_entries inst)" "ao_dir inst = ao_dir a"
    using wf last_incr_entry [OF wf] by (auto simp: inst_def aof_wf_def entry_shape_def aof_entries_def entry_name_def)
  then have "broken files' (ao_dir a)"
    unfolding broken_def using a'(2) pp by (metis file_entry.select_convs(1))
  then show ?thesis using a'(1) by simp
qed

text \<open>It can happen whenever a rewrite begins with nothing to flush: all calls succeed but the last.\<close>

lemma begin_tears:
  assumes log: "aof_log files a css" and buf: "ao_buf a = []"
  shows "\<exists>io err files' a'. begin_rewrite se io files a = (Some err, files', a') \<and> fi_written (wi_flush io) \<le> length (ao_buf a) \<and>
    files' (aof_path a kManifestName) \<noteq> files (aof_path a kManifestName)"
proof -
  let ?fio = "\<lparr>fi_written = 0, fi_errno = 0, fi_truncated = True, fi_fsync = 0, fi_now = 0\<rparr>"
  obtain a1 where 1: "flush_and_sync ?fio 0 0 files a = (True, files, a1)" "ao_incrs a1 = ao_incrs a" "ao_base a1 = ao_base a"
    "ao_dir a1 = ao_dir a"
    using buf by (auto simp: flush_and_sync_def aof_flush_def flush_write_def Let_def flush_submit_def try_submit_def split: option.splits)
  let ?n = "incr_name (ao_next_seq a1)"
  let ?pushed = "a1\<lparr>ao_incrs := ao_incrs a1 @ [\<lparr>fe_name = ?n, fe_seq = ao_next_seq a1, fe_is_base = False\<rparr>]\<rparr>"
  define c where "c = manifest_content ?pushed"
  let ?io = "\<lparr>wi_flush = ?fio, wi_worker = 0, wi_fsync = 0, wi_open = 0, wi_manifest =
    \<lparr>mi_open = True, mi_written = length c, mi_fsync = True, mi_rename = True, mi_dir = (True, False), mi_errno = 5\<rparr>\<rparr>"
  have p: "aof_path ?pushed = aof_path a" "aof_path a1 = aof_path a" using 1(4) by (simp_all add: aof_path_def fun_eq_iff)
  have "length c \<noteq> length (manifest_content a)" by (simp add: c_def manifest_content_def 1 manifest_line_def)
  then have "c \<noteq> manifest_content a" by auto
  then have ne: "files (aof_path a kManifestName) \<noteq> Some c" using log by (auto simp: aof_log_def aof_inv_def)
  have pm: "persist_manifest se (wi_manifest ?io) fs ?pushed =
      (Some (''writing the AOF manifest: '' @ se 5), fs(aof_path a kManifestName \<mapsto> c, aof_path a (kManifestName @ ''.tmp'') := None))" for fs
    unfolding persist_manifest_def c_def [symmetric] p
    by (simp add: Let_def durable_rename_def fsync_dir_def fun_upd_twist)
  have "begin_rewrite se ?io files a = (Some (''writing the AOF manifest: '' @ se 5), files(aof_path a ?n \<mapsto> [],
      aof_path a kManifestName \<mapsto> c, aof_path a (kManifestName @ ''.tmp'') := None, aof_path a ?n := None), a1)"
    unfolding begin_rewrite_def rewrite_io.simps(1-4) 1(1) prod.case bool.case Let_def file_entry.simps pm
    by (simp add: p)
  then show ?thesis using ne by (intro exI conjI) (assumption, simp_all add: names_not_manifest [symmetric])
qed

text \<open>
  C26: the failure that the recovery theorem leaves out does break the append-only file. If beginning
  or finishing a rewrite fails and yet the manifest on disk has changed (the rename went through and
  the fsync of the directory after it failed), then the file the new manifest names has been
  removed while the server goes on with the old parts. Whatever was logged before, loading that
  directory never succeeds: the server does not start again.
\<close>

theorem torn_manifest_unloadable:
  assumes "aof_run se recs files a css" "off_t_fits files"
    and "begin_rewrite se io files a = (Some err, files', a') \<and> fi_written (wi_flush io) \<le> length (ao_buf a) \<or>
      finish_rewrite se renamed mio child_ok (temp_base_path a pid) files a = (Some err, files', a')"
    and "files' (aof_path a kManifestName) \<noteq> files (aof_path a kManifestName)"
    and "reads_files (li_open lio) files'"
  shows "aof_entries a' = aof_entries a \<and>
    (\<forall>files'' a'' d'. aof_load se lio rp files' (make_aof (ao_dir a) policy) d \<noteq> Some (None, files'', a'', d'))"
proof -
  have log: "aof_log files a css" using aof_run_log [OF assms(1)] by blast
  have "broken files' (ao_dir a) \<and> aof_entries a' = aof_entries a"
    using assms(3,4) begin_torn [OF log assms(2)] finish_torn [OF log] by (elim disjE conjE) metis+
  then show ?thesis using broken_load [OF _ assms(5)] by blast
qed

theorem torn_manifest_unloadable_witness:
  "\<exists>files a files' a' io err. aof_run (\<lambda>_. []) [] files a [[]] \<and>
     begin_rewrite (\<lambda>_. []) io files a = (Some err, files', a') \<and>
     (\<forall>files'' a'' d'. aof_load (\<lambda>_. []) (sample_load files') (\<lambda>i argv d. Some d) files' (make_aof (ao_dir a) kAlways)
        \<lparr>d_store = make_store 0 kNoEviction, d_env = (), d_client = None\<rparr> \<noteq> Some (None, files'', a'', d'))"
proof -
  obtain files a where c: "aof_create (\<lambda>_. []) sample_create (make_store 0 kNoEviction) Map.empty (make_aof ''dir'' kAlways) = (None, files, a)"
    "ao_buf a = []" "off_t_fits files" using sample_created by metis
  from run_create [OF c(1) refl] have r: "aof_run (\<lambda>_. []) [] files a [[]]" by simp
  then have "aof_log files a [[]]" using aof_run_log by blast
  from begin_tears [OF this c(2)] obtain io err files' a' where
    b: "begin_rewrite (\<lambda>_. []) io files a = (Some err, files', a')" "fi_written (wi_flush io) \<le> length (ao_buf a)"
      "files' (aof_path a kManifestName) \<noteq> files (aof_path a kManifestName)" by blast
  from torn_manifest_unloadable [OF r c(3) disjI1 [OF conjI [OF b(1,2)]] b(3) sample_loads]
  show ?thesis using r b(1) by blast
qed

end
