(* ===== verification/Persistence.thy ===== *)
theory Persistence
  imports Aof
begin

text \<open>
  Snapshots and the append-only file tied to the running server (\<^verbatim>\<open>persistence.hpp\<close>,
  \<^verbatim>\<open>persistence.cpp\<close>): loading at start, recording changes, save points, the forked child and
  its reaping, and the commands SAVE, BGSAVE and BGREWRITEAOF. Times of the steady clock are in
  nanoseconds; the outcomes of the calls are arguments, as for the append-only file.
\<close>

section \<open>State\<close>

record persist_options =
  op_dir :: bytes
  op_dbfilename :: bytes
  op_save_points :: "(int \<times> u64) list"
  op_appendonly :: bool
  op_appendfsync :: fsync_policy
  op_auto_aof_rewrite_percentage :: u64
  op_auto_aof_rewrite_min_size :: u64

definition default_options :: persist_options where
  "default_options =
     \<lparr>op_dir = ''.'', op_dbfilename = ''dump.snap'', op_save_points = [(3600, 1), (300, 100), (60, 10000)],
      op_appendonly = False, op_appendfsync = kEverySec, op_auto_aof_rewrite_percentage = 100,
      op_auto_aof_rewrite_min_size = 64 * 1024 * 1024\<rparr>"

datatype child_kind = kNoChild | kSnapshot | kAofRewrite

record persistence =
  pe_options :: persist_options
  pe_aof :: "aof option"
  pe_loading :: bool
  pe_aof_was_healthy :: bool
  pe_dirty :: u64
  pe_dirty_at_fork :: u64
  pe_last_save_unix :: int
  pe_last_save :: int
  pe_last_bgsave_ok :: bool
  pe_last_bgsave_try :: int
  pe_last_rewrite_ok :: bool
  pe_last_rewrite_try :: int
  pe_rewrite_scheduled :: bool
  pe_child_pid :: "nat option"
  pe_child_kind :: child_kind
  pe_child_start :: int
  pe_child_start_unix :: int

text \<open>Five seconds.\<close>

definition kRetryDelay :: int where "kRetryDelay = 5 * 1000000000"

definition make_persistence :: "persist_options \<Rightarrow> persistence" where
  "make_persistence options =
     \<lparr>pe_options = options, pe_aof = None, pe_loading = False, pe_aof_was_healthy = True, pe_dirty = 0,
      pe_dirty_at_fork = 0, pe_last_save_unix = 0, pe_last_save = 0, pe_last_bgsave_ok = True,
      pe_last_bgsave_try = 0, pe_last_rewrite_ok = True, pe_last_rewrite_try = 0, pe_rewrite_scheduled = False,
      pe_child_pid = None, pe_child_kind = kNoChild, pe_child_start = 0, pe_child_start_unix = 0\<rparr>"

definition snapshot_path :: "persistence \<Rightarrow> bytes" where
  "snapshot_path p = join (op_dir (pe_options p)) (op_dbfilename (pe_options p))"

definition child_temp_path :: "persistence \<Rightarrow> child_kind \<Rightarrow> nat \<Rightarrow> bytes" where
  "child_temp_path p kind pid =
     (case (kind, pe_aof p) of
        (kAofRewrite, Some a) \<Rightarrow> temp_base_path a pid
      | _ \<Rightarrow> join (op_dir (pe_options p)) (''temp-'' @ to_string_nat pid @ ''.snap''))"

section \<open>Loading\<close>

definition load_snapshot :: "load_io \<Rightarrow> persistence \<Rightarrow> 'e disp \<Rightarrow> aof_error option \<times> 'e disp" where
  "load_snapshot io p d =
     (case snapshot_load (li_open io (snapshot_path p)) (li_now io) (li_clk io) (d_store d) of
        (LoadError, e, st) \<Rightarrow> (map_option AofBase e, d\<lparr>d_store := st\<lparr>st_notified := []\<rparr>\<rparr>)
      | (_, _, st) \<Rightarrow> (None, d\<lparr>d_store := st\<lparr>st_notified := []\<rparr>\<rparr>))"

text \<open>
  The replay callback runs on the dispatcher's state, in which the persistence object is seen to be
  loading. \<open>now\<close> and \<open>unix\<close> are the clocks at the end.
\<close>

definition persist_load ::
  "strerror \<Rightarrow> load_io \<Rightarrow> create_io \<Rightarrow> int \<Rightarrow> int \<Rightarrow> 'e disp replay_cb \<Rightarrow> files \<Rightarrow> persistence \<Rightarrow> 'e disp \<Rightarrow>
     (aof_error option \<times> files \<times> persistence \<times> 'e disp) option" where
  "persist_load se io cio now unix rp files p d =
     (let p = p\<lparr>pe_loading := True\<rparr>;
          finish = (\<lambda>p. p\<lparr>pe_loading := False, pe_last_save := now, pe_last_save_unix := unix\<rparr>)
      in if op_appendonly (pe_options p) then
           let a = make_aof (join (op_dir (pe_options p)) ''appendonlydir'') (op_appendfsync (pe_options p)) in
           if aof_exists files a then
             (case aof_load se io rp files a d of
                None \<Rightarrow> None
              | Some (err, files, a, d) \<Rightarrow> Some (err, files, finish (p\<lparr>pe_aof := Some a\<rparr>), d))
           else
             (case load_snapshot io p d of
                (Some err, d) \<Rightarrow> Some (Some err, files, finish (p\<lparr>pe_aof := Some a\<rparr>), d)
              | (None, d) \<Rightarrow>
                  (case aof_create se cio (d_store d) files a of
                     (err, files, a) \<Rightarrow>
                       Some (map_option AofText err, files, finish (p\<lparr>pe_aof := Some a\<rparr>), d)))
         else
           (case load_snapshot io p d of
              (err, d) \<Rightarrow> Some (err, files, finish p, d)))"

section \<open>Recording changes\<close>

definition pers_propagate :: "args \<Rightarrow> persistence \<Rightarrow> persistence" where
  "pers_propagate argv p =
     (if pe_loading p then p
      else p\<lparr>pe_dirty := pe_dirty p + 1, pe_aof := map_option (aof_feed argv) (pe_aof p)\<rparr>)"

definition count_change :: "persistence \<Rightarrow> persistence" where
  "count_change p = (if \<not> pe_loading p then p\<lparr>pe_dirty := pe_dirty p + 1\<rparr> else p)"

text \<open>\<^const>\<open>None\<close> is the exit of the process.\<close>

definition before_sleep :: "flush_io \<Rightarrow> files \<Rightarrow> persistence \<Rightarrow> (files \<times> persistence) option" where
  "before_sleep io files p =
     (case pe_aof p of
        None \<Rightarrow> Some (files, p)
      | Some a \<Rightarrow>
          (case aof_flush io files a of
             (ok, files, a) \<Rightarrow>
               if \<not> ok \<and> op_appendfsync (pe_options p) = kAlways then None
               else Some (files, p\<lparr>pe_aof := Some a, pe_aof_was_healthy := (ok \<and> healthy a)\<rparr>)))"

definition save_point_reached :: "int \<Rightarrow> persistence \<Rightarrow> bool" where
  "save_point_reached now p =
     (if \<not> pe_last_bgsave_ok p \<and> now - pe_last_bgsave_try p < kRetryDelay then False
      else
        let since_save = (now - pe_last_save p) div 1000000000 in
        list_ex (\<lambda>(seconds, changes). pe_dirty p \<ge> changes \<and> since_save \<ge> seconds) (op_save_points (pe_options p)))"

definition aof_needs_rewrite :: "int \<Rightarrow> persistence \<Rightarrow> bool" where
  "aof_needs_rewrite now p =
     (case pe_aof p of
        None \<Rightarrow> False
      | Some a \<Rightarrow>
          if op_auto_aof_rewrite_percentage (pe_options p) = 0 then False
          else if \<not> pe_last_rewrite_ok p \<and> now - pe_last_rewrite_try p < kRetryDelay then False
          else
            let sz = current_size a; base = max (ao_size_after_rewrite a) 1 in
            sz \<ge> op_auto_aof_rewrite_min_size (pe_options p) \<and> sz > base \<and>
            (sz - base) * 100 div base \<ge> op_auto_aof_rewrite_percentage (pe_options p))"

definition write_error :: "strerror \<Rightarrow> persistence \<Rightarrow> bytes" where
  "write_error se p =
     (if op_save_points (pe_options p) \<noteq> [] \<and> \<not> pe_last_bgsave_ok p then
        ''MISCONF Snapshotting is configured but the last background save failed; '' @
        ''writes are refused until a save succeeds. Check the server log.''
      else case pe_aof p of
        Some a \<Rightarrow> if \<not> healthy a then ''MISCONF Errors writing to the AOF file: '' @ last_error se a else []
      | None \<Rightarrow> [])"

section \<open>The child\<close>

text \<open>
  \<open>start_child\<close>: \<open>si_fork\<close> is the error number or the process id. The child itself
  (\<open>child_main\<close>) writes its copy of the store to the temporary path.
\<close>

record start_io =
  si_now :: int
  si_unix :: int
  si_rewrite :: rewrite_io
  si_fork :: "nat + nat"

definition start_child ::
  "strerror \<Rightarrow> start_io \<Rightarrow> child_kind \<Rightarrow> files \<Rightarrow> persistence \<Rightarrow> bytes option \<times> files \<times> persistence" where
  "start_child se io kind files p =
     (let (err, files, p) =
            (if kind = kSnapshot then (None, files, p\<lparr>pe_last_bgsave_try := si_now io\<rparr>)
             else
               let p = p\<lparr>pe_last_rewrite_try := si_now io\<rparr> in
               case pe_aof p of
                 None \<Rightarrow> (None, files, p)
               | Some a \<Rightarrow>
                   (case begin_rewrite se (si_rewrite io) files a of
                      (Some err, files, a) \<Rightarrow> (Some err, files, p\<lparr>pe_aof := Some a, pe_last_rewrite_ok := False\<rparr>)
                    | (None, files, a) \<Rightarrow> (None, files, p\<lparr>pe_aof := Some a\<rparr>)))
      in case err of
           Some err \<Rightarrow> (Some err, files, p)
         | None \<Rightarrow>
             (case si_fork io of
                Inl e \<Rightarrow>
                  (Some (''fork: '' @ se e), files,
                   if kind = kSnapshot then p\<lparr>pe_last_bgsave_ok := False\<rparr> else p\<lparr>pe_last_rewrite_ok := False\<rparr>)
              | Inr pid \<Rightarrow>
                  (None, files,
                   p\<lparr>pe_child_pid := Some pid, pe_child_kind := kind, pe_child_start := si_now io,
                     pe_child_start_unix := si_unix io, pe_dirty_at_fork := pe_dirty p\<rparr>)))"

definition child_main ::
  "bool \<Rightarrow> (nat \<Rightarrow> bytes \<Rightarrow> nat) \<Rightarrow> bool \<Rightarrow> bool \<Rightarrow> int \<Rightarrow> store \<Rightarrow> bytes \<Rightarrow> files \<Rightarrow> bool \<times> files" where
  "child_main open_ok wr fsync_ok close_ok now st temp files =
     (case write_file open_ok wr fsync_ok close_ok now st of
        (ok, content) \<Rightarrow> (ok, if open_ok then files(temp \<mapsto> content) else files))"

text \<open>
  The end of a child; the last component is what the snapshot listener is told. \<open>xi_rename\<close> and
  \<open>xi_dir\<close> are for the snapshot, the others for the append-only file.
\<close>

record finish_io =
  xi_rename :: bool
  xi_dir :: "bool \<times> bool"
  xi_base_rename :: nat
  xi_manifest :: manifest_io

definition finish_child ::
  "strerror \<Rightarrow> finish_io \<Rightarrow> bool \<Rightarrow> files \<Rightarrow> persistence \<Rightarrow> files \<times> persistence \<times> bool option" where
  "finish_child se io ok files p =
     (let temp = child_temp_path p (pe_child_kind p) (case pe_child_pid p of Some pid \<Rightarrow> pid | None \<Rightarrow> 0);
          snapshot_done = (pe_child_kind p = kSnapshot);
          (ok, files, p) =
            (if snapshot_done then
               (case (if ok then durable_rename (xi_rename io) (xi_dir io) (the (files temp)) (files (snapshot_path p))
                      else (False, files (snapshot_path p))) of
                  (True, target) \<Rightarrow>
                    (True, files(temp := None, snapshot_path p := target),
                     p\<lparr>pe_dirty := pe_dirty p - pe_dirty_at_fork p, pe_last_save := pe_child_start p,
                       pe_last_save_unix := pe_child_start_unix p, pe_last_bgsave_ok := True\<rparr>)
                | (False, target) \<Rightarrow>
                    (False, files(snapshot_path p := target, temp := None), p\<lparr>pe_last_bgsave_ok := False\<rparr>))
             else
               (case pe_aof p of
                  None \<Rightarrow> (ok, files, p)
                | Some a \<Rightarrow>
                    (case finish_rewrite se (xi_base_rename io) (xi_manifest io) ok temp files a of
                       (err, files, a) \<Rightarrow> (ok, files, p\<lparr>pe_aof := Some a, pe_last_rewrite_ok := (err = None)\<rparr>))))
      in (files, p\<lparr>pe_child_pid := None, pe_child_kind := kNoChild\<rparr>, if snapshot_done then Some ok else None))"

text \<open>\<open>waitpid\<close>: still running or interrupted, or ended with a result.\<close>

datatype wait_result = StillRunning | Ended bool

definition reap_child ::
  "strerror \<Rightarrow> wait_result \<Rightarrow> finish_io \<Rightarrow> files \<Rightarrow> persistence \<Rightarrow> files \<times> persistence \<times> bool option" where
  "reap_child se r io files p =
     (if pe_child_pid p = None then (files, p, None)
      else case r of StillRunning \<Rightarrow> (files, p, None) | Ended ok \<Rightarrow> finish_child se io ok files p)"

definition kill_child ::
  "strerror \<Rightarrow> finish_io \<Rightarrow> files \<Rightarrow> persistence \<Rightarrow> files \<times> persistence \<times> bool option" where
  "kill_child se io files p =
     (if pe_child_pid p = None then (files, p, None) else finish_child se io False files p)"

definition pers_cron ::
  "strerror \<Rightarrow> wait_result \<Rightarrow> finish_io \<Rightarrow> int \<Rightarrow> start_io \<Rightarrow> files \<Rightarrow> persistence \<Rightarrow>
     files \<times> persistence \<times> bool option" where
  "pers_cron se r fio now sio files p =
     (case reap_child se r fio files p of
        (files, p, told) \<Rightarrow>
          if pe_child_pid p \<noteq> None then (files, p, told)
          else if pe_rewrite_scheduled p \<or> aof_needs_rewrite now p then
            (case start_child se sio kAofRewrite files (p\<lparr>pe_rewrite_scheduled := False\<rparr>) of
               (_, files, p) \<Rightarrow> (files, p, told))
          else if save_point_reached now p then
            (case start_child se sio kSnapshot files p of (_, files, p) \<Rightarrow> (files, p, told))
          else (files, p, told))"

section \<open>Commands and shutdown\<close>

record save_io =
  vi_open :: bool
  vi_write :: "nat \<Rightarrow> bytes \<Rightarrow> nat"
  vi_fsync :: bool
  vi_close :: bool
  vi_rename :: bool
  vi_dir :: "bool \<times> bool"
  vi_now :: int
  vi_errno :: nat
  vi_steady :: int
  vi_unix :: int

definition pers_save ::
  "strerror \<Rightarrow> save_io \<Rightarrow> store \<Rightarrow> files \<Rightarrow> persistence \<Rightarrow> bytes option \<times> files \<times> persistence" where
  "pers_save se io st files p =
     (if pe_child_kind p = kSnapshot then (Some ''ERR Background save already in progress'', files, p)
      else
        (case save (vi_open io) (vi_write io) (vi_fsync io) (vi_close io) (vi_rename io) (vi_dir io) (vi_now io)
                st (files (snapshot_path p)) of
           (False, target) \<Rightarrow>
             (Some (''ERR error saving the snapshot: '' @ se (vi_errno io)), files(snapshot_path p := target), p)
         | (True, target) \<Rightarrow>
             (None, files(snapshot_path p := target),
              p\<lparr>pe_dirty := 0, pe_last_save := vi_steady io, pe_last_save_unix := vi_unix io,
                pe_last_bgsave_ok := True\<rparr>)))"

definition bgsave ::
  "strerror \<Rightarrow> start_io \<Rightarrow> files \<Rightarrow> persistence \<Rightarrow> bytes option \<times> files \<times> persistence" where
  "bgsave se io files p =
     (if pe_child_pid p \<noteq> None then
        (Some (if pe_child_kind p = kSnapshot then ''ERR Background save already in progress''
               else ''ERR Another child process is active (AOF rewrite): can'' @ [CHR 0x27] @ ''t BGSAVE right now''),
         files, p)
      else case start_child se io kSnapshot files p of
        (Some err, files, p) \<Rightarrow> (Some (''ERR '' @ err), files, p)
      | (None, files, p) \<Rightarrow> (None, files, p))"

definition bgrewriteaof ::
  "strerror \<Rightarrow> start_io \<Rightarrow> files \<Rightarrow> persistence \<Rightarrow> rewrite_start \<times> files \<times> persistence" where
  "bgrewriteaof se io files p =
     (if pe_aof p = None then
        (kError ''ERR AOF is disabled (start the server with --appendonly yes)'', files, p)
      else if pe_child_kind p = kAofRewrite then
        (kError ''ERR Background append only file rewriting already in progress'', files, p)
      else if pe_child_pid p \<noteq> None then (kScheduled, files, p\<lparr>pe_rewrite_scheduled := True\<rparr>)
      else case start_child se io kAofRewrite files p of
        (Some err, files, p) \<Rightarrow> (kError (''ERR '' @ err), files, p)
      | (None, files, p) \<Rightarrow> (kStarted, files, p))"

text \<open>
  Replacing the dataset by a received snapshot. \<open>ri_installed\<close> is the outcome of the rename and
  the directory's fsync; the listener is told about a child that was stopped.
\<close>

record replace_io =
  ri_finish :: finish_io
  ri_load :: load_io
  ri_rename :: bool
  ri_dir :: "bool \<times> bool"
  ri_steady :: int
  ri_unix :: int
  ri_worker :: nat
  ri_create :: create_io

definition replace_dataset ::
  "strerror \<Rightarrow> replace_io \<Rightarrow> bytes \<Rightarrow> store \<Rightarrow> files \<Rightarrow> persistence \<Rightarrow>
     aof_error option \<times> store \<times> files \<times> persistence \<times> bool option" where
  "replace_dataset se io snapshot_file st files p =
     (case kill_child se (ri_finish io) files p of
        (files, p, told) \<Rightarrow>
          (case snapshot_load (li_open (ri_load io) snapshot_file) (li_now (ri_load io)) (li_clk (ri_load io))
                  (store_clear st) of
             (LoadOk, _, st) \<Rightarrow>
               (let st = st\<lparr>st_notified := []\<rparr>;
                    (installed, target) =
                      durable_rename (ri_rename io) (ri_dir io) (the (files snapshot_file)) (files (snapshot_path p));
                    files = files(snapshot_path p := target, snapshot_file := None);
                    p = (if installed
                         then p\<lparr>pe_dirty := 0, pe_last_save := ri_steady io, pe_last_save_unix := ri_unix io,
                                pe_last_bgsave_ok := True\<rparr>
                         else p)
                in case pe_aof p of
                     None \<Rightarrow> (None, st, files, p, told)
                   | Some a \<Rightarrow>
                       (case aof_reset se (ri_worker io) (ri_create io) st files a of
                          (Some err, files, a) \<Rightarrow>
                            (Some (AofText (''restarting the AOF: '' @ err)), st, files, p\<lparr>pe_aof := Some a\<rparr>, told)
                        | (None, files, a) \<Rightarrow> (None, st, files, p\<lparr>pe_aof := Some a\<rparr>, told)))
           | (_, e, st) \<Rightarrow>
               (Some (case e of Some e \<Rightarrow> AofBase e | None \<Rightarrow> AofText []), st\<lparr>st_notified := []\<rparr>,
                files(snapshot_file := None), p, told)))"

text \<open>The result is whether everything was made durable.\<close>

record shutdown_io =
  hi_finish :: finish_io
  hi_flush :: flush_io
  hi_worker :: nat
  hi_fsync :: nat
  hi_save :: save_io

definition shutdown ::
  "strerror \<Rightarrow> shutdown_io \<Rightarrow> store \<Rightarrow> files \<Rightarrow> persistence \<Rightarrow> bool \<times> files \<times> persistence" where
  "shutdown se io st files p =
     (case kill_child se (hi_finish io) files p of
        (files, p, _) \<Rightarrow>
          (case (case pe_aof p of
                   None \<Rightarrow> (True, files, p)
                 | Some a \<Rightarrow>
                     (case flush_and_sync (hi_flush io) (hi_worker io) (hi_fsync io) files a of
                        (ok, files, a) \<Rightarrow> (ok, files, p\<lparr>pe_aof := Some a\<rparr>))) of
             (ok, files, p) \<Rightarrow>
               if op_save_points (pe_options p) \<noteq> [] then
                 (case pers_save se (hi_save io) st files p of
                    (err, files, p) \<Rightarrow> (ok \<and> err = None, files, p))
               else (ok, files, p)))"

end
