(* ===== verification/Kv_Server.thy ===== *)
theory Kv_Server
  imports Persistence
begin

text \<open>
  The server's \<^verbatim>\<open>main\<close> (\<^verbatim>\<open>kv_server.cpp\<close>): the command line, the limit on open files, and
  how the components are wired together: where the dispatcher's propagated commands and the store's
  deletions go.
\<close>

section \<open>Numbers on the command line\<close>

text \<open>White space, a sign, digits: whether it is negative, the digits and what follows.\<close>

definition scan_int :: "bytes \<Rightarrow> bool \<times> bytes \<times> bytes" where
  "scan_int s =
     (let t = dropWhile is_space s;
          u = (if t \<noteq> [] \<and> (hd t = CHR ''-'' \<or> hd t = CHR ''+'') then tl t else t)
      in (t \<noteq> [] \<and> hd t = CHR ''-'', takeWhile is_digit u, dropWhile is_digit u))"

definition signed_val :: "bool \<Rightarrow> bytes \<Rightarrow> int" where
  "signed_val neg ds = (if neg then - int (digits_val ds) else int (digits_val ds))"

text \<open>
  \<^verbatim>\<open>strtol\<close> and \<^verbatim>\<open>strtoll\<close> in base 10 (both have 64 bits): the value, clamped to the range,
  and the text that follows; all of it if there is no number.
\<close>

definition strtol :: "bytes \<Rightarrow> int \<times> bytes" where
  "strtol s =
     (case scan_int s of (neg, ds, rest) \<Rightarrow>
        if ds = [] then (0, s) else (max int64_min (min int64_max (signed_val neg ds)), rest))"

text \<open>
  Extracting a \<^verbatim>\<open>long long\<close> from a string stream: the value if it succeeds, whether the end of
  the string was reached, and the rest.
\<close>

definition extract_int64 :: "bytes \<Rightarrow> int option \<times> bool \<times> bytes" where
  "extract_int64 s =
     (case scan_int s of (neg, ds, rest) \<Rightarrow>
        (if ds = [] \<or> \<not> in_int64 (signed_val neg ds) then None else Some (signed_val neg ds), rest = [], rest))"

lemma scan_int_length: "scan_int s = (neg, ds, rest) \<Longrightarrow> length ds + length rest \<le> length s"
proof -
  assume x: "scan_int s = (neg, ds, rest)"
  define t where "t = dropWhile is_space s"
  define u where "u = (if t \<noteq> [] \<and> (hd t = CHR ''-'' \<or> hd t = CHR ''+'') then tl t else t)"
  have "ds = takeWhile is_digit u" "rest = dropWhile is_digit u"
    using x unfolding scan_int_def Let_def t_def [symmetric] u_def [symmetric] by simp_all
  then have "length ds + length rest = length u" by (metis length_append takeWhile_dropWhile_id)
  moreover have "length u \<le> length t" by (simp add: u_def)
  moreover have "length t \<le> length s" by (simp add: t_def length_dropWhile_le)
  ultimately show ?thesis by linarith
qed

lemma extract_int64_shorter:
  assumes "extract_int64 s = (Some v, e, rest)" shows "length rest < length s"
proof -
  obtain neg ds where x: "scan_int s = (neg, ds, rest)" "ds \<noteq> []"
    using assms by (auto simp: extract_int64_def split: prod.splits if_splits)
  then have "0 < length ds" by simp
  then show ?thesis using scan_int_length [OF x(1)] by linarith
qed

lemma extract_int64_shorter': "extract_int64 s = (x, e, rest) \<Longrightarrow> length rest \<le> length s"
  using scan_int_length [of s] by (force simp: extract_int64_def split: prod.splits if_splits)

section \<open>Values of options\<close>

function save_points_loop :: "bytes \<Rightarrow> (int \<times> u64) list \<Rightarrow> (int \<times> u64) list option" where
  "save_points_loop s points =
     (case extract_int64 s of
        (Some seconds, _, rest) \<Rightarrow>
          (case extract_int64 rest of
             (Some changes, _, rest) \<Rightarrow>
               if seconds \<le> 0 \<or> changes \<le> 0 then None
               else save_points_loop rest (points @ [(seconds, of_int changes)])
           | (None, _, _) \<Rightarrow> None)
      | (None, at_end, _) \<Rightarrow> if \<not> at_end then None else Some points)"
  by pat_completeness auto
termination
  by (relation "measure (\<lambda>(s, points). length s)")
    (auto dest!: extract_int64_shorter [OF sym] intro: less_trans)

declare save_points_loop.simps [simp del]

definition parse_save_points :: "bytes \<Rightarrow> (int \<times> u64) list option" where
  "parse_save_points s = save_points_loop s []"

definition tolower :: "char \<Rightarrow> char" where
  "tolower c = (if of_char c \<in> {65 .. 90 :: nat} then char_of (of_char c + 32 :: nat) else c)"

definition parse_memory :: "bytes \<Rightarrow> nat option" where
  "parse_memory s =
     (let digits = takeWhile is_digit s;
          suffix = map tolower (dropWhile is_digit s);
          multiplier = (if suffix = [] \<or> suffix = ''b'' then Some 1
                        else if suffix = ''kb'' then Some 1024
                        else if suffix = ''mb'' then Some (1024 * 1024)
                        else if suffix = ''gb'' then Some (1024 * 1024 * 1024)
                        else None)
      in if digits = [] then None
         else case multiplier of
           None \<Rightarrow> None
         | Some m \<Rightarrow>
             if digits_val digits > uint64_max then None
             else if digits_val digits * m > uint64_max then None
             else Some (digits_val digits * m))"

section \<open>The limit on open files\<close>

definition kReservedFds :: nat where "kReservedFds = 128"

text \<open>
  \<open>limits\<close> is what \<^verbatim>\<open>getrlimit\<close> returns: the soft and the hard limit, \<^const>\<open>None\<close> for
  \<^verbatim>\<open>RLIM_INFINITY\<close>; \<open>raised\<close> is whether \<^verbatim>\<open>setrlimit\<close> succeeded.
\<close>

definition adjust_open_files_limit :: "(nat option \<times> nat option) option \<Rightarrow> bool \<Rightarrow> nat \<Rightarrow> nat" where
  "adjust_open_files_limit limits raised maxclients =
     (case limits of
        None \<Rightarrow> maxclients
      | Some (None, _) \<Rightarrow> maxclients
      | Some (Some old, hard) \<Rightarrow>
          let wanted = maxclients + kReservedFds in
          if old \<ge> wanted then maxclients
          else
            let cur = (if \<not> raised then old else case hard of None \<Rightarrow> wanted | Some h \<Rightarrow> min wanted h) in
            if cur \<ge> wanted then maxclients
            else if cur \<le> kReservedFds then 0
            else cur - kReservedFds)"

section \<open>The command line\<close>

record config =
  cf_bind_addr :: bytes
  cf_port :: u16
  cf_maxmemory :: nat
  cf_policy :: eviction_policy
  cf_persist :: persist_options
  cf_backlog_size :: nat
  cf_repl_timeout :: int
  cf_replicaof :: "(bytes \<times> u16) option"
  cf_cluster_enabled :: bool
  cf_node_timeout :: int
  cf_require_full_coverage :: bool
  cf_replica_validity_factor :: int
  cf_replica_no_failover :: bool
  cf_cluster_config_file :: bytes
  cf_cluster_port :: "u16 option"
  cf_maxclients :: nat

definition default_config :: config where
  "default_config =
     \<lparr>cf_bind_addr = ''127.0.0.1'', cf_port = 6380, cf_maxmemory = 0, cf_policy = kNoEviction,
      cf_persist = default_options, cf_backlog_size = 1024 * 1024, cf_repl_timeout = 60, cf_replicaof = None,
      cf_cluster_enabled = False, cf_node_timeout = 15000, cf_require_full_coverage = True,
      cf_replica_validity_factor = 10, cf_replica_no_failover = False,
      cf_cluster_config_file = ''nodes.conf'', cf_cluster_port = None, cf_maxclients = 10000\<rparr>"

text \<open>A whole argument that is a number in a range.\<close>

definition number_in :: "int \<Rightarrow> int \<Rightarrow> bytes \<Rightarrow> int option" where
  "number_in lo hi s =
     (case strtol s of (value, rest) \<Rightarrow> if rest \<noteq> [] \<or> value < lo \<or> value > hi then None else Some value)"

definition invalid :: "bytes \<Rightarrow> bytes \<Rightarrow> bytes + config" where
  "invalid what v = Inl (''invalid '' @ what @ '': '' @ v)"

text \<open>
  An option with one value: \<^const>\<open>None\<close> if there is no such option, otherwise the message the
  program ends with or the new settings.
\<close>

definition apply_option :: "bytes \<Rightarrow> bytes \<Rightarrow> config \<Rightarrow> (bytes + config) option" where
  "apply_option arg v c =
     (if arg = ''--bind'' then Some (Inr (c\<lparr>cf_bind_addr := v\<rparr>))
      else if arg = ''--port'' then
        Some (case number_in 1 65535 v of
                None \<Rightarrow> invalid ''port'' v | Some n \<Rightarrow> Inr (c\<lparr>cf_port := of_int n\<rparr>))
      else if arg = ''--maxmemory'' then
        Some (case parse_memory v of None \<Rightarrow> invalid ''maxmemory'' v | Some n \<Rightarrow> Inr (c\<lparr>cf_maxmemory := n\<rparr>))
      else if arg = ''--maxmemory-policy'' then
        Some (if v = ''noeviction'' then Inr (c\<lparr>cf_policy := kNoEviction\<rparr>)
              else if v = ''allkeys-lru'' then Inr (c\<lparr>cf_policy := kAllKeysLru\<rparr>)
              else invalid ''maxmemory-policy'' v)
      else if arg = ''--dir'' then Some (Inr (c\<lparr>cf_persist := (cf_persist c)\<lparr>op_dir := v\<rparr>\<rparr>))
      else if arg = ''--dbfilename'' then
        Some (if CHR ''/'' \<in> set v then Inl (''dbfilename can'' @ [CHR 0x27] @ ''t contain '' @ quoted ''/'' @ ''; use --dir'')
              else Inr (c\<lparr>cf_persist := (cf_persist c)\<lparr>op_dbfilename := v\<rparr>\<rparr>))
      else if arg = ''--save'' then
        Some (case parse_save_points v of
                None \<Rightarrow> invalid ''save points'' v
              | Some points \<Rightarrow> Inr (c\<lparr>cf_persist := (cf_persist c)\<lparr>op_save_points := points\<rparr>\<rparr>))
      else if arg = ''--appendonly'' then
        Some (if v \<noteq> ''yes'' \<and> v \<noteq> ''no'' then invalid ''appendonly'' v
              else Inr (c\<lparr>cf_persist := (cf_persist c)\<lparr>op_appendonly := (v = ''yes'')\<rparr>\<rparr>))
      else if arg = ''--appendfsync'' then
        Some (if v = ''always'' then Inr (c\<lparr>cf_persist := (cf_persist c)\<lparr>op_appendfsync := kAlways\<rparr>\<rparr>)
              else if v = ''everysec'' then Inr (c\<lparr>cf_persist := (cf_persist c)\<lparr>op_appendfsync := kEverySec\<rparr>\<rparr>)
              else if v = ''no'' then Inr (c\<lparr>cf_persist := (cf_persist c)\<lparr>op_appendfsync := kNo\<rparr>\<rparr>)
              else invalid ''appendfsync'' v)
      else if arg = ''--auto-aof-rewrite-percentage'' then
        Some (case number_in 0 int64_max v of
                None \<Rightarrow> invalid ''auto-aof-rewrite-percentage'' v
              | Some n \<Rightarrow> Inr (c\<lparr>cf_persist := (cf_persist c)\<lparr>op_auto_aof_rewrite_percentage := of_int n\<rparr>\<rparr>))
      else if arg = ''--auto-aof-rewrite-min-size'' then
        Some (case parse_memory v of
                None \<Rightarrow> invalid ''auto-aof-rewrite-min-size'' v
              | Some n \<Rightarrow> Inr (c\<lparr>cf_persist := (cf_persist c)\<lparr>op_auto_aof_rewrite_min_size := of_nat n\<rparr>\<rparr>))
      else if arg = ''--repl-backlog-size'' then
        Some (case parse_memory v of
                None \<Rightarrow> invalid ''repl-backlog-size'' v
              | Some n \<Rightarrow> if n = 0 then invalid ''repl-backlog-size'' v else Inr (c\<lparr>cf_backlog_size := n\<rparr>))
      else if arg = ''--repl-timeout'' then
        Some (case number_in 1 int64_max v of
                None \<Rightarrow> invalid ''repl-timeout'' v | Some n \<Rightarrow> Inr (c\<lparr>cf_repl_timeout := n\<rparr>))
      else if arg = ''--cluster-enabled'' \<or> arg = ''--cluster-require-full-coverage'' \<or>
              arg = ''--cluster-replica-no-failover'' then
        Some (if v \<noteq> ''yes'' \<and> v \<noteq> ''no'' then invalid (drop 2 arg) v
              else let on = (v = ''yes'') in
                Inr (if arg = ''--cluster-enabled'' then c\<lparr>cf_cluster_enabled := on\<rparr>
                     else if arg = ''--cluster-require-full-coverage'' then c\<lparr>cf_require_full_coverage := on\<rparr>
                     else c\<lparr>cf_replica_no_failover := on\<rparr>))
      else if arg = ''--cluster-replica-validity-factor'' then
        Some (case number_in 0 1000000 v of
                None \<Rightarrow> invalid ''cluster-replica-validity-factor'' v
              | Some n \<Rightarrow> Inr (c\<lparr>cf_replica_validity_factor := n\<rparr>))
      else if arg = ''--cluster-config-file'' then
        Some (if CHR ''/'' \<in> set v
              then Inl (''cluster-config-file can'' @ [CHR 0x27] @ ''t contain '' @ quoted ''/'' @ ''; use --dir'')
              else Inr (c\<lparr>cf_cluster_config_file := v\<rparr>))
      else if arg = ''--cluster-port'' then
        Some (case number_in 1 65535 v of
                None \<Rightarrow> invalid ''cluster-port'' v | Some n \<Rightarrow> Inr (c\<lparr>cf_cluster_port := Some (of_int n)\<rparr>))
      else if arg = ''--cluster-node-timeout'' then
        Some (case number_in 1 int64_max v of
                None \<Rightarrow> invalid ''cluster-node-timeout'' v | Some n \<Rightarrow> Inr (c\<lparr>cf_node_timeout := n\<rparr>))
      else if arg = ''--maxclients'' then
        Some (case number_in 1 10000000 v of
                None \<Rightarrow> invalid ''maxclients'' v | Some n \<Rightarrow> Inr (c\<lparr>cf_maxclients := nat n\<rparr>))
      else None)"

text \<open>The loop over the arguments after the program's name.\<close>

fun parse_argv :: "bytes list \<Rightarrow> config \<Rightarrow> bytes + config" where
  "parse_argv [] c = Inr c"
| "parse_argv [arg] c = Inl ''usage''"
| "parse_argv (arg # v # rest) c =
     (case (arg, rest) of
        (_, port # rest') \<Rightarrow>
          if arg = ''--replicaof'' then
            (case number_in 1 65535 port of
               None \<Rightarrow> invalid ''replicaof port'' port
             | Some n \<Rightarrow> parse_argv rest' (c\<lparr>cf_replicaof := Some (v, of_int n)\<rparr>))
          else (case apply_option arg v c of
                  None \<Rightarrow> Inl ''usage'' | Some (Inl e) \<Rightarrow> Inl e | Some (Inr c) \<Rightarrow> parse_argv rest c)
      | _ \<Rightarrow> (case apply_option arg v c of
                None \<Rightarrow> Inl ''usage'' | Some (Inl e) \<Rightarrow> Inl e | Some (Inr c) \<Rightarrow> parse_argv rest c))"

text \<open>The checks that follow; the result also has the bus port.\<close>

definition check_config :: "(nat option \<times> nat option) option \<Rightarrow> bool \<Rightarrow> config \<Rightarrow> bytes + config \<times> u16" where
  "check_config limits raised c =
     (let maxclients = adjust_open_files_limit limits raised (cf_maxclients c) in
      if maxclients = 0 then Inl ''fatal: the open-file limit is too low to start''
      else if cf_cluster_enabled c \<and> cf_replicaof c \<noteq> None then
        Inl (''--replicaof isn'' @ [CHR 0x27] @ ''t allowed in cluster mode; use CLUSTER REPLICATE'')
      else if cf_cluster_enabled c \<and> cf_cluster_port c = None \<and> unat (cf_port c) > 65535 - 10000 then
        Inl (''port '' @ to_string_nat (unat (cf_port c)) @ '' + 10000 is out of range; pass --cluster-port'')
      else Inr (c\<lparr>cf_maxclients := maxclients\<rparr>,
                case cf_cluster_port c of Some p \<Rightarrow> p | None \<Rightarrow> cf_port c + 10000))"

text \<open>What the settings satisfy once they are accepted.\<close>

definition config_ok :: "config \<Rightarrow> bool" where
  "config_ok c \<longleftrightarrow>
     cf_port c \<noteq> 0 \<and> cf_cluster_port c \<noteq> Some 0 \<and> (\<forall>h p. cf_replicaof c = Some (h, p) \<longrightarrow> p \<noteq> 0) \<and>
     CHR ''/'' \<notin> set (op_dbfilename (cf_persist c)) \<and> CHR ''/'' \<notin> set (cf_cluster_config_file c) \<and>
     (\<forall>(s, n) \<in> set (op_save_points (cf_persist c)). 0 < s \<and> 0 < n) \<and>
     0 < cf_backlog_size c \<and> cf_backlog_size c \<le> uint64_max \<and> cf_maxmemory c \<le> uint64_max \<and>
     0 < cf_repl_timeout c \<and> 0 < cf_node_timeout c \<and>
     0 \<le> cf_replica_validity_factor c \<and> cf_replica_validity_factor c \<le> 1000000 \<and>
     1 \<le> cf_maxclients c \<and> cf_maxclients c \<le> 10000000"

lemma number_in_range: "number_in lo hi s = Some n \<Longrightarrow> lo \<le> n \<and> n \<le> hi"
  by (auto simp: number_in_def split: prod.splits if_splits)

lemma of_int_nonzero: "0 < n \<Longrightarrow> n < 2 ^ LENGTH('a) \<Longrightarrow> (of_int n :: 'a::len word) \<noteq> 0"
proof
  assume "0 < n" "n < 2 ^ LENGTH('a)" "(of_int n :: 'a word) = 0"
  moreover from this(1,2) have "uint (of_int n :: 'a word) = n"
    by (simp add: unsigned_of_int take_bit_int_eq_self)
  ultimately show False by simp
qed

lemma port_nonzero: "number_in 1 65535 s = Some n \<Longrightarrow> (of_int n :: u16) \<noteq> 0"
proof -
  assume "number_in 1 65535 s = Some n"
  then have "1 \<le> n" "n < 65536" using number_in_range by force+
  then show ?thesis by (intro of_int_nonzero) simp_all
qed

lemma parse_memory_bound: "parse_memory s = Some n \<Longrightarrow> n \<le> uint64_max"
  by (auto simp: parse_memory_def Let_def split: if_splits)

lemma save_points_loop_positive:
  "save_points_loop s points = Some ps \<Longrightarrow> \<forall>(s, n) \<in> set points. 0 < s \<and> 0 < n \<Longrightarrow>
     \<forall>(s, n) \<in> set ps. 0 < s \<and> 0 < n"
proof (induction s points rule: save_points_loop.induct)
  case (1 s points)
  obtain x e rest where x: "extract_int64 s = (x, e, rest)" by (metis prod.exhaust)
  show ?case
  proof (cases x)
    case None
    then show ?thesis using 1(2,3) x by (auto simp: save_points_loop.simps split: if_splits)
  next
    case (Some seconds)
    obtain y e' rest' where y: "extract_int64 rest = (y, e', rest')" by (metis prod.exhaust)
    from 1(2) x Some y obtain changes where c: "y = Some changes" "\<not> (seconds \<le> 0 \<or> changes \<le> 0)"
      "save_points_loop rest' (points @ [(seconds, of_int changes)]) = Some ps"
      by (auto simp: save_points_loop.simps [of s] split: option.splits if_splits)
    have "changes \<le> int64_max" using y c(1) by (auto simp: extract_int64_def in_int64_def split: prod.splits if_splits)
    then have "(of_int changes :: u64) \<noteq> 0" using c(2) by (intro of_int_nonzero) (simp_all add: int64_max_def)
    then have "(0 :: u64) < of_int changes" by (simp add: word_greater_zero_iff)
    then have "\<forall>(s, n) \<in> set (points @ [(seconds, of_int changes)]). 0 < s \<and> 0 < n" using c(2) 1(3) by auto
    from 1(1) [OF x [symmetric] Some refl y [symmetric] c(1) refl c(2,3) this] show ?thesis .
  qed
qed

definition ok_result :: "(bytes + config) option \<Rightarrow> bool" where
  "ok_result r \<longleftrightarrow> (\<forall>c. r = Some (Inr c) \<longrightarrow> config_ok c)"

lemma ok_result_if: "ok_result x \<Longrightarrow> ok_result y \<Longrightarrow> ok_result (if b then x else y)"
  by simp

lemma set_option_ok:
  assumes "config_ok c"
  shows "ok_result (apply_option arg v c)"
proof -
  have sp: "\<forall>(s, n) \<in> set ps. 0 < s \<and> 0 < n" if "parse_save_points v = Some ps" for ps
    using save_points_loop_positive [of v "[]" ps] that by (simp add: parse_save_points_def)
  note nums = number_in_range port_nonzero parse_memory_bound
  note c = assms [unfolded config_ok_def]
  show ?thesis
    unfolding apply_option_def invalid_def
    apply (intro ok_result_if)
    apply (use c in \<open>auto simp: ok_result_def config_ok_def Let_def dest: nums sp split: option.splits if_splits\<close>)
    done
qed

lemma parse_argv_ok: "parse_argv args c = Inr c' \<Longrightarrow> config_ok c \<Longrightarrow> config_ok c'"
proof (induction args c rule: parse_argv.induct)
  case (3 arg v rest c)
  have one: "config_ok c'"
    if "\<And>c2. apply_option arg v c = Some (Inr c2) \<Longrightarrow> parse_argv rest c2 = Inr c' \<Longrightarrow> config_ok c2 \<Longrightarrow> config_ok c'"
      "(case apply_option arg v c of None \<Rightarrow> Inl ''usage'' | Some (Inl e) \<Rightarrow> Inl e | Some (Inr c) \<Rightarrow> parse_argv rest c) = Inr c'"
    using that set_option_ok [OF \<open>config_ok c\<close>, of arg v] by (auto simp: ok_result_def split: option.splits sum.splits)
  show ?case
  proof (cases rest)
    case Nil
    show ?thesis
    proof (rule one)
      show "config_ok c'" if "apply_option arg v c = Some (Inr c2)" "parse_argv rest c2 = Inr c'" "config_ok c2" for c2
        using 3(1) [OF refl Nil that(1) refl that(2,3)] .
      show "(case apply_option arg v c of None \<Rightarrow> Inl ''usage'' | Some (Inl e) \<Rightarrow> Inl e | Some (Inr c) \<Rightarrow> parse_argv rest c) = Inr c'"
        using 3(4) unfolding Nil by (simp only: parse_argv.simps(3) prod.case list.case)
    qed
  next
    case (Cons port rest')
    show ?thesis
    proof (cases "arg = ''--replicaof''")
      case True
      then obtain n where n: "number_in 1 65535 port = Some n"
        "parse_argv rest' (c\<lparr>cf_replicaof := Some (v, of_int n)\<rparr>) = Inr c'"
        using 3(4) Cons by (auto simp: invalid_def split: option.splits)
      have "config_ok (c\<lparr>cf_replicaof := Some (v, of_int n)\<rparr>)"
        using 3(5) port_nonzero [OF n(1)] by (simp add: config_ok_def)
      from 3(2) [OF refl Cons True n this] show ?thesis .
    next
      case False
      show ?thesis
      proof (rule one)
        show "config_ok c'" if "apply_option arg v c = Some (Inr c2)" "parse_argv rest c2 = Inr c'" "config_ok c2" for c2
          using 3(3) [OF refl Cons False that(1) refl that(2,3)] .
        show "(case apply_option arg v c of None \<Rightarrow> Inl ''usage'' | Some (Inl e) \<Rightarrow> Inl e | Some (Inr c) \<Rightarrow> parse_argv rest c) = Inr c'"
          using 3(4) False unfolding Cons by (simp only: parse_argv.simps(3) prod.case list.case if_False)
      qed
    qed
  qed
qed simp_all

lemma default_config_ok: "config_ok default_config"
  by (simp add: config_ok_def default_config_def default_options_def uint64_max_def)

lemma adjust_open_files_limit_le: "adjust_open_files_limit limits raised n \<le> n"
  by (auto simp: adjust_open_files_limit_def kReservedFds_def Let_def split: option.splits)

text \<open>
  The soft limit the process has once it has tried to raise one that is below what it wants: what it
  asked for, if \<^verbatim>\<open>setrlimit\<close> succeeded, else what it had.
\<close>

definition limit_in_force :: "nat \<Rightarrow> nat option \<Rightarrow> bool \<Rightarrow> nat \<Rightarrow> nat" where
  "limit_in_force soft hard raised wanted =
     (if soft < wanted \<and> raised then (case hard of None \<Rightarrow> wanted | Some h \<Rightarrow> min wanted h) else soft)"

text \<open>
  C25: whatever the command line, settings the server starts with are well formed: ports are not
  zero, file names stay in the data directory, save points and timeouts are positive, sizes fit 64
  bits. The number of clients is positive and the one that was asked for, unless the soft limit on
  open files that is in force (the raised one only if \<^verbatim>\<open>setrlimit\<close> succeeded, else the old
  one) is too low for it and the 128 reserved descriptors: then the two together are exactly that
  limit. In cluster mode the default bus port is the port plus 10000, without wrapping around.
\<close>

theorem config_well_formed:
  assumes "parse_argv args default_config = Inr c" "check_config limits raised c = Inr (c', cport)"
  shows "config_ok c' \<and> cf_maxclients c' \<le> cf_maxclients c \<and>
    (cf_cluster_enabled c' \<longrightarrow> cf_replicaof c' = None \<and>
      (case cf_cluster_port c' of Some p \<Rightarrow> cport = p | None \<Rightarrow> unat cport = unat (cf_port c') + 10000)) \<and>
    (case limits of Some (Some soft, hard) \<Rightarrow>
       cf_maxclients c' + kReservedFds =
         min (cf_maxclients c + kReservedFds) (limit_in_force soft hard raised (cf_maxclients c + kReservedFds))
     | _ \<Rightarrow> cf_maxclients c' = cf_maxclients c)"
proof -
  have c: "config_ok c" by (rule parse_argv_ok [OF assms(1) default_config_ok])
  let ?n = "adjust_open_files_limit limits raised (cf_maxclients c)"
  have n: "?n \<noteq> 0" "c' = c\<lparr>cf_maxclients := ?n\<rparr>"
    "cport = (case cf_cluster_port c of Some p \<Rightarrow> p | None \<Rightarrow> cf_port c + 10000)"
    and cl: "cf_cluster_enabled c \<longrightarrow> cf_replicaof c = None \<and> (cf_cluster_port c \<noteq> None \<or> unat (cf_port c) \<le> 65535 - 10000)"
    using assms(2) by (auto simp: check_config_def Let_def simp del: not_None_eq split: if_splits)
  have "unat (cf_port c + 10000) = unat (cf_port c) + 10000" if "unat (cf_port c) \<le> 65535 - 10000"
    using that by (simp add: unat_word_ariths)
  then have "cf_cluster_enabled c' \<longrightarrow> cf_replicaof c' = None \<and>
      (case cf_cluster_port c' of Some p \<Rightarrow> cport = p | None \<Rightarrow> unat cport = unat (cf_port c') + 10000)"
    using n cl by (auto split: option.splits)
  moreover have "config_ok c'" using c n adjust_open_files_limit_le [of limits raised "cf_maxclients c"]
    by (simp add: config_ok_def)
  moreover have "case limits of Some (Some soft, hard) \<Rightarrow>
       ?n + kReservedFds =
         min (cf_maxclients c + kReservedFds) (limit_in_force soft hard raised (cf_maxclients c + kReservedFds))
     | _ \<Rightarrow> ?n = cf_maxclients c"
    using n(1) by (auto simp: adjust_open_files_limit_def limit_in_force_def Let_def split: option.splits if_splits)
  moreover have "cf_maxclients c' = ?n" using n(2) by simp
  ultimately show ?thesis using adjust_open_files_limit_le [of limits raised "cf_maxclients c"] by (simp only: simp_thms)
qed

theorem config_well_formed_witness:
  "\<exists>c c' cport. parse_argv [''--cluster-enabled'', ''yes'', ''--port'', ''7000'', ''--save'', ''60 5''] default_config = Inr c \<and>
     check_config (Some (Some 1024, Some 4096)) True c = Inr (c', cport) \<and>
     cf_maxclients c' = 3968 \<and> unat cport = 17000 \<and> config_ok c' \<and>
     check_config (Some (Some 1024, None)) False c = Inr (c'\<lparr>cf_maxclients := 896\<rparr>, cport) \<and>
     896 + kReservedFds = min (cf_maxclients c + kReservedFds)
       (limit_in_force 1024 None False (cf_maxclients c + kReservedFds))"
proof -
  let ?c = "default_config\<lparr>cf_cluster_enabled := True, cf_port := 7000,
      cf_persist := default_options\<lparr>op_save_points := [(60, 5)]\<rparr>\<rparr>"
  let ?c' = "?c\<lparr>cf_maxclients := 3968\<rparr>"
  note num = scan_int_def Let_def is_space_def is_digit_def digits_val_def digit_val_def signed_val_def
    in_int64_def int64_max_def int64_min_def
  have port: "number_in 1 65535 ''7000'' = Some 7000" by (simp add: number_in_def strtol_def num)
  have "extract_int64 ''60 5'' = (Some 60, False, '' 5'')" "extract_int64 '' 5'' = (Some 5, True, [])"
    "extract_int64 [] = (None, True, [])"
    by (simp_all add: extract_int64_def num)
  note e = this
  have "save_points_loop [] [(60, 5)] = Some [(60, 5)]" by (subst save_points_loop.simps) (simp add: e)
  then have points: "parse_save_points ''60 5'' = Some [(60, 5)]"
    unfolding parse_save_points_def by (subst save_points_loop.simps) (simp add: e)
  have d: "cf_persist default_config = default_options" "cf_maxclients default_config = 10000"
    "cf_replicaof default_config = None" "cf_cluster_port default_config = None"
    by (simp_all add: default_config_def)
  have opts: "apply_option ''--cluster-enabled'' ''yes'' c = Some (Inr (c\<lparr>cf_cluster_enabled := True\<rparr>))"
    "apply_option ''--port'' ''7000'' c = Some (Inr (c\<lparr>cf_port := 7000\<rparr>))"
    "apply_option ''--save'' ''60 5'' c = Some (Inr (c\<lparr>cf_persist := (cf_persist c)\<lparr>op_save_points := [(60, 5)]\<rparr>\<rparr>))" for c
    by (simp_all add: apply_option_def port points)
  have 1: "parse_argv [''--cluster-enabled'', ''yes'', ''--port'', ''7000'', ''--save'', ''60 5''] default_config = Inr ?c"
    by (simp add: opts d)
  have 2: "check_config (Some (Some 1024, Some 4096)) True ?c = Inr (?c', 17000)"
    by (simp add: check_config_def adjust_open_files_limit_def kReservedFds_def d)
  have 3: "check_config (Some (Some 1024, None)) False ?c = Inr (?c'\<lparr>cf_maxclients := 896\<rparr>, 17000)"
    by (simp add: check_config_def adjust_open_files_limit_def kReservedFds_def d)
  have 4: "config_ok ?c'" using config_well_formed [OF 1 2] by (rule conjunct1)
  have 5: "896 + kReservedFds = min (cf_maxclients ?c + kReservedFds)
       (limit_in_force 1024 None False (cf_maxclients ?c + kReservedFds))"
    using config_well_formed [OF 1 3] by simp
  have 6: "cf_maxclients ?c' = 3968" "unat (17000 :: u16) = 17000" by simp_all
  show ?thesis by (intro exI [of _ ?c] exI [of _ ?c'] exI [of _ 17000] conjI) (fact 1 2 3 4 5 6)+
qed

text \<open>A number that does not fit ends the list of save points as if the string ended there.\<close>

lemma save_points_overflow:
  "parse_save_points ''99999999999999999999'' = Some []" "parse_save_points ''900 1 -'' = Some [(900, 1)]"
proof -
  note num = scan_int_def Let_def is_space_def is_digit_def digits_val_def digit_val_def signed_val_def
    in_int64_def int64_max_def int64_min_def
  have e: "extract_int64 ''99999999999999999999'' = (None, True, [])" "extract_int64 ''900 1 -'' = (Some 900, False, '' 1 -'')"
    "extract_int64 '' 1 -'' = (Some 1, False, '' -'')" "extract_int64 '' -'' = (None, True, [])"
    by (simp_all add: extract_int64_def num)
  show "parse_save_points ''99999999999999999999'' = Some []"
    unfolding parse_save_points_def by (subst save_points_loop.simps) (simp add: e)
  have "save_points_loop '' -'' [(900, 1)] = Some [(900, 1)]" by (subst save_points_loop.simps) (simp add: e)
  then show "parse_save_points ''900 1 -'' = Some [(900, 1)]"
    unfolding parse_save_points_def by (subst save_points_loop.simps) (simp add: e)
qed

section \<open>Wiring\<close>

text \<open>
  The state the dispatcher's services work on: the files, the persistence object and the
  replication's state \<open>'r\<close>. \<open>en_log\<close> is not a variable of the program: it records what was
  propagated.
\<close>

record 'r env =
  en_files :: files
  en_pers :: persistence
  en_repl :: 'r
  en_log :: "args list"

text \<open>\<open>rp\<close> and \<open>wants\<close> are \<^verbatim>\<open>propagate\<close> and \<^verbatim>\<open>wants_commands\<close> of the replication.\<close>

definition wire_propagate :: "(args \<Rightarrow> 'r \<Rightarrow> 'r) \<Rightarrow> args \<Rightarrow> 'r env \<Rightarrow> 'r env" where
  "wire_propagate rp argv e =
     (if pe_loading (en_pers e) then e
      else e\<lparr>en_pers := pers_propagate argv (en_pers e), en_repl := rp argv (en_repl e), en_log := en_log e @ [argv]\<rparr>)"

definition wire_log_wanted :: "('r \<Rightarrow> bool) \<Rightarrow> 'r env \<Rightarrow> bool" where
  "wire_log_wanted wants e \<longleftrightarrow> pe_aof (en_pers e) \<noteq> None \<or> wants (en_repl e)"

definition pers_ops :: "strerror \<Rightarrow> save_io \<Rightarrow> start_io \<Rightarrow> 'r env persistence_ops" where
  "pers_ops se vio sio =
     \<lparr>po_loading = (\<lambda>e. pe_loading (en_pers e)),
      po_write_error = (\<lambda>e. write_error se (en_pers e)),
      po_count_change = (\<lambda>e. e\<lparr>en_pers := count_change (en_pers e)\<rparr>),
      po_save = (\<lambda>st e. case pers_save se vio st (en_files e) (en_pers e) of
                          (err, fs, p) \<Rightarrow> (err, e\<lparr>en_files := fs, en_pers := p\<rparr>)),
      po_bgsave = (\<lambda>st e. case bgsave se sio (en_files e) (en_pers e) of
                            (err, fs, p) \<Rightarrow> (err, e\<lparr>en_files := fs, en_pers := p\<rparr>)),
      po_bgrewriteaof = (\<lambda>st e. case bgrewriteaof se sio (en_files e) (en_pers e) of
                                  (r, fs, p) \<Rightarrow> (r, e\<lparr>en_files := fs, en_pers := p\<rparr>)),
      po_lastsave = (\<lambda>e. pe_last_save_unix (en_pers e))\<rparr>"

definition wire ::
  "strerror \<Rightarrow> save_io \<Rightarrow> start_io \<Rightarrow> (args \<Rightarrow> 'r \<Rightarrow> 'r) \<Rightarrow> ('r \<Rightarrow> bool) \<Rightarrow> 'r env replication_ops option \<Rightarrow>
     'r env cluster_ops option \<Rightarrow> migrate_io \<Rightarrow> 'r env services" where
  "wire se vio sio rp wants ro co mio =
     \<lparr>sv_propagator = Some (wire_propagate rp), sv_log_wanted = Some (wire_log_wanted wants),
      sv_persistence = Some (pers_ops se vio sio), sv_replication = ro, sv_cluster = co,
      sv_on_deleted = (\<lambda>k. wire_propagate rp [''DEL'', k]), sv_migrate_io = mio\<rparr>"

text \<open>The replay callback of \<^verbatim>\<open>persistence.load\<close>: the command is executed for no client and its reply ignored.\<close>

definition replay_command :: "'e services \<Rightarrow> (nat \<Rightarrow> nat \<Rightarrow> int) \<Rightarrow> 'e disp replay_cb" where
  "replay_command sv clk i argv d = map_option snd (dispatch sv (clk i) argv [] (d\<lparr>d_client := None\<rparr>))"

end
