(* ===== verification/Client_Host.thy ===== *)
theory Client_Host
  imports Client "HOL-Library.AList"
begin

text \<open>
  The event loop's bookkeeping of its connections (the members of \<^verbatim>\<open>Server\<close> in \<^verbatim>\<open>server.hpp\<close>
  and the operations of \<^verbatim>\<open>ClientHost\<close> that do not run commands). A client is named by its
  file descriptor: \<^verbatim>\<open>conns_\<close> is an association list from descriptors to clients, and a pointer to
  a client is its descriptor. A callback that a descriptor is watched with belongs to its owner, so
  only the watched descriptors are kept.
\<close>

section \<open>State\<close>

record host =
  ho_maxclients :: nat
  ho_next_client_id :: u64
  ho_conns :: "(nat \<times> client) list"
  ho_watchers :: "nat list"
  ho_pending_writes :: "nat list"
  ho_pending_close :: "nat list"
  ho_writes_paused :: bool
  ho_resume_held :: bool
  ho_held_clients :: "nat list"

definition make_host :: "nat \<Rightarrow> host" where
  "make_host maxclients =
     \<lparr>ho_maxclients = maxclients, ho_next_client_id = 1, ho_conns = [], ho_watchers = [],
      ho_pending_writes = [], ho_pending_close = [], ho_writes_paused = False, ho_resume_held = False,
      ho_held_clients = []\<rparr>"

definition conn :: "host \<Rightarrow> nat \<Rightarrow> client option" where
  "conn h fd = map_of (ho_conns h) fd"

definition put_conn :: "nat \<Rightarrow> client \<Rightarrow> host \<Rightarrow> host" where
  "put_conn fd c h = h\<lparr>ho_conns := AList.update fd c (ho_conns h)\<rparr>"

text \<open>Changing a client through a pointer to it.\<close>

definition change :: "nat \<Rightarrow> (client \<Rightarrow> client) \<Rightarrow> host \<Rightarrow> host" where
  "change fd f h = (case conn h fd of None \<Rightarrow> h | Some c \<Rightarrow> put_conn fd (f c) h)"

section \<open>Operations\<close>

definition queue_write :: "nat \<Rightarrow> host \<Rightarrow> host" where
  "queue_write fd h =
     (case conn h fd of
        None \<Rightarrow> h
      | Some c \<Rightarrow>
          if c_pending_write c then h
          else (put_conn fd (c\<lparr>c_pending_write := True\<rparr>) h)\<lparr>ho_pending_writes := ho_pending_writes h @ [fd]\<rparr>)"

definition mark_closing :: "nat \<Rightarrow> host \<Rightarrow> host" where
  "mark_closing fd h =
     (case conn h fd of
        None \<Rightarrow> h
      | Some c \<Rightarrow>
          if c_closing c then h
          else (put_conn fd (c\<lparr>c_closing := True\<rparr>) h)\<lparr>ho_pending_close := ho_pending_close h @ [fd]\<rparr>)"

definition add_client :: "nat \<Rightarrow> host \<Rightarrow> host" where
  "add_client fd h =
     (put_conn fd (make_client (ho_next_client_id h)) h)\<lparr>ho_next_client_id := ho_next_client_id h + 1\<rparr>"

text \<open>\<open>added\<close>, \<open>changed\<close>: whether \<^verbatim>\<open>epoll_ctl\<close> succeeded.\<close>

definition adopt_master :: "bool \<Rightarrow> nat \<Rightarrow> bytes \<Rightarrow> host \<Rightarrow> host" where
  "adopt_master added fd pending h =
     (let h = change fd (\<lambda>c. c\<lparr>c_is_master := True, c_parser := c_parser c @ pending\<rparr>) (add_client fd h)
      in if added then h else mark_closing fd h)"

definition watch :: "bool \<Rightarrow> nat \<Rightarrow> host \<Rightarrow> bool \<times> host" where
  "watch changed fd h = (if changed then (True, h\<lparr>ho_watchers := List.insert fd (ho_watchers h)\<rparr>) else (False, h))"

definition unwatch :: "nat \<Rightarrow> host \<Rightarrow> host" where
  "unwatch fd h = h\<lparr>ho_watchers := removeAll fd (ho_watchers h)\<rparr>"

definition set_writes_paused :: "bool \<Rightarrow> host \<Rightarrow> host" where
  "set_writes_paused paused h =
     (if paused = ho_writes_paused h then h
      else h\<lparr>ho_writes_paused := paused, ho_resume_held := \<not> paused\<rparr>)"

definition set_write_interest :: "bool \<Rightarrow> nat \<Rightarrow> bool \<Rightarrow> host \<Rightarrow> host" where
  "set_write_interest changed fd enabled h =
     (case conn h fd of
        None \<Rightarrow> h
      | Some c \<Rightarrow>
          if c_write_interest c = enabled then h
          else if \<not> changed then mark_closing fd h
          else put_conn fd (c\<lparr>c_write_interest := enabled\<rparr>) h)"

section \<open>Lookups\<close>

lemma conn_put_conn [simp]: "conn (put_conn fd c h) fd' = (if fd' = fd then Some c else conn h fd')"
  by (simp add: conn_def put_conn_def update_conv')

lemma conn_cong [simp]:
  "conn (h\<lparr>ho_pending_writes := x\<rparr>) = conn h" "conn (h\<lparr>ho_pending_close := x\<rparr>) = conn h"
  "conn (h\<lparr>ho_next_client_id := i\<rparr>) = conn h" "conn (h\<lparr>ho_watchers := x\<rparr>) = conn h"
  "conn (h\<lparr>ho_writes_paused := p\<rparr>) = conn h" "conn (h\<lparr>ho_resume_held := p\<rparr>) = conn h"
  "conn (h\<lparr>ho_held_clients := x\<rparr>) = conn h"
  by (simp_all add: conn_def fun_eq_iff)

lemma conn_change [simp]:
  "conn (change fd f h) fd' = (if fd' = fd then map_option f (conn h fd) else conn h fd')"
  by (auto simp: change_def split: option.splits)

lemma conn_queue_write [simp]:
  "conn (queue_write fd h) fd' = (if fd' = fd then map_option (c_pending_write_update (\<lambda>_. True)) (conn h fd) else conn h fd')"
  by (auto simp: queue_write_def split: option.splits)

lemma conn_mark_closing [simp]:
  "conn (mark_closing fd h) fd' = (if fd' = fd then map_option (c_closing_update (\<lambda>_. True)) (conn h fd) else conn h fd')"
  by (auto simp: mark_closing_def split: option.splits)

lemma conn_add_client [simp]:
  "conn (add_client fd h) fd' = (if fd' = fd then Some (make_client (ho_next_client_id h)) else conn h fd')"
  by (simp add: add_client_def)

lemma conn_unwatch [simp]: "conn (unwatch fd h) = conn h" "conn (snd (watch changed fd h)) = conn h"
  by (simp_all add: unwatch_def watch_def)

end
