(* ===== verification/Replication.thy ===== *)
theory Replication
  imports Kv_Server Client_Host Repl_Backlog
begin

text \<open>
  Master-replica replication (\<^verbatim>\<open>replication.hpp\<close>, \<^verbatim>\<open>replication.cpp\<close>). Pointers to clients
  are their descriptors. Readings of the steady clock (milliseconds) and the outcomes of system
  calls are arguments. \<open>process_buffered\<close> runs commands and so needs the whole server: the
  operations that call it are completed where the server is put together; here they return what it
  is to be called for.
\<close>

section \<open>State\<close>

datatype link_state = kLinkNone | kConnect | kConnecting | kHandshake | kTransfer | kConnected

record waiter =
  wt_client :: nat
  wt_offset :: u64
  wt_numreplicas :: int
  wt_deadline :: "int option"

record repl_options =
  ro_listening_port :: u16
  ro_backlog_size :: nat
  ro_timeout :: int
  ro_ping_period :: int

record replication =
  rp_options :: repl_options
  rp_replid :: bytes
  rp_replid2 :: bytes
  rp_second_replid_offset :: "u64 option"
  rp_backlog :: repl_backlog
  rp_stream_started :: bool
  rp_replid_shared :: bool
  rp_replicas :: "nat list"
  rp_waiters :: "waiter list"
  rp_to_resume :: "nat list"
  rp_get_ack_pending :: bool
  rp_stream_paused :: bool
  rp_last_ping :: int
  rp_last_second_tick :: int
  rp_sync_full :: u64
  rp_sync_partial_ok :: u64
  rp_sync_partial_err :: u64
  rp_master_host :: bytes
  rp_master_port :: u16
  rp_link_state :: link_state
  rp_next_connect :: int
  rp_link_fd :: "nat option"
  rp_link_buf :: bytes
  rp_link_last_io :: int
  rp_link_down_since :: int
  rp_handshake_replies :: nat
  rp_transfer_replid :: bytes
  rp_transfer_offset :: u64
  rp_transfer_open :: bool
  rp_transfer_path :: bytes
  rp_transfer_remaining :: "u64 option"
  rp_master :: "nat option"

text \<open>The replication and the connections it works on; \<open>renv\<close> adds the files and the persistence.\<close>

record rstate =
  rs_repl :: replication
  rs_host :: host

type_synonym renv = "rstate env"

abbreviation repl_upd :: "(replication \<Rightarrow> replication) \<Rightarrow> rstate \<Rightarrow> rstate" where
  "repl_upd \<equiv> rs_repl_update"

abbreviation host_upd :: "(host \<Rightarrow> host) \<Rightarrow> rstate \<Rightarrow> rstate" where
  "host_upd \<equiv> rs_host_update"

definition kReplIdLength :: nat where "kReplIdLength = 40"
definition kReconnectDelay :: int where "kReconnectDelay = 1000"
definition kCronSecond :: int where "kCronSecond = 1000"
definition kMaxHandshakeLine :: nat where "kMaxHandshakeLine = 64 * 1024"
definition kMaxReplicaBufferBytes :: nat where "kMaxReplicaBufferBytes = 256 * 1024 * 1024"

text \<open>\<open>draws\<close> are the outputs of the random generator.\<close>

definition random_replid :: "(nat \<Rightarrow> u64) \<Rightarrow> bytes" where
  "random_replid draws = map (\<lambda>i. ''0123456789abcdef'' ! (unat (draws i) mod 16)) [0..<kReplIdLength]"

definition state_name :: "repl_state \<Rightarrow> bytes" where
  "state_name s =
     (case s of
        kWaitBgsaveStart \<Rightarrow> ''wait_bgsave''
      | kWaitBgsaveEnd \<Rightarrow> ''wait_bgsave''
      | kSendBulk \<Rightarrow> ''send_bulk''
      | kOnline \<Rightarrow> ''online''
      | kNone \<Rightarrow> ''none'')"

definition make_replication :: "(nat \<Rightarrow> u64) \<Rightarrow> repl_options \<Rightarrow> replication" where
  "make_replication draws options =
     \<lparr>rp_options = options, rp_replid = random_replid draws, rp_replid2 = replicate kReplIdLength (CHR ''0''),
      rp_second_replid_offset = None, rp_backlog = make_backlog (ro_backlog_size options),
      rp_stream_started = False, rp_replid_shared = False, rp_replicas = [], rp_waiters = [],
      rp_to_resume = [], rp_get_ack_pending = False, rp_stream_paused = False, rp_last_ping = 0,
      rp_last_second_tick = 0, rp_sync_full = 0, rp_sync_partial_ok = 0, rp_sync_partial_err = 0,
      rp_master_host = [], rp_master_port = 0, rp_link_state = kLinkNone, rp_next_connect = 0,
      rp_link_fd = None, rp_link_buf = [], rp_link_last_io = 0, rp_link_down_since = 0,
      rp_handshake_replies = 0, rp_transfer_replid = [], rp_transfer_offset = 0, rp_transfer_open = False,
      rp_transfer_path = [], rp_transfer_remaining = None, rp_master = None\<rparr>"

definition is_replica :: "replication \<Rightarrow> bool" where
  "is_replica r \<longleftrightarrow> rp_master_host r \<noteq> []"

definition repl_offset :: "replication \<Rightarrow> u64" where
  "repl_offset r = bl_offset (rp_backlog r)"

definition wants_commands :: "replication \<Rightarrow> bool" where
  "wants_commands r \<longleftrightarrow> rp_stream_started r \<and> \<not> is_replica r"

definition set_stream_paused :: "bool \<Rightarrow> replication \<Rightarrow> replication" where
  "set_stream_paused paused r = r\<lparr>rp_stream_paused := paused\<rparr>"

section \<open>The stream\<close>

text \<open>
  What \<open>feed\<close> does to one replica. The buffer's loop ends whenever its write position is inside it,
  which is the case of every backlog that is made and used here (\<open>stream_ok\<close> below).
\<close>

definition feed_replica :: "bytes \<Rightarrow> nat \<Rightarrow> host \<Rightarrow> host" where
  "feed_replica data fd h =
     (case conn h fd of
        None \<Rightarrow> h
      | Some c \<Rightarrow>
          if c_closing c then h
          else
            let (sent, h) =
                  (case c_repl_state c of
                     kOnline \<Rightarrow> (True, queue_write fd (change fd (\<lambda>c. c\<lparr>c_out := c_out c @ data\<rparr>) h))
                   | kWaitBgsaveEnd \<Rightarrow> (True, change fd (\<lambda>c. c\<lparr>c_repl_held := c_repl_held c @ data\<rparr>) h)
                   | kSendBulk \<Rightarrow> (True, change fd (\<lambda>c. c\<lparr>c_repl_held := c_repl_held c @ data\<rparr>) h)
                   | kWaitBgsaveStart \<Rightarrow> (False, h)
                   | kNone \<Rightarrow> (False, h))
            in if sent \<and> length (c_out c) + length (c_repl_held c) + length data > kMaxReplicaBufferBytes
               then mark_closing fd h else h)"

definition repl_feed :: "bytes \<Rightarrow> rstate \<Rightarrow> rstate" where
  "repl_feed data s =
     (let s = repl_upd (\<lambda>r. r\<lparr>rp_backlog := the (bl_append data (rp_backlog r))\<rparr>) s
      in host_upd (fold (feed_replica data) (rp_replicas (rs_repl s))) s)"

definition repl_propagate :: "args \<Rightarrow> rstate \<Rightarrow> rstate" where
  "repl_propagate argv s =
     (if \<not> wants_commands (rs_repl s) then s else repl_feed (reply_command [] argv) s)"

definition master_command_applied :: "bytes \<Rightarrow> rstate \<Rightarrow> rstate" where
  "master_command_applied raw s = repl_feed raw s"

definition disconnect_replicas :: "rstate \<Rightarrow> rstate" where
  "disconnect_replicas s = host_upd (fold mark_closing (rp_replicas (rs_repl s))) s"

section \<open>Synchronising a replica\<close>

text \<open>
  Here \<open>c\<close> is the client \<open>fd\<close> and \<open>out\<close> its output buffer: the guard of \<open>psync\<close> lets only clients
  through that get their replies there.
\<close>

definition try_partial_resync :: "nat \<Rightarrow> bytes \<Rightarrow> int \<Rightarrow> rstate \<Rightarrow> bool \<times> rstate" where
  "try_partial_resync fd replid ofs s =
     (let r = rs_repl s in
      if ofs < 0 then (False, s)
      else
        let from = (of_int ofs :: u64);
            same_history =
              (replid = rp_replid r \<or>
               (replid = rp_replid2 r \<and>
                (case rp_second_replid_offset r of Some limit \<Rightarrow> from \<le> limit | None \<Rightarrow> False)))
        in if \<not> same_history \<or> \<not> bl_contains from (rp_backlog r) then (False, s)
           else
             (True,
              repl_upd (\<lambda>r. r\<lparr>rp_replicas := rp_replicas r @ [fd], rp_replid_shared := True\<rparr>)
                (host_upd
                   (change fd (\<lambda>c. c\<lparr>c_out := the (bl_copy_from from (rp_backlog r)
                                                  (reply_simple_string (c_out c) (''CONTINUE '' @ rp_replid r))),
                                    c_repl_state := kOnline, c_repl_ack_offset := from\<rparr>)) s)))"

definition waits_for_start :: "host \<Rightarrow> nat \<Rightarrow> bool" where
  "waits_for_start h fd \<longleftrightarrow> (case conn h fd of Some c \<Rightarrow> c_repl_state c = kWaitBgsaveStart | None \<Rightarrow> False)"

definition announce_full_resync :: "bytes \<Rightarrow> nat \<Rightarrow> host \<Rightarrow> host" where
  "announce_full_resync line fd h =
     (if waits_for_start h fd then
        queue_write fd (change fd (\<lambda>c. c\<lparr>c_repl_state := kWaitBgsaveEnd,
                                         c_out := reply_simple_string (c_out c) line\<rparr>) h)
      else h)"

definition start_snapshot_for_replicas :: "strerror \<Rightarrow> start_io \<Rightarrow> renv \<Rightarrow> renv" where
  "start_snapshot_for_replicas se sio e =
     (let r = rs_repl (en_repl e); waiting = list_ex (waits_for_start (rs_host (en_repl e))) (rp_replicas r) in
      if \<not> waiting \<or> pe_child_pid (en_pers e) \<noteq> None then e
      else case bgsave se sio (en_files e) (en_pers e) of
        (Some _, files, p) \<Rightarrow>
          e\<lparr>en_files := files, en_pers := p,
            en_repl := host_upd (fold (\<lambda>fd h. if waits_for_start h fd then mark_closing fd h else h) (rp_replicas r))
                         (en_repl e)\<rparr>
      | (None, files, p) \<Rightarrow>
          e\<lparr>en_files := files, en_pers := p,
            en_repl :=
              repl_upd (\<lambda>r. r\<lparr>rp_replid_shared := True\<rparr>)
                (host_upd
                   (fold (announce_full_resync
                            (''FULLRESYNC '' @ rp_replid r @ '' '' @ to_string_u64 (repl_offset r)))
                         (rp_replicas r)) (en_repl e))\<rparr>)"

definition psync :: "strerror \<Rightarrow> start_io \<Rightarrow> int \<Rightarrow> nat \<Rightarrow> bytes \<Rightarrow> int \<Rightarrow> bytes \<Rightarrow> renv \<Rightarrow> bytes \<times> renv" where
  "psync se sio now fd replid ofs out e =
     (let s = en_repl e; r = rs_repl s in
      case conn (rs_host s) fd of
        None \<Rightarrow> (out, e)
      | Some c \<Rightarrow>
          if c_repl_state c \<noteq> kNone \<or> c_is_master c then
            (reply_error out ''ERR PSYNC on a connection that is already replicating'', e)
          else if is_replica r \<and> rp_link_state r \<noteq> kConnected then
            (reply_error out (''NOMASTERLINK Can'' @ [CHR 0x27] @ ''t SYNC while not connected with my master''), e)
          else
            let s = repl_upd (\<lambda>r. r\<lparr>rp_stream_started := True\<rparr>)
                      (host_upd (change fd (\<lambda>c. c\<lparr>c_repl_ack_time := now, c_out := out\<rparr>)) s);
                e =
                  (case try_partial_resync fd replid ofs s of
                     (True, s) \<Rightarrow>
                       e\<lparr>en_repl := repl_upd (\<lambda>r. r\<lparr>rp_sync_partial_ok := rp_sync_partial_ok r + 1\<rparr>) s\<rparr>
                   | (False, s) \<Rightarrow>
                       start_snapshot_for_replicas se sio
                         (e\<lparr>en_repl :=
                            repl_upd (\<lambda>r. r\<lparr>rp_sync_partial_err := (if replid \<noteq> ''?'' then rp_sync_partial_err r + 1
                                                                      else rp_sync_partial_err r),
                                             rp_sync_full := rp_sync_full r + 1,
                                             rp_replicas := rp_replicas r @ [fd]\<rparr>)
                              (host_upd (change fd (\<lambda>c. c\<lparr>c_repl_state := kWaitBgsaveStart\<rparr>)) s)\<rparr>))
            in (case conn (rs_host (en_repl e)) fd of Some c \<Rightarrow> c_out c | None \<Rightarrow> out, e))"

text \<open>
  The snapshot child has ended. \<open>opened i\<close> is whether the snapshot file could be opened and its size
  read for the \<open>i\<close>th replica of the list, \<open>snap\<close> is what the file holds.
\<close>

definition offer_snapshot :: "bool \<Rightarrow> bool \<Rightarrow> bytes \<Rightarrow> nat \<Rightarrow> host \<Rightarrow> host" where
  "offer_snapshot ok opened snap fd h =
     (case conn h fd of
        None \<Rightarrow> h
      | Some c \<Rightarrow>
          if c_repl_state c \<noteq> kWaitBgsaveEnd \<or> c_closing c then h
          else if \<not> ok then mark_closing fd h
          else if \<not> opened then mark_closing fd h
          else queue_write fd
                 (change fd (\<lambda>c. c\<lparr>c_repl_snapshot := Some snap,
                                   c_out := c_out c @ ''$'' @ to_string_nat (length snap) @ crlf,
                                   c_repl_state := kSendBulk\<rparr>) h))"

fun offer_snapshots :: "bool \<Rightarrow> (nat \<Rightarrow> bool) \<Rightarrow> bytes \<Rightarrow> nat list \<Rightarrow> host \<Rightarrow> host" where
  "offer_snapshots ok opened snap [] h = h"
| "offer_snapshots ok opened snap (fd # fds) h =
     offer_snapshots ok (\<lambda>i. opened (Suc i)) snap fds (offer_snapshot ok (opened 0) snap fd h)"

definition snapshot_finished :: "bool \<Rightarrow> (nat \<Rightarrow> bool) \<Rightarrow> bytes \<Rightarrow> rstate \<Rightarrow> rstate" where
  "snapshot_finished ok opened snap s =
     host_upd (offer_snapshots ok opened snap (rp_replicas (rs_repl s))) s"

definition snapshot_sent :: "int \<Rightarrow> nat \<Rightarrow> rstate \<Rightarrow> rstate" where
  "snapshot_sent now fd s =
     host_upd (change fd (\<lambda>c. c\<lparr>c_repl_snapshot := None, c_out := c_out c @ c_repl_held c, c_repl_held := [],
                              c_repl_state := kOnline, c_repl_ack_time := now\<rparr>)) s"

section \<open>Acknowledgements\<close>

definition replconf_ack :: "int \<Rightarrow> nat \<Rightarrow> u64 \<Rightarrow> rstate \<Rightarrow> rstate" where
  "replconf_ack now fd ofs s =
     host_upd (change fd (\<lambda>c. if c_repl_state c = kNone then c
                             else c\<lparr>c_repl_ack_offset := max (c_repl_ack_offset c) ofs, c_repl_ack_time := now\<rparr>)) s"

definition send_ack :: "rstate \<Rightarrow> rstate" where
  "send_ack s =
     (case rp_master (rs_repl s) of
        None \<Rightarrow> s
      | Some fd \<Rightarrow>
          host_upd (\<lambda>h. queue_write fd
             (change fd (\<lambda>c. c\<lparr>c_out := reply_command (c_out c)
                                  [''REPLCONF'', ''ACK'', to_string_u64 (repl_offset (rs_repl s))]\<rparr>) h)) s)"

definition replconf_getack :: "rstate \<Rightarrow> rstate" where
  "replconf_getack s = (if rp_master (rs_repl s) \<noteq> None then send_ack s else s)"

definition acked :: "u64 \<Rightarrow> host \<Rightarrow> nat \<Rightarrow> bool" where
  "acked ofs h fd \<longleftrightarrow>
     (case conn h fd of Some c \<Rightarrow> c_repl_state c = kOnline \<and> c_repl_ack_offset c \<ge> ofs | None \<Rightarrow> False)"

definition acked_replicas :: "u64 \<Rightarrow> rstate \<Rightarrow> int" where
  "acked_replicas ofs s = int (length (filter (acked ofs (rs_host s)) (rp_replicas (rs_repl s))))"

text \<open>The reply goes to \<open>out\<close>; the first component is whether the client was parked.\<close>

definition repl_wait :: "int \<Rightarrow> nat \<Rightarrow> int \<Rightarrow> int \<Rightarrow> bytes \<Rightarrow> rstate \<Rightarrow> bool \<times> bytes \<times> rstate" where
  "repl_wait now fd numreplicas timeout_ms out s =
     (if is_replica (rs_repl s) then (False, reply_error out ''ERR WAIT cannot be used with replica instances'', s)
      else
        let woff = (case conn (rs_host s) fd of Some c \<Rightarrow> c_woff c | None \<Rightarrow> 0);
            n = acked_replicas woff s
        in if n \<ge> numreplicas then (False, reply_integer out n, s)
           else
             (True, out,
              repl_upd (\<lambda>r. r\<lparr>rp_waiters := rp_waiters r @
                                 [\<lparr>wt_client = fd, wt_offset = woff, wt_numreplicas = numreplicas,
                                   wt_deadline = (if timeout_ms > 0 then Some (now + timeout_ms) else None)\<rparr>],
                               rp_get_ack_pending := True\<rparr>)
                (host_upd (change fd (\<lambda>c. c\<lparr>c_blocked := True\<rparr>)) s)))"

text \<open>
  The first half of \<open>unblock_waiters\<close>: the waiters that are done, with the number of replicas to
  reply, are taken out of the list. \<open>release\<close> is what happens to each of them afterwards, before
  its buffered commands are run.
\<close>

definition waiter_done :: "int \<Rightarrow> rstate \<Rightarrow> waiter \<Rightarrow> bool" where
  "waiter_done now s w \<longleftrightarrow>
     acked_replicas (wt_offset w) s \<ge> wt_numreplicas w \<or>
     (case wt_deadline w of Some d \<Rightarrow> now \<ge> d | None \<Rightarrow> False)"

definition done_waiters :: "int \<Rightarrow> rstate \<Rightarrow> (nat \<times> int) list \<times> rstate" where
  "done_waiters now s =
     (let (finished, rest) = partition (waiter_done now s) (rp_waiters (rs_repl s))
      in (map (\<lambda>w. (wt_client w, acked_replicas (wt_offset w) s)) finished,
          repl_upd (\<lambda>r. r\<lparr>rp_waiters := rest\<rparr>) s))"

definition release :: "nat \<Rightarrow> int \<Rightarrow> rstate \<Rightarrow> rstate" where
  "release fd n s = host_upd (change fd (\<lambda>c. c\<lparr>c_out := reply_integer (c_out c) n, c_blocked := False\<rparr>)) s"

section \<open>The link to the master\<close>

text \<open>Closing the socket and the transfer file has no further effect; the file is unlinked.\<close>

definition close_link :: "renv \<Rightarrow> renv" where
  "close_link e =
     (let s = en_repl e; r = rs_repl s;
          s = (case rp_master r of None \<Rightarrow> s | Some fd \<Rightarrow> host_upd (mark_closing fd) s);
          s = (case rp_link_fd r of None \<Rightarrow> s | Some fd \<Rightarrow> host_upd (unwatch fd) s);
          files = (if rp_transfer_path r \<noteq> [] then (en_files e)(rp_transfer_path r := None) else en_files e)
      in e\<lparr>en_files := files,
           en_repl := repl_upd (\<lambda>r. r\<lparr>rp_master := None, rp_link_fd := None, rp_transfer_open := False,
                                      rp_transfer_path := [], rp_link_buf := []\<rparr>) s\<rparr>)"

definition abort_link :: "int \<Rightarrow> renv \<Rightarrow> renv" where
  "abort_link now e =
     (let e = close_link e
      in e\<lparr>en_repl := repl_upd (\<lambda>r. r\<lparr>rp_link_state := (if is_replica r then kConnect else kLinkNone),
                                      rp_next_connect := now + kReconnectDelay\<rparr>) (en_repl e)\<rparr>)"

definition unblock_forced :: "waiter \<Rightarrow> rstate \<Rightarrow> rstate" where
  "unblock_forced w s =
     repl_upd (\<lambda>r. r\<lparr>rp_to_resume := rp_to_resume r @ [wt_client w]\<rparr>)
       (host_upd (change (wt_client w) (\<lambda>c. c\<lparr>c_out := reply_error (c_out c)
            (''UNBLOCKED force unblock from blocking operation, instance state changed '' @
             ''(master -> replica?)''),
          c_blocked := False\<rparr>)) s)"

definition replicaof :: "int \<Rightarrow> int \<Rightarrow> bytes \<Rightarrow> u16 \<Rightarrow> store \<Rightarrow> renv \<Rightarrow> store \<times> renv" where
  "replicaof now now' host port st e =
     (if host = rp_master_host (rs_repl (en_repl e)) \<and> port = rp_master_port (rs_repl (en_repl e)) then (st, e)
      else
        let e = close_link e;
            s = repl_upd (\<lambda>r. r\<lparr>rp_stream_started := True, rp_master_host := host, rp_master_port := port,
                                rp_link_state := kConnect, rp_next_connect := now, rp_link_down_since := now'\<rparr>)
                  (en_repl e);
            s = disconnect_replicas s;
            waiting = rp_waiters (rs_repl s);
            s = fold unblock_forced waiting (repl_upd (\<lambda>r. r\<lparr>rp_waiters := []\<rparr>) s)
        in (set_passive_expiry True st, e\<lparr>en_repl := s\<rparr>))"

definition shift_replid :: "(nat \<Rightarrow> u64) \<Rightarrow> replication \<Rightarrow> replication" where
  "shift_replid draws r =
     r\<lparr>rp_replid2 := rp_replid r, rp_second_replid_offset := Some (repl_offset r),
       rp_replid := random_replid draws, rp_replid_shared := False\<rparr>"

definition replicaof_no_one :: "(nat \<Rightarrow> u64) \<Rightarrow> store \<Rightarrow> renv \<Rightarrow> store \<times> renv" where
  "replicaof_no_one draws st e =
     (if \<not> is_replica (rs_repl (en_repl e)) then (st, e)
      else
        let e = close_link e;
            s = repl_upd (\<lambda>r. shift_replid draws
                              (r\<lparr>rp_master_host := [], rp_master_port := 0, rp_link_state := kLinkNone\<rparr>))
                  (en_repl e)
        in (set_passive_expiry False st, e\<lparr>en_repl := disconnect_replicas s\<rparr>))"

text \<open>
  The outcomes of the calls made for the link: resolving, creating and connecting the socket (the
  descriptor if all went well), \<^verbatim>\<open>epoll_ctl\<close>, the pending socket error, the bytes sent, what
  \<^verbatim>\<open>read\<close> returned, the process id, opening, writing and syncing the transfer file, and the
  replacement of the dataset; \<open>ki_opened\<close> is for replicas that wait for a snapshot.
\<close>

datatype link_read = LinkData bytes | LinkClosed | LinkRetry | LinkFailed nat

record link_io =
  ki_connect :: "nat option"
  ki_watch :: bool
  ki_so_error :: nat
  ki_sent :: nat
  ki_read :: link_read
  ki_pid :: nat
  ki_open :: nat
  ki_wrote :: nat
  ki_fsync :: nat
  ki_replace :: replace_io
  ki_opened :: "nat \<Rightarrow> bool"
  ki_added :: bool
  ki_now :: int

definition connect_to_master :: "link_io \<Rightarrow> renv \<Rightarrow> renv" where
  "connect_to_master io e =
     (let s = repl_upd (\<lambda>r. r\<lparr>rp_next_connect := ki_now io + kReconnectDelay\<rparr>) (en_repl e) in
      case ki_connect io of
        None \<Rightarrow> e\<lparr>en_repl := s\<rparr>
      | Some fd \<Rightarrow>
          (case watch (ki_watch io) fd (rs_host s) of
             (False, h) \<Rightarrow> e\<lparr>en_repl := s\<lparr>rs_host := h\<rparr>\<rparr>
           | (True, h) \<Rightarrow>
               e\<lparr>en_repl :=
                  repl_upd (\<lambda>r. r\<lparr>rp_link_fd := Some fd, rp_link_state := kConnecting,
                                  rp_link_last_io := ki_now io, rp_link_buf := []\<rparr>) (s\<lparr>rs_host := h\<rparr>)\<rparr>))"

text \<open>
  The socket becomes a client, whose buffered commands are to be run next: its descriptor is
  returned.
\<close>

definition adopt_link :: "link_io \<Rightarrow> renv \<Rightarrow> nat option \<times> renv" where
  "adopt_link io e =
     (let s = en_repl e; r = rs_repl s in
      case rp_link_fd r of
        None \<Rightarrow> (None, e)
      | Some fd \<Rightarrow>
          let s = host_upd (\<lambda>h. change fd (\<lambda>c. c\<lparr>c_last_interaction := ki_now io\<rparr>)
                              (adopt_master (ki_added io) fd (rp_link_buf r) (unwatch fd h))) s;
              s = repl_upd (\<lambda>r. r\<lparr>rp_link_fd := None, rp_link_buf := [], rp_master := Some fd,
                                  rp_link_state := kConnected, rp_replid_shared := True\<rparr>) s
          in (Some fd, e\<lparr>en_repl := send_ack s\<rparr>))"

definition set_link_buf :: "bytes \<Rightarrow> renv \<Rightarrow> renv" where
  "set_link_buf buf e = e\<lparr>en_repl := repl_upd (\<lambda>r. r\<lparr>rp_link_buf := buf\<rparr>) (en_repl e)\<rparr>"

definition take_line :: "int \<Rightarrow> renv \<Rightarrow> bytes option \<times> renv" where
  "take_line now e =
     (let buf = rp_link_buf (rs_repl (en_repl e));
          start = length (takeWhile (\<lambda>c. c = CHR 0x0A) buf)
      in if start = length buf then (None, set_link_buf [] e)
         else case find_str crlf buf start of
           None \<Rightarrow>
             let e = set_link_buf (drop start buf) e
             in (None, if length buf - start > kMaxHandshakeLine then abort_link now e else e)
         | Some stop \<Rightarrow> (Some (substr buf start (stop - start)), set_link_buf (drop (stop + 2) buf) e))"

definition handle_psync_reply :: "link_io \<Rightarrow> bytes \<Rightarrow> renv \<Rightarrow> nat option \<times> renv" where
  "handle_psync_reply io line e =
     (if take 12 line = ''+FULLRESYNC '' then
        (case Option.bind (extract_word (drop 12 line))
                (\<lambda>(ident, rest). map_option (\<lambda>(ofs, _). (ident, ofs)) (extract_uint64 rest)) of
           None \<Rightarrow> (None, abort_link (ki_now io) e)
         | Some (ident, ofs) \<Rightarrow>
             if length ident \<noteq> kReplIdLength then (None, abort_link (ki_now io) e)
             else
               let path = join (op_dir (pe_options (en_pers e)))
                            (''temp-repl-'' @ to_string_nat (ki_pid io) @ ''.snap'');
                   s = repl_upd (\<lambda>r. r\<lparr>rp_transfer_replid := ident, rp_transfer_offset := ofs,
                                       rp_transfer_path := path\<rparr>) (en_repl e)
               in if ki_open io \<noteq> 0 then (None, abort_link (ki_now io) (e\<lparr>en_repl := s\<rparr>))
                  else
                    (None,
                     e\<lparr>en_files := (en_files e)(path \<mapsto> []),
                       en_repl := repl_upd (\<lambda>r. r\<lparr>rp_transfer_open := True, rp_transfer_remaining := None,
                                                  rp_link_state := kTransfer\<rparr>) s\<rparr>))
      else if line = ''+CONTINUE'' \<or> take 10 line = ''+CONTINUE '' then
        let ident = (if length line > 10 then drop 10 line else []);
            r = rs_repl (en_repl e);
            s = (if ident \<noteq> [] \<and> ident \<noteq> rp_replid r then
                   disconnect_replicas
                     (repl_upd (\<lambda>r. r\<lparr>rp_replid2 := rp_replid r, rp_second_replid_offset := Some (repl_offset r),
                                      rp_replid := ident\<rparr>) (en_repl e))
                 else en_repl e)
        in adopt_link io (e\<lparr>en_repl := s\<rparr>)
      else (None, abort_link (ki_now io) e))"

definition finish_transfer :: "strerror \<Rightarrow> link_io \<Rightarrow> store \<Rightarrow> renv \<Rightarrow> nat option \<times> store \<times> renv" where
  "finish_transfer se io st e =
     (let s = repl_upd (\<lambda>r. r\<lparr>rp_transfer_open := False\<rparr>) (en_repl e) in
      if ki_fsync io \<noteq> 0 then (None, st, abort_link (ki_now io) (e\<lparr>en_repl := s\<rparr>))
      else
        let s = disconnect_replicas s in
        case replace_dataset se (ki_replace io) (rp_transfer_path (rs_repl s)) st (en_files e) (en_pers e) of
          (err, st, files, p, told) \<Rightarrow>
            let s = (case told of None \<Rightarrow> s | Some ok \<Rightarrow> snapshot_finished ok (ki_opened io) [] s);
                s = repl_upd (\<lambda>r. r\<lparr>rp_transfer_path := []\<rparr>) s;
                e = e\<lparr>en_files := files, en_pers := p, en_repl := s\<rparr>
            in if err \<noteq> None then (None, st, abort_link (ki_now io) e)
               else
                 let s = repl_upd (\<lambda>r. r\<lparr>rp_replid := rp_transfer_replid r,
                                         rp_replid2 := replicate kReplIdLength (CHR ''0''),
                                         rp_second_replid_offset := None,
                                         rp_backlog := bl_reset (rp_transfer_offset r) (rp_backlog r)\<rparr>) s
                 in (case adopt_link io (e\<lparr>en_repl := s\<rparr>) of (fd, e) \<Rightarrow> (fd, st, e)))"

text \<open>\<^verbatim>\<open>strtoull\<close> in base 10: a sign negates, too large a number is the largest one.\<close>

definition strtoull :: "bytes \<Rightarrow> u64 \<times> bytes" where
  "strtoull s =
     (case scan_int s of (neg, ds, rest) \<Rightarrow>
        if ds = [] then (0, s)
        else if digits_val ds > uint64_max then (of_nat uint64_max, rest)
        else (if neg then - of_nat (digits_val ds) else of_nat (digits_val ds), rest))"

text \<open>The header of the snapshot, as a C string.\<close>

definition transfer_size :: "bytes \<Rightarrow> u64 option" where
  "transfer_size line =
     (if length line > 1 \<and> hd line = CHR ''$'' then
        (case strtoull (takeWhile (\<lambda>c. c \<noteq> CHR 0x00) (drop 1 line)) of
           (n, rest) \<Rightarrow> if rest \<noteq> [] then None else Some n)
      else None)"

text \<open>
  One pass of the loop of \<open>process_link_input\<close>. It goes on only in the handshake: the other states
  return, or leave the states of the loop, since nothing that \<open>process_buffered\<close> runs for an adopted
  link starts a new handshake.
\<close>

datatype link_next = LinkStop | LinkAgain | LinkAdopted nat

definition link_handshake :: "link_io \<Rightarrow> renv \<Rightarrow> link_next \<times> renv" where
  "link_handshake io e =
     (case take_line (ki_now io) e of
        (None, e) \<Rightarrow> (LinkStop, e)
      | (Some line, e) \<Rightarrow>
          let n = rp_handshake_replies (rs_repl (en_repl e)) in
          if n < 3 then
            if n = 0 \<and> (line = [] \<or> hd line = CHR ''-'') then (LinkStop, abort_link (ki_now io) e)
            else (LinkAgain, e\<lparr>en_repl := repl_upd (\<lambda>r. r\<lparr>rp_handshake_replies := n + 1\<rparr>) (en_repl e)\<rparr>)
          else case handle_psync_reply io line e of
            (None, e) \<Rightarrow> (LinkAgain, e)
          | (Some fd, e) \<Rightarrow> (LinkAdopted fd, e))"

definition transfer_header :: "link_io \<Rightarrow> renv \<Rightarrow> u64 option \<times> renv" where
  "transfer_header io e =
     (case rp_transfer_remaining (rs_repl (en_repl e)) of
        Some n \<Rightarrow> (Some n, e)
      | None \<Rightarrow>
          (case take_line (ki_now io) e of
             (None, e) \<Rightarrow> (None, e)
           | (Some line, e) \<Rightarrow>
               (case transfer_size line of
                  None \<Rightarrow> (None, abort_link (ki_now io) e)
                | Some n \<Rightarrow>
                    (Some n, e\<lparr>en_repl := repl_upd (\<lambda>r. r\<lparr>rp_transfer_remaining := Some n\<rparr>) (en_repl e)\<rparr>))))"

definition link_transfer :: "strerror \<Rightarrow> link_io \<Rightarrow> store \<Rightarrow> renv \<Rightarrow> link_next \<times> store \<times> renv" where
  "link_transfer se io st e =
     (case transfer_header io e of
        (None, e) \<Rightarrow> (LinkStop, st, e)
      | (Some remaining, e) \<Rightarrow>
          let r = rs_repl (en_repl e);
              n = min (unat remaining) (length (rp_link_buf r));
              written = min (ki_wrote io) n;
              path = rp_transfer_path r;
              files = (en_files e)(path := map_option (\<lambda>c. c @ take written (rp_link_buf r)) (en_files e path))
          in if n > 0 \<and> written \<noteq> n then (LinkStop, st, abort_link (ki_now io) (e\<lparr>en_files := files\<rparr>))
             else
               let e = e\<lparr>en_files := files,
                         en_repl := repl_upd (\<lambda>r. r\<lparr>rp_link_buf := drop n (rp_link_buf r),
                                                    rp_transfer_remaining := Some (remaining - of_nat n)\<rparr>) (en_repl e)\<rparr>
               in if remaining - of_nat n > 0 then (LinkStop, st, e)
                  else (case finish_transfer se io st e of
                          (None, st, e) \<Rightarrow> (LinkStop, st, e)
                        | (Some fd, st, e) \<Rightarrow> (LinkAdopted fd, st, e)))"

definition link_step :: "strerror \<Rightarrow> link_io \<Rightarrow> store \<Rightarrow> renv \<Rightarrow> link_next \<times> store \<times> renv" where
  "link_step se io st e =
     (case rp_link_state (rs_repl (en_repl e)) of
        kHandshake \<Rightarrow> (case link_handshake io e of (nxt, e) \<Rightarrow> (nxt, st, e))
      | kTransfer \<Rightarrow> link_transfer se io st e
      | _ \<Rightarrow> (LinkStop, st, e))"

definition link_len :: "renv \<Rightarrow> nat" where
  "link_len e = length (rp_link_buf (rs_repl (en_repl e)))"

lemma close_link_buf [simp]: "rp_link_buf (rs_repl (en_repl (close_link e))) = []"
  by (simp add: close_link_def Let_def split: option.splits)

lemma abort_link_len [simp]: "link_len (abort_link now e) = 0"
  by (simp add: link_len_def abort_link_def Let_def)

lemma take_line_shorter:
  assumes "take_line now e = (Some line, e')"
  shows "link_len e' < link_len e"
proof -
  have "0 < length (rp_link_buf (rs_repl (en_repl e)))"
    using assms by (cases "rp_link_buf (rs_repl (en_repl e))") (simp_all add: take_line_def set_link_buf_def)
  then show ?thesis
    using assms by (auto simp: take_line_def Let_def set_link_buf_def link_len_def split: if_splits option.splits)
qed

lemma handle_psync_reply_len: "handle_psync_reply io line e = (None, e') \<Longrightarrow> link_len e' \<le> link_len e"
  by (auto simp: handle_psync_reply_def Let_def adopt_link_def link_len_def [of "e\<lparr>en_files := f, en_repl := g\<rparr>" for f g]
      disconnect_replicas_def split: if_splits option.splits prod.splits) (simp_all add: link_len_def)

lemma link_step_again:
  assumes "link_step se io st e = (LinkAgain, st', e')"
  shows "link_len e' < link_len e"
proof -
  have "link_handshake io e = (LinkAgain, e')"
    using assms by (auto simp: link_step_def link_transfer_def Let_def split: link_state.splits prod.splits option.splits if_splits)
  then obtain line e1 where t: "take_line (ki_now io) e = (Some line, e1)"
    and l: "link_len e' \<le> link_len e1"
    by (auto simp: link_handshake_def Let_def link_len_def [of "_\<lparr>en_repl := _\<rparr>"]
        split: prod.splits option.splits if_splits intro: handle_psync_reply_len)
      (simp_all add: link_len_def)
  show ?thesis using take_line_shorter [OF t] l by linarith
qed

function process_link_input :: "strerror \<Rightarrow> link_io \<Rightarrow> store \<Rightarrow> renv \<Rightarrow> nat option \<times> store \<times> renv" where
  "process_link_input se io st e =
     (case link_step se io st e of
        (LinkAgain, st, e) \<Rightarrow> process_link_input se io st e
      | (LinkStop, st, e) \<Rightarrow> (None, st, e)
      | (LinkAdopted fd, st, e) \<Rightarrow> (Some fd, st, e))"
  by pat_completeness auto
termination by (relation "measure (\<lambda>(se, io, st, e). link_len e)") (auto dest: link_step_again [OF sym])

declare process_link_input.simps [simp del]

definition read_link :: "strerror \<Rightarrow> link_io \<Rightarrow> store \<Rightarrow> renv \<Rightarrow> nat option \<times> store \<times> renv" where
  "read_link se io st e =
     (case ki_read io of
        LinkClosed \<Rightarrow> (None, st, abort_link (ki_now io) e)
      | LinkRetry \<Rightarrow> (None, st, e)
      | LinkFailed _ \<Rightarrow> (None, st, abort_link (ki_now io) e)
      | LinkData data \<Rightarrow>
          process_link_input se io st
            (e\<lparr>en_repl := repl_upd (\<lambda>r. r\<lparr>rp_link_last_io := ki_now io, rp_link_buf := rp_link_buf r @ data\<rparr>)
                            (en_repl e)\<rparr>))"

definition handshake :: "replication \<Rightarrow> bytes" where
  "handshake r =
     (let hs = reply_command [] [''PING''];
          hs = reply_command hs [''REPLCONF'', ''listening-port'', to_string_nat (unat (ro_listening_port (rp_options r)))];
          hs = reply_command hs [''REPLCONF'', ''capa'', ''psync2'']
      in if rp_replid_shared r then reply_command hs [''PSYNC'', rp_replid r, to_string_u64 (repl_offset r)]
         else reply_command hs [''PSYNC'', ''?'', ''-1''])"

definition on_link_ready :: "strerror \<Rightarrow> link_io \<Rightarrow> store \<Rightarrow> renv \<Rightarrow> nat option \<times> store \<times> renv" where
  "on_link_ready se io st e =
     (let s = en_repl e; r = rs_repl s in
      if rp_link_state r \<noteq> kConnecting then read_link se io st e
      else if ki_so_error io \<noteq> 0 then (None, st, abort_link (ki_now io) e)
      else if ki_sent io \<noteq> length (handshake r) then (None, st, abort_link (ki_now io) e)
      else
        let s = (case rp_link_fd r of None \<Rightarrow> s | Some fd \<Rightarrow> host_upd (\<lambda>h. snd (watch (ki_watch io) fd h)) s);
            s = repl_upd (\<lambda>r. r\<lparr>rp_link_state := kHandshake, rp_handshake_replies := 0,
                                rp_link_last_io := ki_now io\<rparr>) s
        in (None, st, e\<lparr>en_repl := s\<rparr>))"

section \<open>Hooks of the event loop\<close>

definition client_closed :: "int \<Rightarrow> int \<Rightarrow> nat \<Rightarrow> rstate \<Rightarrow> rstate" where
  "client_closed now now' fd s =
     (let s = host_upd (change fd (\<lambda>c. c\<lparr>c_repl_snapshot := None\<rparr>)) s;
          s = repl_upd (\<lambda>r. r\<lparr>rp_replicas := removeAll fd (rp_replicas r),
                              rp_waiters := filter (\<lambda>w. wt_client w \<noteq> fd) (rp_waiters r),
                              rp_to_resume := removeAll fd (rp_to_resume r)\<rparr>) s
      in if rp_master (rs_repl s) = Some fd then
           repl_upd (\<lambda>r. r\<lparr>rp_master := None, rp_link_down_since := now, rp_link_state := kConnect,
                           rp_next_connect := now'\<rparr>) s
         else s)"

definition last_interaction :: "host \<Rightarrow> nat \<Rightarrow> int" where
  "last_interaction h fd = (case conn h fd of Some c \<Rightarrow> c_last_interaction c | None \<Rightarrow> 0)"

definition master_last_contact :: "rstate \<Rightarrow> int" where
  "master_last_contact s =
     (case (rp_link_state (rs_repl s), rp_master (rs_repl s)) of
        (kConnected, Some fd) \<Rightarrow> last_interaction (rs_host s) fd
      | _ \<Rightarrow> rp_link_down_since (rs_repl s))"

text \<open>\<open>before_sleep\<close> between resuming clients and unblocking the waiters.\<close>

definition request_acks :: "rstate \<Rightarrow> rstate" where
  "request_acks s =
     (if rp_get_ack_pending (rs_repl s) \<and> \<not> rp_stream_paused (rs_repl s) then
        let s = repl_upd (\<lambda>r. r\<lparr>rp_get_ack_pending := False\<rparr>) s
        in if rp_replicas (rs_repl s) \<noteq> [] then repl_propagate [''REPLCONF'', ''GETACK'', ''*''] s else s
      else s)"

text \<open>\<open>cron\<close> after the waiters: the link, and what is done once a second.\<close>

definition cron_link :: "link_io \<Rightarrow> int \<Rightarrow> renv \<Rightarrow> renv" where
  "cron_link io t e =
     (let s = en_repl e; r = rs_repl s; timeout = ro_timeout (rp_options r) in
      case rp_link_state r of
        kConnect \<Rightarrow> if t \<ge> rp_next_connect r then connect_to_master io e else e
      | kConnected \<Rightarrow>
          (case rp_master r of
             None \<Rightarrow> e
           | Some fd \<Rightarrow>
               if t - last_interaction (rs_host s) fd > timeout then e\<lparr>en_repl := host_upd (mark_closing fd) s\<rparr> else e)
      | kLinkNone \<Rightarrow> e
      | _ \<Rightarrow> if t - rp_link_last_io r > timeout then abort_link (ki_now io) e else e)"

definition cron_replica :: "int \<Rightarrow> int \<Rightarrow> nat \<Rightarrow> host \<Rightarrow> host" where
  "cron_replica t timeout fd h =
     (case conn h fd of
        None \<Rightarrow> h
      | Some c \<Rightarrow>
          if c_closing c then h
          else if c_repl_state c = kWaitBgsaveStart \<or> c_repl_state c = kWaitBgsaveEnd then
            queue_write fd (change fd (\<lambda>c. c\<lparr>c_out := c_out c @ [CHR 0x0A]\<rparr>) h)
          else if c_repl_state c = kOnline \<and> t - c_repl_ack_time c > timeout then mark_closing fd h
          else h)"

definition cron_second :: "strerror \<Rightarrow> start_io \<Rightarrow> int \<Rightarrow> renv \<Rightarrow> renv" where
  "cron_second se sio t e =
     (let s = en_repl e in
      if t - rp_last_second_tick (rs_repl s) < kCronSecond then e
      else
        let s = repl_upd (\<lambda>r. r\<lparr>rp_last_second_tick := t\<rparr>) s;
            s = (case rp_master (rs_repl s) of
                   None \<Rightarrow> s
                 | Some fd \<Rightarrow>
                     (case conn (rs_host s) fd of
                        Some c \<Rightarrow> if c_closing c then s else send_ack s
                      | None \<Rightarrow> s));
            r = rs_repl s;
            s = (if \<not> is_replica r \<and> \<not> rp_stream_paused r \<and> rp_replicas r \<noteq> [] \<and>
                    t - rp_last_ping r \<ge> ro_ping_period (rp_options r)
                 then repl_propagate [''PING''] (repl_upd (\<lambda>r. r\<lparr>rp_last_ping := t\<rparr>) s)
                 else s);
            s = host_upd (fold (cron_replica t (ro_timeout (rp_options r))) (rp_replicas r)) s
        in start_snapshot_for_replicas se sio (e\<lparr>en_repl := s\<rparr>))"

section \<open>INFO\<close>

text \<open>\<^verbatim>\<open>duration_cast\<close> to seconds rounds towards zero.\<close>

definition seconds :: "int \<Rightarrow> int" where
  "seconds ms = (if ms \<ge> 0 then ms div 1000 else - ((- ms) div 1000))"

definition info_line :: "bytes \<Rightarrow> bytes \<Rightarrow> bytes" where
  "info_line name val = name @ '':'' @ val @ crlf"

definition info_replica :: "int \<Rightarrow> nat \<Rightarrow> client \<Rightarrow> bytes" where
  "info_replica t i c =
     info_line (''slave'' @ to_string_nat i)
       (''ip='' @ c_addr c @ '',port='' @ to_string_nat (unat (c_repl_listening_port c)) @ '',state='' @
        state_name (c_repl_state c) @ '',offset='' @ to_string_u64 (c_repl_ack_offset c) @ '',lag='' @
        to_string_int (seconds (t - c_repl_ack_time c)))"

definition repl_info :: "int \<Rightarrow> rstate \<Rightarrow> bytes" where
  "repl_info t s =
     (let r = rs_repl s; up = (rp_link_state r = kConnected) in
      ''# Replication'' @ crlf @
      info_line ''role'' (if is_replica r then ''slave'' else ''master'') @
      (if is_replica r then
         info_line ''master_host'' (rp_master_host r) @
         info_line ''master_port'' (to_string_nat (unat (rp_master_port r))) @
         info_line ''master_link_status'' (if up then ''up'' else ''down'') @
         info_line ''master_last_io_seconds_ago''
           (to_string_int (if up then seconds (t - (case rp_master r of Some fd \<Rightarrow> last_interaction (rs_host s) fd | None \<Rightarrow> 0))
                           else - 1)) @
         info_line ''master_sync_in_progress'' (if rp_link_state r = kTransfer then ''1'' else ''0'') @
         info_line ''slave_repl_offset'' (to_string_u64 (repl_offset r)) @
         info_line ''slave_read_only'' ''1''
       else []) @
      info_line ''connected_slaves'' (to_string_nat (length (rp_replicas r))) @
      concat (map (\<lambda>(i, fd). case conn (rs_host s) fd of Some c \<Rightarrow> info_replica t i c | None \<Rightarrow> [])
               (enumerate 0 (rp_replicas r))) @
      info_line ''master_replid'' (rp_replid r) @
      info_line ''master_replid2'' (rp_replid2 r) @
      info_line ''master_repl_offset'' (to_string_u64 (repl_offset r)) @
      info_line ''second_repl_offset''
        (case rp_second_replid_offset r of Some ofs \<Rightarrow> to_string_int (sint ofs) | None \<Rightarrow> ''-1'') @
      info_line ''repl_backlog_size'' (to_string_nat (bl_capacity (rp_backlog r))) @
      info_line ''repl_backlog_first_byte_offset'' (to_string_u64 (bl_start_offset (rp_backlog r))) @
      info_line ''repl_backlog_histlen'' (to_string_nat (bl_histlen (rp_backlog r))) @
      info_line ''sync_full'' (to_string_u64 (rp_sync_full r)) @
      info_line ''sync_partial_ok'' (to_string_u64 (rp_sync_partial_ok r)) @
      info_line ''sync_partial_err'' (to_string_u64 (rp_sync_partial_err r)))"

end
