(* ===== verification/Server.thy ===== *)
theory Server
  imports Replication
begin

text \<open>
  The event loop (\<^verbatim>\<open>server.hpp\<close>, \<^verbatim>\<open>server.cpp\<close>) with the hooks that \<^verbatim>\<open>kv_server.cpp\<close>
  installs. A server is the dispatcher's state with the replication and the connections in its
  environment; between two commands no client is current. What the kernel does (events, reads,
  sends, accepts, clocks) is an argument. The cluster is called through the operations \<open>co\<close>.
\<close>

section \<open>State\<close>

type_synonym server = "renv disp"

abbreviation sv_repl :: "server \<Rightarrow> replication" where
  "sv_repl d \<equiv> rs_repl (en_repl (d_env d))"

abbreviation sv_host :: "server \<Rightarrow> host" where
  "sv_host d \<equiv> rs_host (en_repl (d_env d))"

definition on_env :: "(renv \<Rightarrow> renv) \<Rightarrow> server \<Rightarrow> server" where
  "on_env f d = d\<lparr>d_env := f (d_env d)\<rparr>"

definition on_rstate :: "(rstate \<Rightarrow> rstate) \<Rightarrow> server \<Rightarrow> server" where
  "on_rstate f = on_env (\<lambda>e. e\<lparr>en_repl := f (en_repl e)\<rparr>)"

definition on_host :: "(host \<Rightarrow> host) \<Rightarrow> server \<Rightarrow> server" where
  "on_host f = on_rstate (host_upd f)"

definition kMaxQueryBufferBytes :: nat where "kMaxQueryBufferBytes = 64 * 1024 * 1024"
definition kMaxOutputBufferBytes :: nat where "kMaxOutputBufferBytes = 64 * 1024 * 1024"
definition kSnapshotChunkSize :: nat where "kSnapshotChunkSize = 64 * 1024"

section \<open>Running a command of a client\<close>

text \<open>
  The dispatcher works on a copy of the client, while the replication and the host work on the
  connection itself. Of the fields the dispatcher changes, \<open>sync_client\<close> writes those back; every
  other field of the connection is the one that counts.
\<close>

definition sync_client :: "nat \<Rightarrow> client \<Rightarrow> renv \<Rightarrow> renv" where
  "sync_client fd c e =
     e\<lparr>en_repl := host_upd (change fd (\<lambda>k. k\<lparr>c_asking := c_asking c, c_readonly := c_readonly c,
                              c_repl_listening_port := c_repl_listening_port c\<rparr>)) (en_repl e)\<rparr>"

definition current :: "nat \<Rightarrow> client \<Rightarrow> renv \<Rightarrow> client" where
  "current fd c e = (case conn (rs_host (en_repl e)) fd of Some k \<Rightarrow> k | None \<Rightarrow> c)"

text \<open>The inputs of one command: the clocks, random numbers and the outcomes of its calls.\<close>

record cmd_io =
  cm_clk :: "nat \<Rightarrow> int"
  cm_now :: "nat \<Rightarrow> int"
  cm_save :: save_io
  cm_start :: start_io
  cm_migrate :: migrate_io
  cm_draws :: "nat \<Rightarrow> u64"

definition repl_ops :: "strerror \<Rightarrow> cmd_io \<Rightarrow> nat \<Rightarrow> renv replication_ops" where
  "repl_ops se io fd =
     \<lparr>ro_is_replica = (\<lambda>e. is_replica (rs_repl (en_repl e))),
      ro_replicaof_no_one = replicaof_no_one (cm_draws io),
      ro_replicaof = replicaof (cm_now io 0) (cm_now io 1),
      ro_replconf_ack =
        (\<lambda>ofs c e. let e = sync_client fd c e; e = e\<lparr>en_repl := replconf_ack (cm_now io 0) fd ofs (en_repl e)\<rparr>
                   in (current fd c e, e)),
      ro_replconf_getack = (\<lambda>e. e\<lparr>en_repl := replconf_getack (en_repl e)\<rparr>),
      ro_psync =
        (\<lambda>replid ofs st c out e.
           case psync se (cm_start io) (cm_now io 0) fd replid ofs out (sync_client fd c e) of
             (out, e) \<Rightarrow> (out, current fd c e, e)),
      ro_wait =
        (\<lambda>n timeout c out e. let e = sync_client fd c e in
           case repl_wait (cm_now io 0) fd n timeout out (en_repl e) of
             (_, out, s) \<Rightarrow> let e = e\<lparr>en_repl := s\<rparr> in (out, current fd c e, e)),
      ro_info = (\<lambda>e. repl_info (cm_now io 0) (en_repl e))\<rparr>"

definition server_services :: "strerror \<Rightarrow> cmd_io \<Rightarrow> renv cluster_ops option \<Rightarrow> nat \<Rightarrow> renv services" where
  "server_services se io co fd =
     wire se (cm_save io) (cm_start io) repl_propagate (\<lambda>s. wants_commands (rs_repl s)) (Some (repl_ops se io fd)) co
       (cm_migrate io)"

definition run_command ::
  "strerror \<Rightarrow> cmd_io \<Rightarrow> renv cluster_ops option \<Rightarrow> nat \<Rightarrow> args \<Rightarrow> bytes \<Rightarrow> server \<Rightarrow> (bytes \<times> server) option" where
  "run_command se io co fd argv out d =
     (case dispatch (server_services se io co fd) (cm_clk io) argv out (d\<lparr>d_client := conn (sv_host d) fd\<rparr>) of
        None \<Rightarrow> None
      | Some (out, d) \<Rightarrow>
          Some (out, d\<lparr>d_env := (case d_client d of Some c \<Rightarrow> sync_client fd c (d_env d) | None \<Rightarrow> d_env d),
                       d_client := None\<rparr>))"

section \<open>Input\<close>

datatype input = NoInput | BadInput | Input args bytes

definition next_input :: "bool \<Rightarrow> client \<Rightarrow> input \<times> client" where
  "next_input paused c =
     (case c_held_command c of
        Some argv \<Rightarrow> if paused then (NoInput, c) else (Input argv [], c\<lparr>c_held_command := None\<rparr>)
      | None \<Rightarrow>
          let r = try_parse_command (c_parser c) in
          (case pr_status r of
             kIncomplete \<Rightarrow> (NoInput, c)
           | kProtocolError \<Rightarrow> (BadInput, c)
           | kComplete \<Rightarrow> (Input (pr_command r) (pr_raw r), c\<lparr>c_parser := pr_buffer r\<rparr>)))"

text \<open>
  The loop of \<open>process_input\<close>; \<open>ios i\<close> are the inputs of its \<open>i\<close>th command. The result says whether
  what follows the loop is reached.
\<close>

partial_function (option) process_loop ::
  "strerror \<Rightarrow> (nat \<Rightarrow> cmd_io) \<Rightarrow> renv cluster_ops option \<Rightarrow> nat \<Rightarrow> nat \<Rightarrow> server \<Rightarrow> (bool \<times> server) option" where
  "process_loop se ios co i fd d =
     (case conn (sv_host d) fd of
        None \<Rightarrow> Some (True, d)
      | Some c \<Rightarrow>
          if c_blocked c \<or> c_close_after_flush c \<or> c_closing c then Some (True, d)
          else case next_input (ho_writes_paused (sv_host d)) c of
            (NoInput, _) \<Rightarrow> Some (True, d)
          | (BadInput, _) \<Rightarrow>
              if c_is_master c then Some (False, on_host (mark_closing fd) d)
              else Some (True, on_host (change fd (\<lambda>c. c\<lparr>c_out := reply_error (c_out c) ''ERR Protocol error'',
                                                       c_close_after_flush := True\<rparr>)) d)
          | (Input argv raw, c) \<Rightarrow>
              let d = on_host (put_conn fd c) d in
              if c_is_master c then
                Option.bind (run_command se (ios i) co fd argv [] d)
                  (\<lambda>(_, d). process_loop se ios co (Suc i) fd (on_rstate (master_command_applied raw) d))
              else if c_repl_state c \<noteq> kNone then
                Option.bind (run_command se (ios i) co fd argv [] d)
                  (\<lambda>(_, d). process_loop se ios co (Suc i) fd d)
              else if ho_writes_paused (sv_host d) \<and> is_write argv then
                Some (True, on_host (\<lambda>h. (change fd (\<lambda>c. c\<lparr>c_held_command := Some argv\<rparr>) h)
                                          \<lparr>ho_held_clients := ho_held_clients h @ [fd]\<rparr>) d)
              else
                let before = repl_offset (sv_repl d) in
                Option.bind (run_command se (ios i) co fd argv (c_out c) d)
                  (\<lambda>(out, d).
                     let now = repl_offset (sv_repl d) in
                     process_loop se ios co (Suc i) fd
                       (on_host (change fd (\<lambda>c. c\<lparr>c_out := out, c_woff := (if now \<noteq> before then now else c_woff c)\<rparr>)) d)))"

definition process_input ::
  "strerror \<Rightarrow> (nat \<Rightarrow> cmd_io) \<Rightarrow> renv cluster_ops option \<Rightarrow> nat \<Rightarrow> server \<Rightarrow> server option" where
  "process_input se ios co fd d =
     (case process_loop se ios co 0 fd d of
        None \<Rightarrow> None
      | Some (False, d) \<Rightarrow> Some d
      | Some (True, d) \<Rightarrow>
          Some (on_host (\<lambda>h. queue_write fd (change fd (\<lambda>c.
                  if \<not> c_close_after_flush c \<and> length (c_parser c) > kMaxQueryBufferBytes
                  then c\<lparr>c_out := reply_error (c_out c) ''ERR Protocol error: query buffer limit exceeded'',
                         c_close_after_flush := True\<rparr>
                  else c) h)) d))"

definition process_buffered ::
  "strerror \<Rightarrow> (nat \<Rightarrow> cmd_io) \<Rightarrow> renv cluster_ops option \<Rightarrow> nat \<Rightarrow> server \<Rightarrow> server option" where
  "process_buffered se ios co fd d =
     (case conn (sv_host d) fd of
        Some c \<Rightarrow> if c_closing c then Some d else process_input se ios co fd d
      | None \<Rightarrow> Some d)"

datatype sock_read = SockData bytes | SockClosed | SockRetry | SockFailed

definition handle_readable ::
  "strerror \<Rightarrow> (nat \<Rightarrow> cmd_io) \<Rightarrow> renv cluster_ops option \<Rightarrow> sock_read \<Rightarrow> int \<Rightarrow> nat \<Rightarrow> server \<Rightarrow> server option" where
  "handle_readable se ios co r now fd d =
     (case r of
        SockClosed \<Rightarrow> Some (on_host (mark_closing fd) d)
      | SockRetry \<Rightarrow> Some d
      | SockFailed \<Rightarrow> Some (on_host (mark_closing fd) d)
      | SockData data \<Rightarrow>
          (case conn (sv_host d) fd of
             None \<Rightarrow> Some d
           | Some c \<Rightarrow>
               if c_close_after_flush c then Some d
               else process_input se ios co fd
                      (on_host (change fd (\<lambda>c. c\<lparr>c_last_interaction := now, c_parser := feed (c_parser c) data\<rparr>)) d)))"

fun resume_loop ::
  "strerror \<Rightarrow> (nat \<Rightarrow> nat \<Rightarrow> cmd_io) \<Rightarrow> renv cluster_ops option \<Rightarrow> nat list \<Rightarrow> server \<Rightarrow> server option" where
  "resume_loop se ios co [] d = Some d"
| "resume_loop se ios co (fd # fds) d =
     (case conn (sv_host d) fd of
        None \<Rightarrow> resume_loop se (\<lambda>i. ios (Suc i)) co fds d
      | Some c \<Rightarrow>
          if c_held_command c \<noteq> None \<and> \<not> c_closing c then
            Option.bind (process_input se (ios 0) co fd d) (resume_loop se (\<lambda>i. ios (Suc i)) co fds)
          else resume_loop se (\<lambda>i. ios (Suc i)) co fds d)"

definition resume_held_clients ::
  "strerror \<Rightarrow> (nat \<Rightarrow> nat \<Rightarrow> cmd_io) \<Rightarrow> renv cluster_ops option \<Rightarrow> server \<Rightarrow> server option" where
  "resume_held_clients se ios co d =
     resume_loop se ios co (ho_held_clients (sv_host d))
       (on_host (\<lambda>h. h\<lparr>ho_resume_held := False, ho_held_clients := []\<rparr>) d)"

section \<open>Output\<close>

text \<open>
  Reading the next piece of a snapshot: \<open>SnapRead n\<close> returns at most \<open>n\<close> bytes (at least one unless
  the file has ended). The result is whether the client may go on.
\<close>

datatype snap_read = SnapRead nat | SnapRetry | SnapFailed

definition refill_snapshot :: "snap_read \<Rightarrow> int \<Rightarrow> nat \<Rightarrow> rstate \<Rightarrow> bool \<times> rstate" where
  "refill_snapshot rd now fd s =
     (case conn (rs_host s) fd of
        None \<Rightarrow> (False, s)
      | Some c \<Rightarrow>
          if length (c_out c) \<ge> kSnapshotChunkSize then (True, s)
          else case rd of
            SnapRetry \<Rightarrow> (True, s)
          | SnapFailed \<Rightarrow> (False, host_upd (mark_closing fd) s)
          | SnapRead n \<Rightarrow>
              let rest = the (c_repl_snapshot c); n = max 1 (min n kSnapshotChunkSize) in
              if rest = [] then (True, snapshot_sent now fd s)
              else (True, host_upd (change fd (\<lambda>c. c\<lparr>c_out := c_out c @ take n rest,
                                                     c_repl_snapshot := Some (drop n rest)\<rparr>)) s))"

text \<open>
  The sending loop: whether it failed, and how many bytes went out. After the last result of the
  list the socket's buffer is full.
\<close>

datatype send_result = Sent nat | SendRetry | SendAgain | SendFailed

fun flush_sends :: "nat \<Rightarrow> send_result list \<Rightarrow> nat \<Rightarrow> bool \<times> nat" where
  "flush_sends len [] sent = (False, sent)"
| "flush_sends len (r # rs) sent =
     (if sent < len then
        (case r of
           Sent n \<Rightarrow> flush_sends len rs (sent + min n (len - sent))
         | SendRetry \<Rightarrow> flush_sends len rs sent
         | SendAgain \<Rightarrow> (False, sent)
         | SendFailed \<Rightarrow> (True, sent))
      else (False, sent))"

record flush_out =
  fo_read :: snap_read
  fo_now :: int
  fo_sends :: "send_result list"
  fo_epoll :: bool

text \<open>What went to the peer, and the state.\<close>

definition flush_client :: "flush_out \<Rightarrow> nat \<Rightarrow> rstate \<Rightarrow> bytes \<times> rstate" where
  "flush_client io fd s =
     (case conn (rs_host s) fd of
        None \<Rightarrow> ([], s)
      | Some c \<Rightarrow>
          let (go_on, s) = (if c_repl_snapshot c \<noteq> None then refill_snapshot (fo_read io) (fo_now io) fd s
                            else (True, s))
          in if \<not> go_on then ([], s)
             else case conn (rs_host s) fd of
               None \<Rightarrow> ([], s)
             | Some c \<Rightarrow>
                 (case flush_sends (length (c_out c)) (fo_sends io) 0 of
                    (True, sent) \<Rightarrow> (take sent (c_out c), host_upd (mark_closing fd) s)
                  | (False, sent) \<Rightarrow>
                      let out = drop sent (c_out c);
                          s = host_upd (change fd (\<lambda>c. c\<lparr>c_out := out\<rparr>)) s
                      in (take sent (c_out c),
                          if out = [] \<and> c_repl_state c \<noteq> kSendBulk then
                            let s = host_upd (set_write_interest (fo_epoll io) fd False) s
                            in if c_close_after_flush c then host_upd (mark_closing fd) s else s
                          else if c_repl_state c = kNone \<and> length out > kMaxOutputBufferBytes
                          then host_upd (mark_closing fd) s
                          else host_upd (set_write_interest (fo_epoll io) fd True) s)))"

fun flush_loop :: "(nat \<Rightarrow> flush_out) \<Rightarrow> nat list \<Rightarrow> rstate \<Rightarrow> (nat \<times> bytes) list \<times> rstate" where
  "flush_loop ios [] s = ([], s)"
| "flush_loop ios (fd # fds) s =
     (case conn (rs_host s) fd of
        None \<Rightarrow> flush_loop (\<lambda>i. ios (Suc i)) fds s
      | Some c \<Rightarrow>
          let s = host_upd (change fd (\<lambda>c. c\<lparr>c_pending_write := False\<rparr>)) s;
              (sent, s) = (if c_closing c then ([], s) else flush_client (ios 0) fd s)
          in case flush_loop (\<lambda>i. ios (Suc i)) fds s of (log, s) \<Rightarrow> ((fd, sent) # log, s))"

definition flush_pending_writes :: "(nat \<Rightarrow> flush_out) \<Rightarrow> rstate \<Rightarrow> (nat \<times> bytes) list \<times> rstate" where
  "flush_pending_writes ios s =
     (case flush_loop ios (ho_pending_writes (rs_host s)) s of
        (log, s) \<Rightarrow> (log, host_upd (\<lambda>h. h\<lparr>ho_pending_writes := []\<rparr>) s))"

section \<open>Opening and closing\<close>

datatype accept_result = Accepted nat bool bytes | AcceptRetry | AcceptNone

text \<open>\<open>Accepted fd added addr\<close>: a connection, whether epoll took it, and the peer.\<close>

fun accept_clients :: "accept_result list \<Rightarrow> host \<Rightarrow> host" where
  "accept_clients [] h = h"
| "accept_clients (r # rs) h =
     (case r of
        AcceptNone \<Rightarrow> h
      | AcceptRetry \<Rightarrow> accept_clients rs h
      | Accepted fd added addr \<Rightarrow>
          if length (ho_conns h) \<ge> ho_maxclients h then accept_clients rs h
          else if \<not> added then accept_clients rs h
          else accept_clients rs (change fd (\<lambda>c. c\<lparr>c_addr := addr\<rparr>) (add_client fd h)))"

definition drop_conn :: "nat \<Rightarrow> host \<Rightarrow> host" where
  "drop_conn fd h =
     h\<lparr>ho_conns := AList.delete fd (ho_conns h), ho_held_clients := removeAll fd (ho_held_clients h)\<rparr>"

fun close_loop :: "(nat \<Rightarrow> int \<times> int) \<Rightarrow> nat list \<Rightarrow> rstate \<Rightarrow> rstate" where
  "close_loop clk [] s = s"
| "close_loop clk (fd # fds) s =
     (case conn (rs_host s) fd of
        None \<Rightarrow> close_loop (\<lambda>i. clk (Suc i)) fds s
      | Some _ \<Rightarrow>
          close_loop (\<lambda>i. clk (Suc i)) fds
            (host_upd (drop_conn fd) (client_closed (fst (clk 0)) (snd (clk 0)) fd s)))"

definition close_pending :: "(nat \<Rightarrow> int \<times> int) \<Rightarrow> rstate \<Rightarrow> rstate" where
  "close_pending clk s =
     host_upd (\<lambda>h. h\<lparr>ho_pending_close := []\<rparr>) (close_loop clk (ho_pending_close (rs_host s)) s)"

definition close_all :: "(nat \<Rightarrow> int \<times> int) \<Rightarrow> rstate \<Rightarrow> rstate" where
  "close_all clk s =
     (let s = fold (\<lambda>(i, fd). client_closed (fst (clk i)) (snd (clk i)) fd) (enumerate 0 (map fst (ho_conns (rs_host s)))) s
      in host_upd (\<lambda>h. h\<lparr>ho_conns := [], ho_watchers := [], ho_pending_writes := [], ho_pending_close := []\<rparr>) s)"

section \<open>Hooks\<close>

text \<open>\<open>unblock_waiters\<close>, \<open>before_sleep\<close> and \<open>cron\<close> of the replication, with the buffered commands run.\<close>

fun release_loop ::
  "strerror \<Rightarrow> (nat \<Rightarrow> nat \<Rightarrow> cmd_io) \<Rightarrow> renv cluster_ops option \<Rightarrow> (nat \<times> int) list \<Rightarrow> server \<Rightarrow> server option" where
  "release_loop se ios co [] d = Some d"
| "release_loop se ios co ((fd, n) # rest) d =
     Option.bind (process_buffered se (ios 0) co fd (on_rstate (release fd n) d))
       (release_loop se (\<lambda>i. ios (Suc i)) co rest)"

definition unblock_waiters ::
  "strerror \<Rightarrow> (nat \<Rightarrow> nat \<Rightarrow> cmd_io) \<Rightarrow> renv cluster_ops option \<Rightarrow> int \<Rightarrow> server \<Rightarrow> server option" where
  "unblock_waiters se ios co now d =
     (if rp_waiters (sv_repl d) = [] then Some d
      else case done_waiters now (en_repl (d_env d)) of
        (finished, s) \<Rightarrow> release_loop se ios co finished (on_rstate (\<lambda>_. s) d))"

fun buffered_loop ::
  "strerror \<Rightarrow> (nat \<Rightarrow> nat \<Rightarrow> cmd_io) \<Rightarrow> renv cluster_ops option \<Rightarrow> nat list \<Rightarrow> server \<Rightarrow> server option" where
  "buffered_loop se ios co [] d = Some d"
| "buffered_loop se ios co (fd # fds) d =
     Option.bind (process_buffered se (ios 0) co fd d) (buffered_loop se (\<lambda>i. ios (Suc i)) co fds)"

definition repl_before_sleep ::
  "strerror \<Rightarrow> (nat \<Rightarrow> nat \<Rightarrow> cmd_io) \<Rightarrow> (nat \<Rightarrow> nat \<Rightarrow> cmd_io) \<Rightarrow> renv cluster_ops option \<Rightarrow> int \<Rightarrow> server \<Rightarrow>
     server option" where
  "repl_before_sleep se ios ios' co now d =
     Option.bind
       (buffered_loop se ios co (rp_to_resume (sv_repl d)) (on_rstate (repl_upd (\<lambda>r. r\<lparr>rp_to_resume := []\<rparr>)) d))
       (\<lambda>d. unblock_waiters se ios' co now (on_rstate request_acks d))"

definition repl_cron ::
  "strerror \<Rightarrow> (nat \<Rightarrow> nat \<Rightarrow> cmd_io) \<Rightarrow> renv cluster_ops option \<Rightarrow> link_io \<Rightarrow> start_io \<Rightarrow> int \<Rightarrow> int \<Rightarrow> server \<Rightarrow>
     server option" where
  "repl_cron se ios co lio sio t now d =
     map_option (on_env (\<lambda>e. cron_second se sio t (cron_link lio t e))) (unblock_waiters se ios co now d)"

text \<open>The link's callback; an adopted link's buffered commands are run.\<close>

definition link_ready ::
  "strerror \<Rightarrow> (nat \<Rightarrow> cmd_io) \<Rightarrow> renv cluster_ops option \<Rightarrow> link_io \<Rightarrow> server \<Rightarrow> server option" where
  "link_ready se ios co io d =
     (case on_link_ready se io (d_store d) (d_env d) of
        (fd, st, e) \<Rightarrow>
          let d = d\<lparr>d_store := st, d_env := e\<rparr>
          in case fd of None \<Rightarrow> Some d | Some fd \<Rightarrow> process_buffered se ios co fd d)"

text \<open>
  The periodic task and the hook before replies are written, as the program installs them. The
  cluster's hooks, if it is enabled, are arguments, as is the callback of a socket it watches.
\<close>

record cluster_hooks =
  ch_cron :: "server \<Rightarrow> server option"
  ch_before_sleep :: "server \<Rightarrow> server option"
  ch_after_stall :: "int \<Rightarrow> server \<Rightarrow> server option"
  ch_watch :: "nat \<Rightarrow> server \<Rightarrow> server option"

definition no_cluster :: cluster_hooks where
  "no_cluster = \<lparr>ch_cron = Some, ch_before_sleep = Some, ch_after_stall = (\<lambda>_. Some), ch_watch = (\<lambda>_. Some)\<rparr>"

record cron_io =
  ct_expire :: "expire_round list"
  ct_rehash :: "bool list"
  ct_wait :: wait_result
  ct_finish :: finish_io
  ct_now :: int
  ct_start :: start_io
  ct_opened :: "nat \<Rightarrow> bool"
  ct_cmds :: "nat \<Rightarrow> nat \<Rightarrow> cmd_io"
  ct_link :: link_io
  ct_repl_start :: start_io
  ct_steady :: int

definition cron_task ::
  "strerror \<Rightarrow> cron_io \<Rightarrow> renv cluster_ops option \<Rightarrow> cluster_hooks \<Rightarrow> server \<Rightarrow> server option" where
  "cron_task se io co ch d =
     (case active_expire_cycle (ct_expire io) (d_store d) of
        None \<Rightarrow> None
      | Some (_, st) \<Rightarrow>
          let d = deliver (server_services se (ct_cmds io 0 0) co 0) (d\<lparr>d_store := st\<rparr>) in
          (case active_rehash (ct_rehash io) (d_store d) of
             None \<Rightarrow> None
           | Some (_, st) \<Rightarrow>
               let d = d\<lparr>d_store := st\<rparr>; e = d_env d in
               (case pers_cron se (ct_wait io) (ct_finish io) (ct_now io) (ct_start io) (en_files e) (en_pers e) of
                  (files, p, told) \<Rightarrow>
                    let s = (case told of
                               None \<Rightarrow> en_repl e
                             | Some ok \<Rightarrow>
                                 snapshot_finished ok (ct_opened io)
                                   (case files (snapshot_path p) of Some snap \<Rightarrow> snap | None \<Rightarrow> []) (en_repl e));
                        d = d\<lparr>d_env := e\<lparr>en_files := files, en_pers := p, en_repl := s\<rparr>\<rparr>
                    in Option.bind
                         (repl_cron se (ct_cmds io) co (ct_link io) (ct_repl_start io) (ct_steady io) (ct_steady io) d)
                         (ch_cron ch))))"

record sleep_io =
  sl_resume :: "nat \<Rightarrow> nat \<Rightarrow> cmd_io"
  sl_release :: "nat \<Rightarrow> nat \<Rightarrow> cmd_io"
  sl_now :: int
  sl_flush :: flush_io

definition before_sleep_hook ::
  "strerror \<Rightarrow> sleep_io \<Rightarrow> renv cluster_ops option \<Rightarrow> cluster_hooks \<Rightarrow> server \<Rightarrow> server option" where
  "before_sleep_hook se io co ch d =
     Option.bind (ch_before_sleep ch d) (\<lambda>d.
     Option.bind (repl_before_sleep se (sl_resume io) (sl_release io) co (sl_now io) d) (\<lambda>d.
       case before_sleep (sl_flush io) (en_files (d_env d)) (en_pers (d_env d)) of
         None \<Rightarrow> None
       | Some (files, p) \<Rightarrow> Some (on_env (\<lambda>e. e\<lparr>en_files := files, en_pers := p\<rparr>) d)))"

section \<open>The loop\<close>

text \<open>
  An event is the listening socket, the signal, or a descriptor that is readable and/or writable.
\<close>

record ready_io =
  re_link :: link_io
  re_cmds :: "nat \<Rightarrow> cmd_io"
  re_read :: sock_read
  re_now :: int
  re_flush :: flush_out

datatype event = Listen "accept_result list" | Signal | Ready nat bool bool ready_io

text \<open>The result is whether to go on running, what was sent, and the state.\<close>

definition handle_event ::
  "strerror \<Rightarrow> renv cluster_ops option \<Rightarrow> cluster_hooks \<Rightarrow> event \<Rightarrow> server \<Rightarrow> (bool \<times> (nat \<times> bytes) list \<times> server) option" where
  "handle_event se co ch ev d =
     (case ev of
        Listen rs \<Rightarrow> Some (True, [], on_host (accept_clients rs) d)
      | Signal \<Rightarrow> Some (False, [], d)
      | Ready fd readable writable io \<Rightarrow>
          if fd \<in> set (ho_watchers (sv_host d)) then
            map_option (\<lambda>d. (True, [], d))
              (if rp_link_fd (sv_repl d) = Some fd then link_ready se (re_cmds io) co (re_link io) d else ch_watch ch fd d)
          else case conn (sv_host d) fd of
            None \<Rightarrow> Some (True, [], d)
          | Some c \<Rightarrow>
              if c_closing c then Some (True, [], d)
              else
                Option.bind (if readable then handle_readable se (re_cmds io) co (re_read io) (re_now io) fd d else Some d)
                  (\<lambda>d. if writable \<and> (case conn (sv_host d) fd of Some c \<Rightarrow> \<not> c_closing c | None \<Rightarrow> False) then
                         (case flush_client (re_flush io) fd (en_repl (d_env d)) of
                            (sent, s) \<Rightarrow> Some (True, [(fd, sent)], on_rstate (\<lambda>_. s) d))
                       else Some (True, [], d)))"

fun handle_events ::
  "strerror \<Rightarrow> renv cluster_ops option \<Rightarrow> cluster_hooks \<Rightarrow> event list \<Rightarrow> server \<Rightarrow>
     (bool \<times> (nat \<times> bytes) list \<times> server) option" where
  "handle_events se co ch [] d = Some (True, [], d)"
| "handle_events se co ch (ev # evs) d =
     Option.bind (handle_event se co ch ev d) (\<lambda>(go_on, log, d).
     Option.bind (handle_events se co ch evs d) (\<lambda>(go_on', log', d). Some (go_on \<and> go_on', log @ log', d)))"

definition cron_timeout_ms :: "int \<Rightarrow> int \<Rightarrow> int" where
  "cron_timeout_ms next_cron now_ns =
     (if next_cron - now_ns \<le> 0 then 0 else (next_cron - now_ns + 999999) div 1000000)"

text \<open>
  One iteration of \<open>run\<close>: \<open>it_gap\<close> is the time since the last wake-up, \<open>it_due\<close> whether the next
  cron tick is due.
\<close>

record iter_io =
  it_gap :: int
  it_events :: "event list"
  it_due :: bool
  it_cron :: cron_io
  it_resume :: "nat \<Rightarrow> nat \<Rightarrow> cmd_io"
  it_sleep :: sleep_io
  it_flush :: "nat \<Rightarrow> flush_out"
  it_close :: "nat \<Rightarrow> int \<times> int"

definition run_iteration ::
  "strerror \<Rightarrow> renv cluster_ops option \<Rightarrow> cluster_hooks \<Rightarrow> int \<Rightarrow> iter_io \<Rightarrow> server \<Rightarrow>
     (bool \<times> (nat \<times> bytes) list \<times> (nat \<times> bytes) list \<times> server) option" where
  "run_iteration se co ch stall_threshold io d =
     Option.bind (if it_gap io > stall_threshold then ch_after_stall ch (it_gap io) d else Some d) (\<lambda>d.
     Option.bind (handle_events se co ch (it_events io) d) (\<lambda>(running, early, d).
     Option.bind (if it_due io then cron_task se (it_cron io) co ch d else Some d) (\<lambda>d.
     Option.bind (if ho_resume_held (sv_host d) then resume_held_clients se (it_resume io) co d else Some d) (\<lambda>d.
     Option.bind (before_sleep_hook se (it_sleep io) co ch d) (\<lambda>d.
       case flush_pending_writes (it_flush io) (en_repl (d_env d)) of
         (sent, s) \<Rightarrow> Some (running, early, sent, on_rstate (\<lambda>_. close_pending (it_close io) s) d))))))"

text \<open>What \<^verbatim>\<open>main\<close> does between loading the data and the loop: with \<^verbatim>\<open>--replicaof\<close> the server follows a master.\<close>

definition begin_serving :: "int \<Rightarrow> int \<Rightarrow> (bytes \<times> u16) option \<Rightarrow> server \<Rightarrow> server" where
  "begin_serving now now' master d =
     (case master of
        None \<Rightarrow> d
      | Some (host, port) \<Rightarrow>
          (case replicaof now now' host port (d_store d) (d_env d) of
             (st, e) \<Rightarrow> d\<lparr>d_store := st, d_env := e\<rparr>))"

end
