(* ===== verification/Dispatcher_Properties.thy ===== *)
theory Dispatcher_Properties
  imports Replay
begin

text \<open>
  What holds of every command, whatever the components behind the dispatcher are. The locale
  \<open>dispatch_inv\<close> is the contract the dispatcher asks of them: their operations keep a predicate on
  their state, and those that touch the store keep its invariant. Then every command returns, keeps
  both, and answers in the format of the protocol.
\<close>

section \<open>The contract\<close>

definition kept :: "('e \<Rightarrow> bool) \<Rightarrow> 'e disp \<Rightarrow> bool" where
  "kept P d \<longleftrightarrow> store_inv (d_store d) \<and> P (d_env d)"

lemma store_ops_inv:
  assumes "store_inv st"
  shows "store_inv (snd (store_get now k st))" "store_inv (snd (store_exists now k st))"
    "store_inv (snd (store_pttl now now' k st))" "store_inv (snd (store_del now k st))"
    "store_inv (snd (store_set_expire now now' k w st))" "store_inv (snd (store_persist now k st))"
    "store_inv (store_set now k v keep st)"
  by (rule step_okD(1) [OF store_reads_ok(1) [OF assms]] step_okD(1) [OF store_reads_ok(2) [OF assms]]
      step_okD(1) [OF store_reads_ok(4) [OF assms]] step_okD(1) [OF store_del_ok(1) [OF assms]]
      step_okD(1) [OF store_set_expire_ok(1) [OF assms]] step_okD(1) [OF store_persist_ok(1) [OF assms]]
      step_okD(1) [OF store_set_ok [OF assms]])+

locale dispatch_inv =
  fixes sv :: "'e services" and P :: "'e \<Rightarrow> bool"
  assumes propagator: "sv_propagator sv = Some p \<Longrightarrow> P e \<Longrightarrow> P (p argv e)"
    and on_deleted: "P e \<Longrightarrow> P (sv_on_deleted sv k e)"
    and count_change: "sv_persistence sv = Some po \<Longrightarrow> P e \<Longrightarrow> P (po_count_change po e)"
    and save: "sv_persistence sv = Some po \<Longrightarrow> P e \<Longrightarrow> P (snd (po_save po st e))"
    and bgsave: "sv_persistence sv = Some po \<Longrightarrow> P e \<Longrightarrow> P (snd (po_bgsave po st e))"
    and bgrewriteaof: "sv_persistence sv = Some po \<Longrightarrow> P e \<Longrightarrow> P (snd (po_bgrewriteaof po st e))"
    and replicaof_no_one: "sv_replication sv = Some ro \<Longrightarrow> store_inv st \<Longrightarrow> P e \<Longrightarrow>
      store_inv (fst (ro_replicaof_no_one ro st e)) \<and> P (snd (ro_replicaof_no_one ro st e))"
    and replicaof: "sv_replication sv = Some ro \<Longrightarrow> store_inv st \<Longrightarrow> P e \<Longrightarrow>
      store_inv (fst (ro_replicaof ro h port st e)) \<and> P (snd (ro_replicaof ro h port st e))"
    and replconf_ack: "sv_replication sv = Some ro \<Longrightarrow> P e \<Longrightarrow> P (snd (ro_replconf_ack ro ofs c e))"
    and replconf_getack: "sv_replication sv = Some ro \<Longrightarrow> P e \<Longrightarrow> P (ro_replconf_getack ro e)"
    and psync: "sv_replication sv = Some ro \<Longrightarrow> P e \<Longrightarrow> P (snd (snd (ro_psync ro replid pos st c out e)))"
    and wait: "sv_replication sv = Some ro \<Longrightarrow> P e \<Longrightarrow> P (snd (snd (ro_wait ro n timeout c out e)))"
    and route: "sv_cluster sv = Some co \<Longrightarrow> store_inv st \<Longrightarrow> P e \<Longrightarrow> co_route co clk keys w asking c st e = (r, st', e') \<Longrightarrow>
      store_inv st' \<and> P e'"
    and cluster_command: "sv_cluster sv = Some co \<Longrightarrow> store_inv st \<Longrightarrow> P e \<Longrightarrow> co_command co clk argv out st e = (out', st', e') \<Longrightarrow>
      store_inv st' \<and> P e'"
begin

lemma fold_deleted: "P e \<Longrightarrow> P (fold (sv_on_deleted sv) ks e)"
  by (induction ks arbitrary: e) (auto simp: on_deleted)

lemma kept_deliver: "store_inv (d_store d) \<Longrightarrow> P (d_env d) \<Longrightarrow> kept P (deliver sv d)"
  by (simp add: kept_def fold_deleted)

lemma kept_call:
  "st_call sv f d = (r, d') \<Longrightarrow> kept P d \<Longrightarrow> (\<And>st. store_inv st \<Longrightarrow> store_inv (snd (f st))) \<Longrightarrow> kept P d'"
  by (auto simp: st_call_def kept_def fold_deleted split: prod.splits) (metis snd_conv)

lemma kept_do: "kept P d \<Longrightarrow> (\<And>st. store_inv st \<Longrightarrow> store_inv (f st)) \<Longrightarrow> kept P (st_do sv f d)"
  by (simp add: st_do_def kept_def fold_deleted)

lemma kept_client [simp]: "kept P (d\<lparr>d_client := c\<rparr>) = kept P d"
  by (simp add: kept_def)

lemma kept_env: "kept P d \<Longrightarrow> P e \<Longrightarrow> kept P (d\<lparr>d_env := e\<rparr>)"
  by (simp add: kept_def)

lemma kept_propagate: "kept P d \<Longrightarrow> kept P (propagate sv argv d)"
  by (auto simp: propagate_def kept_def propagator split: option.splits)

lemma kept_propagate_built: "kept P d \<Longrightarrow> kept P (propagate_built sv argv d)"
  by (auto simp: propagate_built_def count_unlogged_write_def kept_propagate kept_env count_change [folded kept_def]
      split: option.splits) (auto simp: kept_def count_change)

lemmas kept_calls = kept_call [OF _ _ store_ops_inv(1)] kept_call [OF _ _ store_ops_inv(2)]
  kept_call [OF _ _ store_ops_inv(3)] kept_call [OF _ _ store_ops_inv(4)] kept_call [OF _ _ store_ops_inv(5)]
  kept_call [OF _ _ store_ops_inv(6)]

lemmas kept_intros = kept_propagate kept_propagate_built kept_do store_ops_inv(7)

lemma kept_call_snd: "kept P d \<Longrightarrow> (\<And>st. store_inv st \<Longrightarrow> store_inv (snd (f st))) \<Longrightarrow> kept P (snd (st_call sv f d))"
  by (cases "st_call sv f d") (auto intro: kept_call simp del: st_call_simps)

lemma kept_loops:
  "kept P d \<Longrightarrow> kept P (snd (del_loop sv clk i ks n d))" "kept P d \<Longrightarrow> kept P (snd (exists_loop sv clk i ks n d))"
  by (induction ks arbitrary: i n d) (auto split: prod.splits dest: kept_calls)

lemma kept_data:
  assumes "kept P d"
  shows "kept P (snd (cmd_set sv clk argv out d))" "kept P (snd (cmd_get sv clk argv out d))"
    "kept P (snd (cmd_del sv clk argv out d))" "kept P (snd (cmd_exists sv clk argv out d))"
    "kept P (snd (incr_by sv clk k delta out d))" "kept P (snd (expire_generic sv clk argv u rel name out d))"
    "kept P (snd (cmd_ttl sv clk argv out d))" "kept P (snd (cmd_pttl sv clk argv out d))"
    "kept P (snd (cmd_persist sv clk argv out d))" "kept P (snd (cmd_dump sv clk argv out d))"
proof -
  show "kept P (snd (cmd_set sv clk argv out d))"
    using assms by (auto simp: cmd_set_def Let_def split: sum.splits prod.splits option.splits if_splits
        intro!: kept_intros kept_call_snd store_ops_inv(5) dest: kept_calls)
  show "kept P (snd (cmd_get sv clk argv out d))"
    using assms by (auto simp: cmd_get_def split: prod.splits option.splits dest: kept_calls)
  show "kept P (snd (cmd_del sv clk argv out d))" "kept P (snd (cmd_exists sv clk argv out d))"
    using kept_loops [OF assms] by (auto simp: cmd_del_def cmd_exists_def split: prod.splits intro!: kept_intros) (metis snd_conv)+
  show "kept P (snd (incr_by sv clk k delta out d))"
    using assms by (auto simp: incr_by_def Let_def split: prod.splits option.splits dest: kept_calls intro!: kept_intros)
  show "kept P (snd (expire_generic sv clk argv u rel name out d))"
    using assms by (auto simp: expire_generic_def Let_def split: prod.splits option.splits bool.splits dest: kept_calls intro!: kept_intros)
  show "kept P (snd (cmd_ttl sv clk argv out d))" "kept P (snd (cmd_pttl sv clk argv out d))"
    "kept P (snd (cmd_persist sv clk argv out d))" "kept P (snd (cmd_dump sv clk argv out d))"
    using assms by (auto simp: cmd_ttl_def cmd_pttl_def cmd_persist_def cmd_dump_def split: prod.splits option.splits bool.splits
        dest: kept_calls intro!: kept_intros)
qed

lemma op_results:
  "po_save po st e = (r, e') \<Longrightarrow> sv_persistence sv = Some po \<Longrightarrow> P e \<Longrightarrow> P e'"
  "po_bgsave po st e = (r, e') \<Longrightarrow> sv_persistence sv = Some po \<Longrightarrow> P e \<Longrightarrow> P e'"
  "po_bgrewriteaof po st e = (r', e') \<Longrightarrow> sv_persistence sv = Some po \<Longrightarrow> P e \<Longrightarrow> P e'"
  "ro_replconf_ack ro ofs c e = (c', e') \<Longrightarrow> sv_replication sv = Some ro \<Longrightarrow> P e \<Longrightarrow> P e'"
  "ro_psync ro replid pos st c out e = (out', c', e') \<Longrightarrow> sv_replication sv = Some ro \<Longrightarrow> P e \<Longrightarrow> P e'"
  "ro_wait ro n timeout c out e = (out', c', e') \<Longrightarrow> sv_replication sv = Some ro \<Longrightarrow> P e \<Longrightarrow> P e'"
  using save [of po e st] bgsave [of po e st] bgrewriteaof [of po e st] replconf_ack [of ro e ofs c]
    psync [of ro e replid pos st c out] wait [of ro e n timeout c out] by simp_all

lemma op_results_store:
  "ro_replicaof_no_one ro st e = (st', e') \<Longrightarrow> sv_replication sv = Some ro \<Longrightarrow> store_inv st \<Longrightarrow> P e \<Longrightarrow> store_inv st' \<and> P e'"
  "ro_replicaof ro h port st e = (st', e') \<Longrightarrow> sv_replication sv = Some ro \<Longrightarrow> store_inv st \<Longrightarrow> P e \<Longrightarrow> store_inv st' \<and> P e'"
  using replicaof_no_one [of ro st e] replicaof [of ro st e h port] by simp_all

lemma kept_services:
  assumes "kept P d"
  shows "kept P (snd (cmd_save sv clk argv out d))" "kept P (snd (cmd_bgsave sv clk argv out d))"
    "kept P (snd (cmd_bgrewriteaof sv clk argv out d))" "kept P (snd (cmd_lastsave sv clk argv out d))"
    "kept P (snd (cmd_replicaof sv clk argv out d))" "kept P (snd (cmd_psync sv clk argv out d))"
    "kept P (snd (cmd_wait sv clk argv out d))" "kept P (snd (cmd_cluster sv clk argv out d))"
proof -
  have e: "store_inv (d_store d)" "P (d_env d)" using assms by (simp_all add: kept_def)
  show "kept P (snd (cmd_save sv clk argv out d))"
    using e by (auto simp: cmd_save_def kept_def split: option.splits prod.splits dest: op_results(1))
  show "kept P (snd (cmd_bgsave sv clk argv out d))"
    using e by (auto simp: cmd_bgsave_def kept_def split: option.splits prod.splits dest: op_results(2))
  show "kept P (snd (cmd_bgrewriteaof sv clk argv out d))"
    using e by (auto simp: cmd_bgrewriteaof_def kept_def split: option.splits prod.splits rewrite_start.splits dest: op_results(3))
  show "kept P (snd (cmd_lastsave sv clk argv out d))"
    using assms by (auto simp: cmd_lastsave_def split: option.splits)
  show "kept P (snd (cmd_replicaof sv clk argv out d))"
    using assms e by (auto simp: cmd_replicaof_def Let_def split: option.splits prod.splits intro!: kept_deliver
        dest: op_results_store(1,2))
  show "kept P (snd (cmd_psync sv clk argv out d))"
    using assms e by (auto simp: cmd_psync_def split: option.splits prod.splits intro!: kept_env dest: op_results(5))
  show "kept P (snd (cmd_wait sv clk argv out d))"
    using assms e by (auto simp: cmd_wait_def split: option.splits prod.splits intro!: kept_env dest: op_results(6))
  show "kept P (snd (cmd_cluster sv clk argv out d))"
  proof (cases "sv_cluster sv")
    case (Some co)
    obtain out' st' e' where c: "co_command co clk argv out (d_store d) (d_env d) = (out', st', e')" by (metis prod.exhaust)
    then show ?thesis using cluster_command [OF Some e c] by (simp add: cmd_cluster_def Some kept_deliver)
  qed (simp add: cmd_cluster_def assms)
qed

lemma if_cases: "Q x \<Longrightarrow> Q y \<Longrightarrow> Q (if b then x else y)"
  by simp

lemma replconf_pair:
  assumes d: "kept P d" and IH: "\<And>d. kept P d \<Longrightarrow> kept P (snd (replconf_loop sv rest out d))"
  shows "kept P (snd (replconf_loop sv (arg # val # rest) out d))"
proof -
  have e: "store_inv (d_store d)" "P (d_env d)" using d by (simp_all add: kept_def)
  define opt where "opt = to_upper arg"
  have a: "kept P (snd (case (sv_replication sv, d_client d, parse_int64 val) of
         (Some ro, Some c, Some offset) \<Rightarrow>
           if offset \<ge> 0 then
             (case ro_replconf_ack ro (of_int offset) c (d_env d) of
                (c, e) \<Rightarrow> (out, d\<lparr>d_client := Some c, d_env := e\<rparr>))
           else (out, d)
       | _ \<Rightarrow> (out, d)))"
  proof (cases "sv_replication sv")
    case (Some ro)
    have "kept P (snd (case ro_replconf_ack ro n c (d_env d) of (c, e) \<Rightarrow> (out, d\<lparr>d_client := Some c, d_env := e\<rparr>)))" for n c
      using e replconf_ack [OF Some e(2), of n c] by (simp add: kept_def split_beta)
    then show ?thesis using d Some by (simp split: option.split)
  qed (simp add: d)
  have g: "kept P (snd (case (sv_replication sv, d_client d) of
           (Some ro, Some c) \<Rightarrow>
             (out, if c_is_master c then d\<lparr>d_env := ro_replconf_getack ro (d_env d)\<rparr> else d)
         | _ \<Rightarrow> (out, d)))"
    using d e by (auto split: option.splits intro!: kept_env replconf_getack)
  have l: "kept P (snd (case parse_int64 val of
           None \<Rightarrow> (reply_error out ''ERR Invalid listening port'', d)
         | Some port \<Rightarrow>
             if \<not> valid_port port then (reply_error out ''ERR Invalid listening port'', d)
             else replconf_loop sv rest out
                    (d\<lparr>d_client := map_option (\<lambda>c. c\<lparr>c_repl_listening_port := of_int port\<rparr>) (d_client d)\<rparr>)))"
    using d IH by (auto split: option.splits)
  show ?thesis
    unfolding replconf_loop.simps(1) Let_def opt_def [symmetric]
    by (intro if_cases [where Q = "\<lambda>x. kept P (snd x)"] a g l IH d) (simp add: d)
qed

lemma kept_replconf: "kept P d \<Longrightarrow> kept P (snd (replconf_loop sv args out d))"
proof (induction args arbitrary: d rule: induct_list012)
  case 1
  then show ?case by simp
next
  case (2 x)
  then show ?case by simp
next
  case (3 arg val rest)
  show ?case by (rule replconf_pair [OF 3(3) 3(1)])
qed

lemma kept_migrate_request: "kept P d \<Longrightarrow> kept P (snd (snd (migrate_request sv clk i rep ks req sent d)))"
  by (induction ks arbitrary: i req sent d) (auto simp: Let_def split: prod.splits option.splits dest: kept_calls)

lemma kept_migrate_replies: "kept P d \<Longrightarrow> kept P (snd (snd (migrate_replies sv clk i cp rs err deleted d)))"
proof (induction rs arbitrary: i err deleted d)
  case (Cons r rs)
  then show ?case by (cases r) (auto split: prod.splits dest: kept_calls)
qed simp

lemma kept_migrate_keys: "kept P d \<Longrightarrow> kept P (snd (migrate_keys sv clk cp rep ks out d))"
proof -
  assume d: "kept P d"
  obtain req sent d1 where 1: "migrate_request sv clk 0 rep ks [] [] d = (req, sent, d1)" by (metis prod.exhaust)
  obtain ok rs err where 2: "exchange (sv_migrate_io sv) req (length sent) = (ok, rs, err)" by (metis prod.exhaust)
  obtain err' del d2 where 3: "migrate_replies sv clk (3 * length ks) cp (zip rs sent) [] [] d1 = (err', del, d2)" by (metis prod.exhaust)
  have d1: "kept P d1" using kept_migrate_request [OF d, of clk 0 rep ks "[]" "[]"] 1 by simp
  then have "kept P d2" using kept_migrate_replies [OF d1, of clk "3 * length ks" cp "zip rs sent" "[]" "[]"] 3 by simp
  with d1 show ?thesis by (simp add: migrate_keys_def 1 2 3 kept_propagate)
qed

lemma kept_moving:
  assumes "kept P d"
  shows "kept P (snd (restore_key sv clk k v now ex out d))" "kept P (snd (cmd_migrate sv clk argv out d))"
proof -
  show "kept P (snd (restore_key sv clk k v now ex out d))"
    using assms by (auto simp: restore_key_def Let_def split: option.splits prod.splits
        intro!: kept_intros kept_call_snd store_ops_inv(5) dest: kept_calls)
  show "kept P (snd (cmd_migrate sv clk argv out d))"
    using assms kept_migrate_keys [OF assms] by (simp add: cmd_migrate_def split: option.split sum.split prod.split)
qed

lemma kept_restore: "kept P d \<Longrightarrow> kept P (snd (cmd_restore sv clk argv out d))"
proof -
  assume d: "kept P d"
  obtain b d1 where 1: "st_call sv (store_exists (clk 0) (argv ! Suc 0)) d = (b, d1)" by (metis prod.exhaust)
  have "kept P d1" by (rule kept_calls(2) [OF 1 d])
  then show ?thesis using d kept_moving(1)
    by (simp add: cmd_restore_def Let_def 1 split: option.split prod.split)
qed

lemma kept_info: "kept P d \<Longrightarrow> kept P (snd (cmd_info sv clk argv out d))"
  by (simp add: cmd_info_def Let_def)

lemma kept_handler:
  assumes "find_command name = Some sp" "kept P d"
  shows "kept P (snd (cs_handler sp sv clk argv out d))"
proof -
  have "list_all (\<lambda>(n, sp). kept P (snd (cs_handler sp sv clk argv out d))) command_table"
    using assms(2)
    by (simp add: command_table_def spec_def kept_data kept_services kept_moving kept_restore kept_info cmd_ping_def
        cmd_echo_def cmd_incr_def cmd_decr_def cmd_incrby_def cmd_decrby_def cmd_expire_def cmd_pexpire_def cmd_expireat_def
        cmd_pexpireat_def cmd_dbsize_def cmd_replconf_def kept_replconf cmd_asking_def cmd_readonly_def cmd_readwrite_def
        split: option.split)
  then show ?thesis
    using map_of_SomeD [OF assms(1) [unfolded find_command_def]] by (auto simp: list_all_iff)
qed

lemma kept_route_check:
  assumes "kept P d" "route_check sv clk sp argv asking client d = (r, d')"
  shows "kept P d'"
proof -
  have e: "store_inv (d_store d)" "P (d_env d)" using assms(1) by (simp_all add: kept_def)
  show ?thesis
  proof (cases "\<exists>co c. sv_cluster sv = Some co \<and> client = Some c \<and> \<not> c_is_master c \<and> cs_first_key sp > 0")
    case True
    then obtain co c where c: "sv_cluster sv = Some co" "client = Some c" "\<not> c_is_master c" "cs_first_key sp > 0" by blast
    obtain r' st' e' where r: "co_route co clk (key_args sp argv) (kWrite \<in> set (cs_flags sp)) (asking \<or> kAsking \<in> set (cs_flags sp))
        c (d_store d) (d_env d) = (r', st', e')" by (metis prod.exhaust)
    show ?thesis using assms(2) c kept_deliver [of "d\<lparr>d_store := st', d_env := e'\<rparr>"] route [OF c(1) e r]
      by (auto simp: route_check_def r)
  next
    case False
    then have "d' = d" using assms(2) by (auto simp: route_check_def split: option.splits if_splits)
    then show ?thesis using assms(1) by simp
  qed
qed

lemma kept_oom_check:
  assumes "kept P d"
  shows "\<exists>r d'. oom_check sv sp fm d = Some (r, d') \<and> kept P d'"
proof -
  have e: "store_inv (d_store d)" "P (d_env d)" using assms by (simp_all add: kept_def)
  obtain ok st where "evict_if_needed (d_store d) = Some (ok, st)" "store_inv st"
    using evict_if_needed_ok [OF e(1)] step_okD(1) by blast
  then show ?thesis using assms e kept_deliver [of "d\<lparr>d_store := st\<rparr>"] by (auto simp: oom_check_def)
qed

theorem dispatch_kept:
  assumes d: "kept P d"
  shows "\<exists>out' d'. dispatch sv clk argv out d = Some (out', d') \<and> kept P d'"
proof (cases "argv = []")
  case True
  then show ?thesis using d by (simp add: dispatch_def)
next
  case False
  let ?d = "d\<lparr>d_client := map_option (c_asking_update (\<lambda>_. False)) (d_client d)\<rparr>"
  show ?thesis
  proof (cases "find_command (argv ! 0) :: 'e command_spec option")
    case None
    then show ?thesis using d False by (simp add: dispatch_def Let_def)
  next
    case (Some sp)
    obtain r d1 where r: "route_check sv (\<lambda>i. clk (2 * i)) sp argv (case d_client d of Some c \<Rightarrow> c_asking c | None \<Rightarrow> False)
        (d_client ?d) ?d = (r, d1)" by (metis prod.exhaust)
    have d1: "kept P d1" by (rule kept_route_check [OF _ r]) (simp add: d)
    have h: "\<exists>out' d'. run_handler sv clk sp argv out d1 = Some (out', d') \<and> kept P d'"
    proof (cases "write_check sv sp (case d_client d1 of Some c \<Rightarrow> c_is_master c | None \<Rightarrow> False) d1")
      case None
      obtain o' d2 where o: "oom_check sv sp (case d_client d1 of Some c \<Rightarrow> c_is_master c | None \<Rightarrow> False) d1 = Some (o', d2)" "kept P d2"
        using kept_oom_check [OF d1] by blast
      show ?thesis
        using None o kept_handler [OF Some o(2), of "\<lambda>i. clk (2 * i + 1)" argv out]
        by (auto simp: run_handler_def Let_def split: option.split) (metis prod.exhaust snd_conv)
    qed (use d1 in \<open>simp add: run_handler_def\<close>)
    show ?thesis using False Some r d1 h d by (auto simp: dispatch_def Let_def split: option.split)
  qed
qed

end

end
