(* ===== verification/Server_Properties.thy ===== *)
theory Server_Properties
  imports Server Dispatcher_Properties
begin

text \<open>
  The invariant of the event loop and of the replication: the queues of the loop hold exactly the
  clients they are meant to hold, and every descriptor the replication keeps (its pointers to
  clients) belongs to a connection. Every command, hook and event keeps it, and every loop of the
  server returns.
\<close>

section \<open>The connections\<close>

definition client_ok :: "client \<Rightarrow> bool" where
  "client_ok c \<longleftrightarrow> c_repl_state c = kNone \<longrightarrow> c_repl_snapshot c = None"

lemma client_ok_fields [simp]:
  "client_ok (c\<lparr>c_pending_write := b\<rparr>) = client_ok c" "client_ok (c\<lparr>c_closing := b\<rparr>) = client_ok c"
  by (simp_all add: client_ok_def)

definition host_ok :: "host \<Rightarrow> bool" where
  "host_ok h \<longleftrightarrow>
     distinct (map fst (ho_conns h)) \<and>
     distinct (ho_pending_close h) \<and>
     (\<forall>fd. fd \<in> set (ho_pending_close h) \<longleftrightarrow> (\<exists>c. conn h fd = Some c \<and> c_closing c)) \<and>
     distinct (ho_pending_writes h) \<and>
     (\<forall>fd. fd \<in> set (ho_pending_writes h) \<longleftrightarrow> (\<exists>c. conn h fd = Some c \<and> c_pending_write c)) \<and>
     (\<forall>fd \<in> set (ho_held_clients h). conn h fd \<noteq> None) \<and>
     (\<forall>fd c. conn h fd = Some c \<longrightarrow> client_ok c)"

text \<open>What a client is to the others, and what it has still to execute.\<close>

definition role :: "client \<Rightarrow> bool \<times> bool" where
  "role c = (c_repl_state c \<noteq> kNone, c_is_master c)"

definition todo :: "client \<Rightarrow> bytes \<times> args option" where
  "todo c = (c_parser c, c_held_command c)"

text \<open>Nobody but the event loop itself changes \<open>todo\<close>; only the synchronisation changes \<open>role\<close>.\<close>

definition same_todo :: "host \<Rightarrow> host \<Rightarrow> bool" where
  "same_todo h h' \<longleftrightarrow>
     (\<forall>fd. map_option todo (conn h' fd) = map_option todo (conn h fd)) \<and>
     ho_writes_paused h' = ho_writes_paused h \<and> ho_held_clients h' = ho_held_clients h"

definition same_role :: "host \<Rightarrow> host \<Rightarrow> bool" where
  "same_role h h' \<longleftrightarrow> (\<forall>fd. map_option role (conn h' fd) = map_option role (conn h fd))"

text \<open>\<open>tame\<close>: an operation on the connections that keeps the queues exact and what is to be executed.\<close>

definition tame :: "(host \<Rightarrow> host) \<Rightarrow> bool" where
  "tame f \<longleftrightarrow> (\<forall>h. host_ok h \<longrightarrow> host_ok (f h) \<and> same_todo h (f h) \<and> (\<forall>fd. conn (f h) fd = None \<longleftrightarrow> conn h fd = None))"

definition steady :: "(host \<Rightarrow> host) \<Rightarrow> bool" where
  "steady f \<longleftrightarrow> tame f \<and> (\<forall>h. same_role h (f h))"

lemma conns_update: "fd \<in> fst ` set xs \<Longrightarrow> map fst (AList.update fd c xs) = map fst xs"
  by (induction xs) auto

lemma conn_dom: "conn h fd \<noteq> None \<longleftrightarrow> fd \<in> fst ` set (ho_conns h)"
  by (simp add: conn_def map_of_eq_None_iff)

lemma put_conn_fields [simp]:
  "ho_pending_close (put_conn fd c h) = ho_pending_close h" "ho_pending_writes (put_conn fd c h) = ho_pending_writes h"
  "ho_held_clients (put_conn fd c h) = ho_held_clients h" "ho_writes_paused (put_conn fd c h) = ho_writes_paused h"
  "ho_watchers (put_conn fd c h) = ho_watchers h" "ho_maxclients (put_conn fd c h) = ho_maxclients h"
  by (simp_all add: put_conn_def)

lemma change_fields [simp]:
  "ho_pending_close (change fd f h) = ho_pending_close h" "ho_pending_writes (change fd f h) = ho_pending_writes h"
  "ho_held_clients (change fd f h) = ho_held_clients h" "ho_writes_paused (change fd f h) = ho_writes_paused h"
  "ho_watchers (change fd f h) = ho_watchers h" "map fst (ho_conns (change fd f h)) = map fst (ho_conns h)"
  by (auto simp: change_def put_conn_def conns_update conn_dom [symmetric] split: option.splits)

lemma queue_write_fields [simp]:
  "ho_pending_close (queue_write fd h) = ho_pending_close h" "ho_held_clients (queue_write fd h) = ho_held_clients h"
  "ho_writes_paused (queue_write fd h) = ho_writes_paused h" "ho_watchers (queue_write fd h) = ho_watchers h"
  "map fst (ho_conns (queue_write fd h)) = map fst (ho_conns h)"
  by (auto simp: queue_write_def put_conn_def conns_update conn_dom [symmetric] split: option.splits)

lemma mark_closing_fields [simp]:
  "ho_pending_writes (mark_closing fd h) = ho_pending_writes h" "ho_held_clients (mark_closing fd h) = ho_held_clients h"
  "ho_writes_paused (mark_closing fd h) = ho_writes_paused h" "ho_watchers (mark_closing fd h) = ho_watchers h"
  "map fst (ho_conns (mark_closing fd h)) = map fst (ho_conns h)"
  by (auto simp: mark_closing_def put_conn_def conns_update conn_dom [symmetric] split: option.splits)

lemma host_ok_change:
  assumes "host_ok h" "\<And>c. conn h fd = Some c \<Longrightarrow> c_closing (f c) = c_closing c \<and> c_pending_write (f c) = c_pending_write c \<and> (client_ok c \<longrightarrow> client_ok (f c))"
  shows "host_ok (change fd f h)"
  using assms by (auto simp: host_ok_def)

lemma host_ok_queue_write: "host_ok h \<Longrightarrow> host_ok (queue_write fd h)"
proof (cases "conn h fd")
  case (Some c)
  assume h: "host_ok h"
  show ?thesis
  proof (cases "c_pending_write c")
    case False
    then have n: "fd \<notin> set (ho_pending_writes h)" using h Some by (auto simp: host_ok_def)
    have p: "ho_pending_writes (queue_write fd h) = ho_pending_writes h @ [fd]" using Some False by (simp add: queue_write_def)
    show ?thesis using h n Some unfolding host_ok_def p by (auto simp: p)
  qed (use h Some in \<open>simp add: queue_write_def\<close>)
qed (simp add: queue_write_def)

lemma host_ok_mark_closing: "host_ok h \<Longrightarrow> host_ok (mark_closing fd h)"
proof (cases "conn h fd")
  case (Some c)
  assume h: "host_ok h"
  show ?thesis
  proof (cases "c_closing c")
    case False
    then have n: "fd \<notin> set (ho_pending_close h)" using h Some by (auto simp: host_ok_def)
    have p: "ho_pending_close (mark_closing fd h) = ho_pending_close h @ [fd]" using Some False by (simp add: mark_closing_def)
    show ?thesis using h n Some unfolding host_ok_def p by (auto simp: p)
  qed (use h Some in \<open>simp add: mark_closing_def\<close>)
qed (simp add: mark_closing_def)

lemma steady_id: "steady (\<lambda>h. h)"
  by (simp add: steady_def tame_def same_todo_def same_role_def)

lemma tame_comp: "tame f \<Longrightarrow> tame g \<Longrightarrow> tame (\<lambda>h. f (g h))"
  by (auto simp: tame_def same_todo_def)

lemma steady_comp: "steady f \<Longrightarrow> steady g \<Longrightarrow> steady (\<lambda>h. f (g h))"
  by (auto simp: steady_def tame_comp same_role_def)

lemma steady_fold: "(\<And>fd. fd \<in> set fds \<Longrightarrow> steady (f fd)) \<Longrightarrow> steady (fold f fds)"
proof (induction fds)
  case (Cons fd fds)
  have "steady (\<lambda>h. fold f fds (f fd h))" by (rule steady_comp) (auto simp: Cons)
  moreover have "fold f (fd # fds) = (\<lambda>h. fold f fds (f fd h))" by auto
  ultimately show ?case by simp
qed (use steady_id in \<open>simp add: id_def\<close>)

lemma steady_if: "steady f \<Longrightarrow> steady g \<Longrightarrow> steady (\<lambda>h. if P h then f h else g h)"
  by (auto simp: steady_def tame_def)

lemma steady_case: "(\<And>c. steady (f c)) \<Longrightarrow> steady g \<Longrightarrow> steady (\<lambda>h. case k h of None \<Rightarrow> g h | Some c \<Rightarrow> f c h)"
  by (auto simp: steady_def tame_def split: option.splits)

lemma tame_change:
  assumes "\<And>c. c_closing (f c) = c_closing c" "\<And>c. c_pending_write (f c) = c_pending_write c" "\<And>c. todo (f c) = todo c"
    "\<And>c. client_ok c \<Longrightarrow> client_ok (f c)"
  shows "tame (change fd f)"
  using assms by (auto simp: tame_def same_todo_def host_ok_change option.map_comp comp_def)

lemma steady_change:
  assumes "\<And>c. c_closing (f c) = c_closing c" "\<And>c. c_pending_write (f c) = c_pending_write c" "\<And>c. todo (f c) = todo c"
    "\<And>c. client_ok c \<Longrightarrow> client_ok (f c)"
    "\<And>c. role (f c) = role c"
  shows "steady (change fd f)"
  using assms by (auto simp: steady_def tame_change same_role_def option.map_comp comp_def)

lemma steady_queue_write: "steady (queue_write fd)"
  by (auto simp: steady_def tame_def same_todo_def same_role_def host_ok_queue_write option.map_comp comp_def todo_def [abs_def] role_def [abs_def])

lemma steady_mark_closing: "steady (mark_closing fd)"
  by (auto simp: steady_def tame_def same_todo_def same_role_def host_ok_mark_closing option.map_comp comp_def todo_def [abs_def] role_def [abs_def])

lemma steady_watchers: "steady (unwatch fd)" "steady (\<lambda>h. snd (watch b fd h))"
  by (auto simp: steady_def tame_def same_todo_def same_role_def host_ok_def unwatch_def watch_def)

lemmas steady_intros = steady_comp [OF steady_queue_write] steady_change steady_queue_write steady_mark_closing steady_watchers

lemma steady_feed_replica: "steady (feed_replica data fd)"
proof -
  have "feed_replica data fd h =
      (case conn h fd of
         None \<Rightarrow> h
       | Some c \<Rightarrow>
           (\<lambda>h. if c_closing c \<or> c_repl_state c \<in> {kNone, kWaitBgsaveStart} then h
            else
              let h = (if c_repl_state c = kOnline then queue_write fd (change fd (\<lambda>c. c\<lparr>c_out := c_out c @ data\<rparr>) h)
                       else change fd (\<lambda>c. c\<lparr>c_repl_held := c_repl_held c @ data\<rparr>) h)
              in if length (c_out c) + length (c_repl_held c) + length data > kMaxReplicaBufferBytes
                 then mark_closing fd h else h) h)" for h
    by (auto simp: feed_replica_def Let_def split: option.split repl_state.split)
  then have "feed_replica data fd = (\<lambda>h. case conn h fd of
         None \<Rightarrow> h
       | Some c \<Rightarrow>
           (\<lambda>h. if c_closing c \<or> c_repl_state c \<in> {kNone, kWaitBgsaveStart} then h
            else
              let h = (if c_repl_state c = kOnline then queue_write fd (change fd (\<lambda>c. c\<lparr>c_out := c_out c @ data\<rparr>) h)
                       else change fd (\<lambda>c. c\<lparr>c_repl_held := c_repl_held c @ data\<rparr>) h)
              in if length (c_out c) + length (c_repl_held c) + length data > kMaxReplicaBufferBytes
                 then mark_closing fd h else h) h)" by auto
  moreover have "steady \<dots>"
    unfolding Let_def
    by (intro steady_case steady_if steady_comp [OF steady_mark_closing] steady_intros steady_id)
      (simp_all add: todo_def role_def client_ok_def)
  ultimately show ?thesis by simp
qed

section \<open>The replication\<close>

definition bl_ok :: "repl_backlog \<Rightarrow> bool" where
  "bl_ok b \<longleftrightarrow> (\<exists>base h. bl_holds base h b) \<and> 0 < bl_capacity b"

text \<open>The descriptors the replication keeps are connections, and the replicas are those that replicate.\<close>

definition refs_ok :: "replication \<Rightarrow> host \<Rightarrow> bool" where
  "refs_ok r h \<longleftrightarrow>
     distinct (rp_replicas r) \<and>
     (\<forall>fd. fd \<in> set (rp_replicas r) \<longleftrightarrow> (\<exists>c. conn h fd = Some c \<and> c_repl_state c \<noteq> kNone)) \<and>
     (\<forall>w \<in> set (rp_waiters r). conn h (wt_client w) \<noteq> None) \<and>
     (\<forall>fd \<in> set (rp_to_resume r). conn h fd \<noteq> None) \<and>
     (\<forall>fd. rp_master r = Some fd \<longrightarrow> (\<exists>c. conn h fd = Some c \<and> c_is_master c)) \<and>
     (\<forall>fd. rp_link_fd r = Some fd \<longrightarrow> conn h fd = None)"

definition rs_ok :: "rstate \<Rightarrow> bool" where
  "rs_ok s \<longleftrightarrow> host_ok (rs_host s) \<and> refs_ok (rs_repl s) (rs_host s) \<and> bl_ok (rp_backlog (rs_repl s))"

lemma same_role_iff:
  assumes "same_role h h'"
  shows "(\<exists>c. conn h' fd = Some c \<and> c_repl_state c \<noteq> kNone) \<longleftrightarrow> (\<exists>c. conn h fd = Some c \<and> c_repl_state c \<noteq> kNone)"
    "(\<exists>c. conn h' fd = Some c \<and> c_is_master c) \<longleftrightarrow> (\<exists>c. conn h fd = Some c \<and> c_is_master c)"
    "conn h' fd = None \<longleftrightarrow> conn h fd = None"
proof -
  have "map_option role (conn h' fd) = map_option role (conn h fd)" using assms by (simp add: same_role_def)
  then show "(\<exists>c. conn h' fd = Some c \<and> c_repl_state c \<noteq> kNone) \<longleftrightarrow> (\<exists>c. conn h fd = Some c \<and> c_repl_state c \<noteq> kNone)"
    "(\<exists>c. conn h' fd = Some c \<and> c_is_master c) \<longleftrightarrow> (\<exists>c. conn h fd = Some c \<and> c_is_master c)"
    "conn h' fd = None \<longleftrightarrow> conn h fd = None"
    by (cases "conn h fd"; cases "conn h' fd"; auto simp: role_def)+
qed

lemma refs_ok_role: "same_role h h' \<Longrightarrow> refs_ok r h' = refs_ok r h"
  by (simp add: refs_ok_def same_role_iff)

lemma rs_ok_steady: "steady f \<Longrightarrow> rs_ok s \<Longrightarrow> rs_ok (host_upd f s)"
  using refs_ok_role [of "rs_host s" "f (rs_host s)"] by (auto simp: steady_def tame_def rs_ok_def)

text \<open>Fields of the replication the invariant does not speak about.\<close>

definition same_refs :: "replication \<Rightarrow> replication \<Rightarrow> bool" where
  "same_refs r r' \<longleftrightarrow>
     rp_replicas r' = rp_replicas r \<and> rp_waiters r' = rp_waiters r \<and> rp_to_resume r' = rp_to_resume r \<and>
     rp_master r' = rp_master r \<and> rp_link_fd r' = rp_link_fd r \<and> rp_backlog r' = rp_backlog r"

lemma rs_ok_repl: "(\<And>r. same_refs r (f r)) \<Longrightarrow> rs_ok s \<Longrightarrow> rs_ok (repl_upd f s)"
  by (simp add: rs_ok_def refs_ok_def same_refs_def)

lemma bl_ok_append:
  assumes "bl_ok b" shows "\<exists>b'. bl_append data b = Some b' \<and> bl_ok b'"
proof -
  obtain base h where h: "bl_holds base h b" "0 < bl_capacity b" using assms by (auto simp: bl_ok_def)
  from bl_append_holds [OF this(1), of data] show ?thesis using h(2) unfolding bl_ok_def by fastforce
qed

lemma rs_ok_feed: "rs_ok s \<Longrightarrow> rs_ok (repl_feed data s)"
proof -
  assume s: "rs_ok s"
  then obtain b where b: "bl_append data (rp_backlog (rs_repl s)) = Some b" "bl_ok b"
    using bl_ok_append by (auto simp: rs_ok_def)
  let ?s = "repl_upd (\<lambda>r. r\<lparr>rp_backlog := the (bl_append data (rp_backlog r))\<rparr>) s"
  have "rs_ok ?s" using s b by (simp add: rs_ok_def refs_ok_def)
  from rs_ok_steady [OF steady_fold this, of "rp_replicas (rs_repl ?s)" "feed_replica data"] show ?thesis
    by (simp add: repl_feed_def Let_def steady_feed_replica)
qed

lemma same_todo_refl [simp]: "same_todo h h"
  by (simp add: same_todo_def)

lemma same_todo_trans: "same_todo h h' \<Longrightarrow> same_todo h' h'' \<Longrightarrow> same_todo h h''"
  by (simp add: same_todo_def)

text \<open>\<open>safe\<close>: an operation of the replication keeps the invariant, and no client gains or loses input.\<close>

definition safe :: "(rstate \<Rightarrow> rstate) \<Rightarrow> bool" where
  "safe f \<longleftrightarrow> (\<forall>s. rs_ok s \<longrightarrow> rs_ok (f s) \<and> same_todo (rs_host s) (rs_host (f s)))"

lemma safeD: "safe f \<Longrightarrow> rs_ok s \<Longrightarrow> rs_ok (f s)" "safe f \<Longrightarrow> rs_ok s \<Longrightarrow> same_todo (rs_host s) (rs_host (f s))"
  by (simp_all add: safe_def)

lemma safe_comp: "safe f \<Longrightarrow> safe g \<Longrightarrow> safe (\<lambda>s. f (g s))"
  unfolding safe_def using same_todo_trans by blast

lemma safe_id: "safe (\<lambda>s. s)"
  by (simp add: safe_def)

lemma safe_if: "safe f \<Longrightarrow> safe g \<Longrightarrow> safe (\<lambda>s. if P s then f s else g s)"
  by (simp add: safe_def)

lemma safe_dep: "(\<And>x. safe (f x)) \<Longrightarrow> safe (\<lambda>s. f (k s) s)"
  by (simp add: safe_def)

lemma safe_host: "steady f \<Longrightarrow> safe (host_upd f)"
  by (auto simp: safe_def rs_ok_steady) (auto simp: steady_def tame_def rs_ok_def)

lemma safe_repl: "(\<And>r. same_refs r (f r)) \<Longrightarrow> safe (repl_upd f)"
  by (auto simp: safe_def rs_ok_repl)

lemma steady_replicas: "(\<And>fd. steady (f fd)) \<Longrightarrow> safe (\<lambda>s. host_upd (fold f (rp_replicas (rs_repl s))) s)"
  by (rule safe_dep [of "\<lambda>fds. host_upd (fold f fds)"]) (simp add: safe_host steady_fold)

lemma safe_feed: "safe (repl_feed data)"
proof -
  have "same_todo (rs_host s) (rs_host (repl_feed data s))" if "rs_ok s" for s
    using that steady_fold [of "rp_replicas (rs_repl s)" "feed_replica data"] steady_feed_replica
    by (simp add: repl_feed_def Let_def steady_def tame_def rs_ok_def)
  then show ?thesis by (simp add: safe_def rs_ok_feed)
qed

lemma safe_propagate: "safe (repl_propagate argv)"
  unfolding repl_propagate_def [abs_def] by (intro safe_if safe_id safe_feed)

lemma safe_disconnect: "safe disconnect_replicas"
  unfolding disconnect_replicas_def [abs_def] by (rule steady_replicas) (rule steady_mark_closing)

text \<open>An operation is safe if on every state it does what some safe operation does.\<close>

lemma safe_pointwise: "(\<And>s. \<exists>g. safe g \<and> f s = g s) \<Longrightarrow> safe f"
  unfolding safe_def by metis

lemma safe_send_ack: "safe send_ack"
proof (rule safe_pointwise)
  fix s
  have "safe (host_upd (\<lambda>h. queue_write fd (change fd (\<lambda>c. c\<lparr>c_out := reply_command (c_out c)
      [''REPLCONF'', ''ACK'', to_string_u64 ofs]\<rparr>) h)))" for fd ofs
    by (intro safe_host steady_intros) (simp_all add: todo_def role_def client_ok_def)
  then show "\<exists>g. safe g \<and> send_ack s = g s"
    using safe_id unfolding send_ack_def by (cases "rp_master (rs_repl s)") auto
qed

lemma safe_acks: "safe (replconf_ack now fd ofs)" "safe replconf_getack" "safe (release fd n)" "safe request_acks"
proof -
  show "safe (replconf_ack now fd ofs)"
    unfolding replconf_ack_def [abs_def] by (intro safe_host steady_change) (simp_all add: todo_def role_def client_ok_def)
  show "safe replconf_getack" unfolding replconf_getack_def [abs_def] by (intro safe_if safe_send_ack safe_id)
  show "safe (release fd n)"
    unfolding release_def [abs_def] by (intro safe_host steady_change) (simp_all add: todo_def role_def client_ok_def)
  show "safe request_acks"
    unfolding request_acks_def [abs_def] Let_def
    by (intro safe_if safe_id safe_comp [OF safe_propagate] safe_repl) (simp_all add: same_refs_def)
qed

section \<open>Operations on replicas\<close>

lemma steady_pointwise: "(\<And>h. \<exists>g. steady g \<and> f h = g h) \<Longrightarrow> steady f"
  unfolding steady_def tame_def same_role_def by metis

lemma change_cong: "(\<And>c. conn h fd = Some c \<Longrightarrow> f c = g c) \<Longrightarrow> change fd f h = change fd g h"
  by (simp add: change_def split: option.split)

lemma steady_change_replica:
  assumes "\<And>c. c_closing (f c) = c_closing c" "\<And>c. c_pending_write (f c) = c_pending_write c" "\<And>c. todo (f c) = todo c"
    "\<And>c. client_ok c \<Longrightarrow> client_ok (f c)"
    "\<And>c. c_repl_state c \<noteq> kNone \<Longrightarrow> role (f c) = role c"
  shows "steady (change fd (\<lambda>c. if c_repl_state c \<noteq> kNone then f c else c))"
  using assms by (intro steady_change) (simp_all add: role_def)

lemma steady_announce: "steady (announce_full_resync line fd)"
proof (rule steady_pointwise)
  fix h
  let ?f = "\<lambda>c. c\<lparr>c_repl_state := kWaitBgsaveEnd, c_out := reply_simple_string (c_out c) line\<rparr>"
  have "steady (\<lambda>h. queue_write fd (change fd (\<lambda>c. if c_repl_state c \<noteq> kNone then ?f c else c) h))"
    by (intro steady_comp [OF steady_queue_write] steady_change_replica) (simp_all add: todo_def role_def client_ok_def)
  moreover have "change fd ?f h = change fd (\<lambda>c. if c_repl_state c \<noteq> kNone then ?f c else c) h" if "waits_for_start h fd"
    using that by (intro change_cong) (simp add: waits_for_start_def)
  ultimately show "\<exists>g. steady g \<and> announce_full_resync line fd h = g h"
    using steady_id unfolding announce_full_resync_def id_def by (cases "waits_for_start h fd") auto
qed

lemma steady_offer: "steady (offer_snapshot ok opened snap fd)"
proof (rule steady_pointwise)
  fix h
  let ?f = "\<lambda>c. c\<lparr>c_repl_snapshot := Some snap, c_out := c_out c @ ''$'' @ to_string_nat (length snap) @ crlf, c_repl_state := kSendBulk\<rparr>"
  have "steady (\<lambda>h. queue_write fd (change fd (\<lambda>c. if c_repl_state c \<noteq> kNone then ?f c else c) h))"
    by (intro steady_comp [OF steady_queue_write] steady_change_replica) (simp_all add: todo_def role_def client_ok_def)
  moreover have "change fd ?f h = change fd (\<lambda>c. if c_repl_state c \<noteq> kNone then ?f c else c) h"
    if "conn h fd = Some c" "c_repl_state c = kWaitBgsaveEnd" for c using that by (intro change_cong) simp
  ultimately show "\<exists>g. steady g \<and> offer_snapshot ok opened snap fd h = g h"
    using steady_id steady_mark_closing unfolding offer_snapshot_def id_def by (cases "conn h fd") auto
qed

lemma steady_offers: "steady (offer_snapshots ok opened snap fds)"
proof (induction fds arbitrary: opened)
  case (Cons fd fds)
  have "steady (\<lambda>h. offer_snapshots ok (\<lambda>i. opened (Suc i)) snap fds (offer_snapshot ok (opened 0) snap fd h))"
    by (rule steady_comp [OF Cons steady_offer])
  moreover have "offer_snapshots ok opened snap (fd # fds) =
      (\<lambda>h. offer_snapshots ok (\<lambda>i. opened (Suc i)) snap fds (offer_snapshot ok (opened 0) snap fd h))" by auto
  ultimately show ?case by simp
next
  case Nil
  have "offer_snapshots ok opened snap [] = (\<lambda>h. h)" by auto
  then show ?case using steady_id by simp
qed

lemma safe_snapshot_finished: "safe (snapshot_finished ok opened snap)"
  unfolding snapshot_finished_def [abs_def]
  by (rule safe_dep [of "\<lambda>fds. host_upd (offer_snapshots ok opened snap fds)"]) (simp add: safe_host steady_offers)

lemma steady_cron_replica: "steady (cron_replica t timeout fd)"
proof (rule steady_pointwise)
  fix h
  have "steady (\<lambda>h. queue_write fd (change fd (\<lambda>c. c\<lparr>c_out := c_out c @ [CHR 0x0A]\<rparr>) h))"
    by (intro steady_comp [OF steady_queue_write] steady_change) (simp_all add: todo_def role_def client_ok_def)
  then show "\<exists>g. steady g \<and> cron_replica t timeout fd h = g h"
    using steady_id steady_mark_closing unfolding cron_replica_def id_def by (cases "conn h fd") auto
qed

section \<open>The environment of a command\<close>

text \<open>\<open>h0\<close> is the host when the command starts.\<close>

definition env_ok :: "host \<Rightarrow> renv \<Rightarrow> bool" where
  "env_ok h0 e \<longleftrightarrow> rs_ok (en_repl e) \<and> same_todo h0 (rs_host (en_repl e))"

lemma env_ok_safe: "safe f \<Longrightarrow> env_ok h0 e \<Longrightarrow> env_ok h0 (e\<lparr>en_repl := f (en_repl e)\<rparr>)"
  by (auto simp: env_ok_def safe_def intro: same_todo_trans)

lemma env_ok_fields [simp]:
  "env_ok h0 (e\<lparr>en_files := x\<rparr>) = env_ok h0 e" "env_ok h0 (e\<lparr>en_pers := p\<rparr>) = env_ok h0 e"
  "env_ok h0 (e\<lparr>en_log := l\<rparr>) = env_ok h0 e"
  by (simp_all add: env_ok_def)

lemma same_todo_None: "same_todo h h' \<Longrightarrow> conn h' fd = None \<longleftrightarrow> conn h fd = None"
  by (auto simp: same_todo_def) (metis map_option_is_None)+

lemma env_ok_start_snapshot:
  assumes "env_ok h0 e" shows "env_ok h0 (start_snapshot_for_replicas se sio e)"
proof -
  let ?r = "rs_repl (en_repl e)"
  obtain err fs p where b: "bgsave se sio (en_files e) (en_pers e) = (err, fs, p)" by (metis prod.exhaust)
  have e: "env_ok h0 (e\<lparr>en_files := fs, en_pers := p\<rparr>)" using assms by (simp add: env_ok_def)
  have "steady (\<lambda>h. if waits_for_start h fd then mark_closing fd h else h)" for fd
    using steady_if [OF steady_mark_closing steady_id, of "\<lambda>h. waits_for_start h fd" fd] by simp
  then have 1: "safe (host_upd (fold (\<lambda>fd h. if waits_for_start h fd then mark_closing fd h else h) (rp_replicas ?r)))"
    by (intro safe_host steady_fold)
  have 2: "safe (\<lambda>s. repl_upd (\<lambda>r. r\<lparr>rp_replid_shared := True\<rparr>) (host_upd (fold (announce_full_resync
      (''FULLRESYNC '' @ rp_replid ?r @ '' '' @ to_string_u64 (repl_offset ?r))) (rp_replicas ?r)) s))"
    by (intro safe_comp [OF safe_repl] safe_host steady_fold steady_announce) (simp add: same_refs_def)
  show ?thesis
    using assms env_ok_safe [OF 1 e] env_ok_safe [OF 2 e]
    by (cases err) (simp_all add: start_snapshot_for_replicas_def Let_def b)
qed

lemma env_ok_close_link:
  assumes "env_ok h0 e" shows "env_ok h0 (close_link e)"
proof -
  let ?r = "rs_repl (en_repl e)"
  let ?s1 = "case rp_master ?r of None \<Rightarrow> en_repl e | Some fd \<Rightarrow> host_upd (mark_closing fd) (en_repl e)"
  let ?s2 = "case rp_link_fd ?r of None \<Rightarrow> ?s1 | Some fd \<Rightarrow> host_upd (unwatch fd) ?s1"
  have ok: "rs_ok (en_repl e)" "same_todo h0 (rs_host (en_repl e))" using assms by (simp_all add: env_ok_def)
  have 1: "rs_ok ?s1" "same_todo h0 (rs_host ?s1)"
    using ok safeD [OF safe_host [OF steady_mark_closing]] same_todo_trans by (auto split: option.split)
  have 2: "rs_ok ?s2" "same_todo h0 (rs_host ?s2)"
    using 1 safeD [OF safe_host [OF steady_watchers(1)] 1(1)] same_todo_trans [OF 1(2)] by (auto split: option.split)
  have "rs_ok (repl_upd (\<lambda>r. r\<lparr>rp_master := None, rp_link_fd := None, rp_transfer_open := False, rp_transfer_path := [],
      rp_link_buf := []\<rparr>) ?s2)"
    using 2(1) by (simp add: rs_ok_def refs_ok_def)
  then show ?thesis using 2(2) by (simp add: env_ok_def close_link_def Let_def)
qed

lemma env_ok_repl: "(\<And>r. same_refs r (f r)) \<Longrightarrow> env_ok h0 e \<Longrightarrow> env_ok h0 (e\<lparr>en_repl := repl_upd f (en_repl e)\<rparr>)"
  by (rule env_ok_safe [OF safe_repl])

lemma env_ok_abort_link: "env_ok h0 e \<Longrightarrow> env_ok h0 (abort_link now e)"
  unfolding abort_link_def Let_def by (rule env_ok_repl [OF _ env_ok_close_link]) (simp_all add: same_refs_def)

lemma tame_host:
  "tame f \<Longrightarrow> host_ok h \<Longrightarrow> host_ok (f h)" "tame f \<Longrightarrow> host_ok h \<Longrightarrow> same_todo h (f h)"
  "tame f \<Longrightarrow> host_ok h \<Longrightarrow> conn (f h) fd = None \<longleftrightarrow> conn h fd = None"
  by (simp_all add: tame_def)

lemma new_replica:
  assumes "rs_ok s" "conn (rs_host s) fd = Some c" "c_repl_state c = kNone" "same_refs (rs_repl s) (r\<lparr>rp_replicas := rp_replicas (rs_repl s)\<rparr>)"
    "rp_replicas r = rp_replicas (rs_repl s) @ [fd]"
    "\<And>c. c_closing (f c) = c_closing c" "\<And>c. c_pending_write (f c) = c_pending_write c" "\<And>c. todo (f c) = todo c"
    "\<And>c. c_repl_state (f c) \<noteq> kNone" "\<And>c. c_is_master (f c) = c_is_master c"
  shows "rs_ok \<lparr>rs_repl = r, rs_host = change fd f (rs_host s)\<rparr>" "same_todo (rs_host s) (change fd f (rs_host s))"
proof -
  have ok: "host_ok (rs_host s)" "refs_ok (rs_repl s) (rs_host s)" using assms(1) by (simp_all add: rs_ok_def)
  have "client_ok (f c)" for c using assms(9) by (simp add: client_ok_def)
  note t = tame_change [of f fd, OF assms(6-8) this]
  show "same_todo (rs_host s) (change fd f (rs_host s))" by (rule tame_host(2) [OF t ok(1)])
  have "fd \<notin> set (rp_replicas (rs_repl s))" using ok(2) assms(2,3) by (auto simp: refs_ok_def)
  then have "refs_ok r (change fd f (rs_host s))"
    using ok(2) assms(2,4,5,9,10) unfolding refs_ok_def same_refs_def by auto
  then show "rs_ok \<lparr>rs_repl = r, rs_host = change fd f (rs_host s)\<rparr>"
    using tame_host(1) [OF t ok(1)] assms(1,4) by (simp add: rs_ok_def same_refs_def)
qed

lemma rs_upds: "repl_upd f (host_upd g s) = \<lparr>rs_repl = f (rs_repl s), rs_host = g (rs_host s)\<rparr>"
  by simp

lemma try_partial_ok:
  assumes s: "rs_ok s" "conn (rs_host s) fd = Some c" "c_repl_state c = kNone" and t: "try_partial_resync fd replid ofs s = (b, s')"
  shows "rs_ok s' \<and> same_todo (rs_host s) (rs_host s') \<and> (\<not> b \<longrightarrow> s' = s)"
proof (cases b)
  case True
  define r where "r = (rs_repl s)\<lparr>rp_replicas := rp_replicas (rs_repl s) @ [fd], rp_replid_shared := True\<rparr>"
  define f :: "client \<Rightarrow> client" where "f = (\<lambda>c. c\<lparr>c_out := the (bl_copy_from (of_int ofs) (rp_backlog (rs_repl s))
      (reply_simple_string (c_out c) (''CONTINUE '' @ rp_replid (rs_repl s)))),
      c_repl_state := kOnline, c_repl_ack_offset := of_int ofs\<rparr>)"
  have "s' = \<lparr>rs_repl = r, rs_host = change fd f (rs_host s)\<rparr>"
    using t True by (auto simp: try_partial_resync_def Let_def r_def f_def split: if_splits)
  then show ?thesis
    using new_replica [OF s, of r f] True by (auto simp: r_def f_def same_refs_def todo_def)
next
  case False
  then show ?thesis using t s(1) by (auto simp: try_partial_resync_def Let_def split: if_splits)
qed

lemma psync_ok:
  assumes e: "env_ok h0 e" shows "env_ok h0 (snd (psync se sio now fd replid ofs out e))"
proof (cases "conn (rs_host (en_repl e)) fd")
  case (Some c)
  let ?s = "repl_upd (\<lambda>r. r\<lparr>rp_stream_started := True\<rparr>)
      (host_upd (change fd (\<lambda>c. c\<lparr>c_repl_ack_time := now, c_out := out\<rparr>)) (en_repl e))"
  have 1: "safe (\<lambda>s. repl_upd (\<lambda>r. r\<lparr>rp_stream_started := True\<rparr>) (host_upd (change fd (\<lambda>c. c\<lparr>c_repl_ack_time := now, c_out := out\<rparr>)) s))"
    by (intro safe_comp [OF safe_repl] safe_host steady_change) (simp_all add: same_refs_def todo_def role_def client_ok_def)
  have s: "rs_ok ?s" "same_todo h0 (rs_host ?s)" using env_ok_safe [OF 1 e] by (simp_all add: env_ok_def)
  let ?c = "c\<lparr>c_repl_ack_time := now, c_out := out\<rparr>"
  have c: "conn (rs_host ?s) fd = Some ?c" using Some by simp
  show ?thesis
  proof (cases "c_repl_state c \<noteq> kNone \<or> c_is_master c \<or> is_replica (rs_repl (en_repl e)) \<and> rp_link_state (rs_repl (en_repl e)) \<noteq> kConnected")
    case True
    then show ?thesis using e Some by (auto simp: psync_def Let_def)
  next
    case False
    obtain b s' where t: "try_partial_resync fd replid ofs ?s = (b, s')" by (metis prod.exhaust)
    have s': "rs_ok s'" "same_todo h0 (rs_host s')" "\<not> b \<Longrightarrow> s' = ?s"
      using try_partial_ok [OF s(1) c _ t] False same_todo_trans [OF s(2)] by auto
    have p: "psync se sio now fd replid ofs out e =
       (let e = (if b then e\<lparr>en_repl := repl_upd (\<lambda>r. r\<lparr>rp_sync_partial_ok := rp_sync_partial_ok r + 1\<rparr>) s'\<rparr>
                 else start_snapshot_for_replicas se sio
                         (e\<lparr>en_repl :=
                            repl_upd (\<lambda>r. r\<lparr>rp_sync_partial_err := (if replid \<noteq> ''?'' then rp_sync_partial_err r + 1
                                                                      else rp_sync_partial_err r),
                                             rp_sync_full := rp_sync_full r + 1,
                                             rp_replicas := rp_replicas r @ [fd]\<rparr>)
                              (host_upd (change fd (\<lambda>c. c\<lparr>c_repl_state := kWaitBgsaveStart\<rparr>)) s')\<rparr>))
        in (case conn (rs_host (en_repl e)) fd of Some c \<Rightarrow> c_out c | None \<Rightarrow> out, e))"
      using False Some t by (cases b; cases "is_replica (rs_repl (en_repl e))") (simp_all add: psync_def Let_def)
    show ?thesis
    proof (cases b)
      case True
      have "env_ok h0 (e\<lparr>en_repl := s'\<rparr>)" using s' by (simp add: env_ok_def)
      from env_ok_repl [OF _ this, of "\<lambda>r. r\<lparr>rp_sync_partial_ok := rp_sync_partial_ok r + 1\<rparr>"] show ?thesis
        unfolding p Let_def using True by (simp add: same_refs_def)
    next
      case f: False
      have "c_repl_state ?c = kNone" using False by simp
      from new_replica [OF s(1) c this, of "(rs_repl ?s)\<lparr>rp_sync_partial_err := (if replid \<noteq> ''?'' then rp_sync_partial_err (rs_repl ?s) + 1
            else rp_sync_partial_err (rs_repl ?s)), rp_sync_full := rp_sync_full (rs_repl ?s) + 1,
            rp_replicas := rp_replicas (rs_repl ?s) @ [fd]\<rparr>" "\<lambda>c. c\<lparr>c_repl_state := kWaitBgsaveStart\<rparr>"] same_todo_trans [OF s(2)]
      have "env_ok h0 (e\<lparr>en_repl := repl_upd (\<lambda>r. r\<lparr>rp_sync_partial_err := (if replid \<noteq> ''?'' then rp_sync_partial_err r + 1
            else rp_sync_partial_err r), rp_sync_full := rp_sync_full r + 1, rp_replicas := rp_replicas r @ [fd]\<rparr>)
          (host_upd (change fd (\<lambda>c. c\<lparr>c_repl_state := kWaitBgsaveStart\<rparr>)) ?s)\<rparr>)"
        by (cases "replid = ''?''") (simp_all add: env_ok_def same_refs_def todo_def rs_upds)
      from env_ok_start_snapshot [OF this] show ?thesis unfolding p Let_def using f s'(3) by simp
    qed
  qed
qed (simp add: psync_def e)

lemma wait_ok:
  assumes "env_ok h0 e" "conn h0 fd \<noteq> None" "repl_wait now fd n timeout out (en_repl e) = (b, out', s')"
  shows "env_ok h0 (e\<lparr>en_repl := s'\<rparr>)"
proof -
  have t: "steady (change fd (\<lambda>c. c\<lparr>c_blocked := True\<rparr>))"
    by (rule steady_change) (simp_all add: todo_def role_def client_ok_def)
  have 1: "env_ok h0 (e\<lparr>en_repl := host_upd (change fd (\<lambda>c. c\<lparr>c_blocked := True\<rparr>)) (en_repl e)\<rparr>)"
    by (rule env_ok_safe [OF safe_host [OF t] assms(1)])
  have 2: "conn (rs_host (en_repl e)) fd \<noteq> None" using same_todo_None [of h0 "rs_host (en_repl e)"] assms(1,2) by (simp add: env_ok_def)
  have "env_ok h0 (e\<lparr>en_repl := repl_upd (\<lambda>r. r\<lparr>rp_waiters := rp_waiters r @ [w], rp_get_ack_pending := True\<rparr>)
     (host_upd (change fd (\<lambda>c. c\<lparr>c_blocked := True\<rparr>)) (en_repl e))\<rparr>)" if "wt_client w = fd" for w
    using 1 2 that by (auto simp: env_ok_def rs_ok_def refs_ok_def)
  then show ?thesis using assms(1,3) by (auto simp: repl_wait_def Let_def split: if_splits)
qed

lemma unblock_forced_ok:
  assumes "rs_ok s" "\<forall>w \<in> set ws. conn (rs_host s) (wt_client w) \<noteq> None"
  shows "rs_ok (fold unblock_forced ws s) \<and> same_todo (rs_host s) (rs_host (fold unblock_forced ws s))"
  using assms
proof (induction ws arbitrary: s)
  case (Cons w ws)
  let ?f = "\<lambda>c. c\<lparr>c_out := reply_error (c_out c)
            (''UNBLOCKED force unblock from blocking operation, instance state changed '' @
             ''(master -> replica?)''), c_blocked := False\<rparr>"
  have "safe (host_upd (change (wt_client w) ?f))"
    by (intro safe_host steady_change) (simp_all add: todo_def role_def client_ok_def)
  from safeD [OF this Cons.prems(1)] have 1: "rs_ok (unblock_forced w s)" "same_todo (rs_host s) (rs_host (unblock_forced w s))"
    using Cons.prems(2) by (auto simp: unblock_forced_def rs_ok_def refs_ok_def)
  from Cons.IH [OF this(1)] Cons.prems(2) same_todo_None [OF 1(2)] show ?case using same_todo_trans [OF 1(2)] by auto
qed simp

lemma store_inv_passive: "store_inv (set_passive_expiry on st) = store_inv st"
  by (simp add: set_passive_expiry_def store_inv_def st_kv_def)

lemma replicaof_ok:
  assumes "env_ok h0 e" "store_inv st"
  shows "store_inv (fst (replicaof now now' host port st e)) \<and> env_ok h0 (snd (replicaof now now' host port st e))"
proof -
  define e1 where "e1 = close_link e"
  define s1 where "s1 = disconnect_replicas (repl_upd (\<lambda>r. r\<lparr>rp_stream_started := True, rp_master_host := host, rp_master_port := port,
      rp_link_state := kConnect, rp_next_connect := now, rp_link_down_since := now'\<rparr>) (en_repl e1))"
  have "safe (\<lambda>s. disconnect_replicas (repl_upd (\<lambda>r. r\<lparr>rp_stream_started := True, rp_master_host := host, rp_master_port := port,
      rp_link_state := kConnect, rp_next_connect := now, rp_link_down_since := now'\<rparr>) s))"
    by (intro safe_comp [OF safe_disconnect] safe_repl) (simp add: same_refs_def)
  from env_ok_safe [OF this env_ok_close_link [OF assms(1)]] have 1: "env_ok h0 (e1\<lparr>en_repl := s1\<rparr>)"
    by (simp add: s1_def e1_def)
  let ?s2 = "repl_upd (\<lambda>r. r\<lparr>rp_waiters := []\<rparr>) s1"
  have 2: "rs_ok ?s2" "same_todo h0 (rs_host ?s2)" "\<forall>w \<in> set (rp_waiters (rs_repl s1)). conn (rs_host ?s2) (wt_client w) \<noteq> None"
    using 1 by (auto simp: env_ok_def rs_ok_def refs_ok_def)
  from unblock_forced_ok [OF 2(1,3)] same_todo_trans [OF 2(2)]
  have "env_ok h0 (e1\<lparr>en_repl := fold unblock_forced (rp_waiters (rs_repl s1)) ?s2\<rparr>)" by (simp add: env_ok_def)
  then show ?thesis
    using assms by (simp add: replicaof_def Let_def store_inv_passive s1_def [symmetric] e1_def [symmetric])
qed

lemma replicaof_no_one_ok:
  assumes "env_ok h0 e" "store_inv st"
  shows "store_inv (fst (replicaof_no_one draws st e)) \<and> env_ok h0 (snd (replicaof_no_one draws st e))"
proof -
  have "safe (\<lambda>s. disconnect_replicas (repl_upd (\<lambda>r. shift_replid draws
      (r\<lparr>rp_master_host := [], rp_master_port := 0, rp_link_state := kLinkNone\<rparr>)) s))"
    by (intro safe_comp [OF safe_disconnect] safe_repl) (simp add: same_refs_def shift_replid_def)
  from env_ok_safe [OF this env_ok_close_link [OF assms(1)]] show ?thesis
    using assms by (simp add: replicaof_no_one_def Let_def store_inv_passive)
qed

lemma env_ok_sync_client: "env_ok h0 e \<Longrightarrow> env_ok h0 (sync_client fd c e)"
  unfolding sync_client_def by (intro env_ok_safe safe_host steady_change) (simp_all add: todo_def role_def client_ok_def)

section \<open>Commands\<close>

text \<open>The environment as a command of the client \<open>fd\<close> finds it, and as it leaves it.\<close>

definition served :: "host \<Rightarrow> nat \<Rightarrow> renv \<Rightarrow> bool" where
  "served h0 fd e \<longleftrightarrow> env_ok h0 e \<and> conn h0 fd \<noteq> None"

text \<open>What the server asks of the cluster, the only component behind the dispatcher that is a parameter.\<close>

definition cluster_ok :: "(renv \<Rightarrow> bool) \<Rightarrow> renv cluster_ops option \<Rightarrow> bool" where
  "cluster_ok P co \<longleftrightarrow>
     (\<forall>c st e. co = Some c \<longrightarrow> store_inv st \<longrightarrow> P e \<longrightarrow>
        (\<forall>clk keys w asking cl r st' e'. co_route c clk keys w asking cl st e = (r, st', e') \<longrightarrow> store_inv st' \<and> P e') \<and>
        (\<forall>clk argv out out' st' e'. co_command c clk argv out st e = (out', st', e') \<longrightarrow> store_inv st' \<and> P e'))"

lemma served_propagate: "served h0 fd e \<Longrightarrow> served h0 fd (wire_propagate repl_propagate argv e)"
  using env_ok_safe [OF safe_propagate, of h0 e argv]
  by (auto simp: served_def wire_propagate_def Let_def) (simp add: env_ok_def)

lemma served_env: "served h0 fd e \<Longrightarrow> en_repl e' = en_repl e \<Longrightarrow> served h0 fd e'"
  by (simp add: served_def env_ok_def)

lemma served_persistence:
  assumes "served h0 fd e" "po = pers_ops se vio sio"
  shows "served h0 fd (po_count_change po e)" "served h0 fd (snd (po_save po st e))"
    "served h0 fd (snd (po_bgsave po st e))" "served h0 fd (snd (po_bgrewriteaof po st e))"
  using assms by (auto simp: pers_ops_def split: prod.split intro: served_env)

lemma served_replication:
  assumes "served h0 fd e" "ro = repl_ops se io fd"
  shows "store_inv st \<Longrightarrow> store_inv (fst (ro_replicaof_no_one ro st e)) \<and> served h0 fd (snd (ro_replicaof_no_one ro st e))"
    "store_inv st \<Longrightarrow> store_inv (fst (ro_replicaof ro h port st e)) \<and> served h0 fd (snd (ro_replicaof ro h port st e))"
    "served h0 fd (snd (ro_replconf_ack ro ofs c e))" "served h0 fd (ro_replconf_getack ro e)"
    "served h0 fd (snd (snd (ro_psync ro replid pos st c out e)))"
    "served h0 fd (snd (snd (ro_wait ro n timeout c out e)))"
proof -
  have e: "env_ok h0 e" "conn h0 fd \<noteq> None" "env_ok h0 (sync_client fd c e)"
    using assms(1) env_ok_sync_client by (simp_all add: served_def)
  show "store_inv st \<Longrightarrow> store_inv (fst (ro_replicaof_no_one ro st e)) \<and> served h0 fd (snd (ro_replicaof_no_one ro st e))"
    using replicaof_no_one_ok [OF e(1)] e(2) by (simp add: assms(2) repl_ops_def served_def)
  show "store_inv st \<Longrightarrow> store_inv (fst (ro_replicaof ro h port st e)) \<and> served h0 fd (snd (ro_replicaof ro h port st e))"
    using replicaof_ok [OF e(1)] e(2) by (simp add: assms(2) repl_ops_def served_def)
  show "served h0 fd (snd (ro_replconf_ack ro ofs c e))"
    using env_ok_safe [OF safe_acks(1) e(3)] e(2) by (simp add: assms(2) repl_ops_def served_def Let_def)
  show "served h0 fd (ro_replconf_getack ro e)"
    using env_ok_safe [OF safe_acks(2) e(1)] e(2) by (simp add: assms(2) repl_ops_def served_def)
  show "served h0 fd (snd (snd (ro_psync ro replid pos st c out e)))"
    using psync_ok [OF e(3)] e(2) by (simp add: assms(2) repl_ops_def served_def split: prod.split) (metis snd_conv)
  show "served h0 fd (snd (snd (ro_wait ro n timeout c out e)))"
    using wait_ok [OF e(3,2)] e(2) by (simp add: assms(2) repl_ops_def served_def Let_def split: prod.split)
qed

lemma server_services_fields:
  "sv_propagator (server_services se io co fd) = Some (wire_propagate repl_propagate)"
  "sv_on_deleted (server_services se io co fd) k = wire_propagate repl_propagate [''DEL'', k]"
  "sv_persistence (server_services se io co fd) = Some (pers_ops se (cm_save io) (cm_start io))"
  "sv_replication (server_services se io co fd) = Some (repl_ops se io fd)"
  "sv_cluster (server_services se io co fd) = co"
  by (simp_all add: server_services_def wire_def)

lemma server_contract:
  assumes "cluster_ok (served h0 fd) co"
  shows "dispatch_inv (server_services se io co fd) (served h0 fd)"
proof (unfold_locales, unfold server_services_fields option.inject, goal_cases)
  case (1 p e argv) then show ?case using served_propagate by blast
next
  case (2 e k) then show ?case by (rule served_propagate)
next
  case (3 po e) show ?case by (rule served_persistence(1) [OF 3(2) 3(1) [symmetric]])
next
  case (4 po e st) show ?case by (rule served_persistence(2) [OF 4(2) 4(1) [symmetric]])
next
  case (5 po e st) show ?case by (rule served_persistence(3) [OF 5(2) 5(1) [symmetric]])
next
  case (6 po e st) show ?case by (rule served_persistence(4) [OF 6(2) 6(1) [symmetric]])
next
  case (7 ro st e) show ?case by (rule served_replication(1) [OF 7(3) 7(1) [symmetric] 7(2)])
next
  case (8 ro st e h port) show ?case by (rule served_replication(2) [OF 8(3) 8(1) [symmetric] 8(2)])
next
  case (9 ro e ofs c) show ?case by (rule served_replication(3) [OF 9(2) 9(1) [symmetric]])
next
  case (10 ro e) show ?case by (rule served_replication(4) [OF 10(2) 10(1) [symmetric]])
next
  case (11 ro e replid pos st c out) show ?case by (rule served_replication(5) [OF 11(2) 11(1) [symmetric]])
next
  case (12 ro e n timeout c out) show ?case by (rule served_replication(6) [OF 12(2) 12(1) [symmetric]])
next
  case (13 c st e) then show ?case using assms unfolding cluster_ok_def by blast
next
  case (14 c st e) then show ?case using assms unfolding cluster_ok_def by blast
qed

interpretation alone: dispatch_inv "server_services se io None fd" "served h0 fd" for se io fd h0
  by (rule server_contract) (simp add: cluster_ok_def)

end
