(* ===== verification/Event_Loop.thy ===== *)
theory Event_Loop
  imports Server_Properties
begin

text \<open>
  The event loop as a whole. Every loop of the server returns, whatever its clients send, and every
  event, hook and iteration keeps the invariant of \<open>Server_Properties\<close>, so that no pointer of the
  replication or queue of the loop is left dangling when connections are closed.
\<close>

section \<open>The loop over a client's input\<close>

definition srv_ok :: "server \<Rightarrow> bool" where
  "srv_ok d \<longleftrightarrow> store_inv (d_store d) \<and> rs_ok (en_repl (d_env d))"

lemma on_simps [simp]:
  "d_store (on_env g d) = d_store d" "d_env (on_env g d) = g (d_env d)" "d_store (on_rstate f d) = d_store d"
  "en_repl (d_env (on_rstate f d)) = f (en_repl (d_env d))" "d_store (on_host k d) = d_store d"
  "en_repl (d_env (on_host k d)) = host_upd k (en_repl (d_env d))"
  by (simp_all add: on_env_def on_rstate_def on_host_def)

lemma srv_ok_rstate: "safe f \<Longrightarrow> srv_ok d \<Longrightarrow> srv_ok (on_rstate f d)"
  by (simp add: srv_ok_def safeD)

lemma srv_ok_host: "steady f \<Longrightarrow> srv_ok d \<Longrightarrow> srv_ok (on_host f d)"
  by (simp add: srv_ok_def rs_ok_steady)

definition same_conns :: "host \<Rightarrow> host \<Rightarrow> bool" where
  "same_conns h h' \<longleftrightarrow> (\<forall>fd. conn h' fd = None \<longleftrightarrow> conn h fd = None)"

lemma same_conns_refl [simp]: "same_conns h h"
  by (simp add: same_conns_def)

lemma same_conns_trans: "same_conns h h' \<Longrightarrow> same_conns h' h'' \<Longrightarrow> same_conns h h''"
  by (simp add: same_conns_def)

lemma same_conns_todo: "same_todo h h' \<Longrightarrow> same_conns h h'"
  by (simp add: same_conns_def same_todo_None)

lemma same_conns_ops [simp]:
  "same_conns h (change fd f h)" "same_conns h (mark_closing fd h)" "same_conns h (queue_write fd h)"
  "conn h fd \<noteq> None \<Longrightarrow> same_conns h (put_conn fd c h)"
  "same_conns h (h'\<lparr>ho_held_clients := xs\<rparr>) = same_conns h h'"
  "same_conns h (h'\<lparr>ho_resume_held := b\<rparr>) = same_conns h h'"
  by (auto simp: same_conns_def conn_def [of "_\<lparr>ho_held_clients := _\<rparr>"] conn_def [of "_\<lparr>ho_resume_held := _\<rparr>"] simp flip: conn_def)

definition good :: "server \<Rightarrow> server \<Rightarrow> bool" where
  "good d d' \<longleftrightarrow> srv_ok d' \<and> same_conns (sv_host d) (sv_host d')"

lemma good_trans: "good d d' \<Longrightarrow> good d' d'' \<Longrightarrow> good d d''"
  by (auto simp: good_def intro: same_conns_trans)

lemma good_todo: "srv_ok d' \<Longrightarrow> same_todo (sv_host d) (sv_host d') \<Longrightarrow> good d d'"
  by (simp add: good_def same_conns_todo)

lemma good_ok: "good d d' \<Longrightarrow> srv_ok d'"
  by (simp add: good_def)

lemma good_safe: "safe f \<Longrightarrow> srv_ok d \<Longrightarrow> good d (on_rstate f d)"
  by (rule good_todo) (simp_all add: srv_ok_def safeD)

lemma good_host: "steady f \<Longrightarrow> srv_ok d \<Longrightarrow> good d (on_host f d)"
  unfolding on_host_def by (rule good_safe [OF safe_host])

lemma run_command_ok:
  assumes "srv_ok d" "conn (sv_host d) fd \<noteq> None" "cluster_ok (served (sv_host d) fd) co"
  shows "\<exists>out' d'. run_command se io co fd argv out d = Some (out', d') \<and> srv_ok d' \<and> same_todo (sv_host d) (sv_host d')"
proof -
  let ?P = "served (sv_host d) fd"
  have "kept ?P (d\<lparr>d_client := conn (sv_host d) fd\<rparr>)"
    using assms by (simp add: kept_def srv_ok_def served_def env_ok_def)
  from dispatch_inv.dispatch_kept [OF server_contract [OF assms(3)] this, of se io "cm_clk io" argv out]
  obtain out' d' where d': "dispatch (server_services se io co fd) (cm_clk io) argv out (d\<lparr>d_client := conn (sv_host d) fd\<rparr>) = Some (out', d')"
    "store_inv (d_store d')" "env_ok (sv_host d) (d_env d')"
    by (auto simp: kept_def served_def)
  have "env_ok (sv_host d) (case d_client d' of Some c \<Rightarrow> sync_client fd c (d_env d') | None \<Rightarrow> d_env d')"
    using d'(3) env_ok_sync_client by (auto split: option.split)
  then show ?thesis using d' by (simp add: run_command_def srv_ok_def env_ok_def)
qed

definition input_left :: "client \<Rightarrow> nat" where
  "input_left c = length (c_parser c) + (case c_held_command c of None \<Rightarrow> 0 | Some _ \<Rightarrow> 1)"

definition input_of :: "client \<Rightarrow> client \<Rightarrow> bool" where
  "input_of c c' \<longleftrightarrow> input_left c' < input_left c \<and> c_closing c' = c_closing c \<and> c_pending_write c' = c_pending_write c \<and> role c' = role c \<and>
     (client_ok c \<longrightarrow> client_ok c')"

lemma next_input_shrinks:
  assumes "next_input paused c = (Input argv raw, c')" shows "input_of c c'"
proof (cases "c_held_command c")
  case None
  then have "pr_status (try_parse_command (c_parser c)) = kComplete" "c' = c\<lparr>c_parser := pr_buffer (try_parse_command (c_parser c))\<rparr>"
    using assms by (auto simp: next_input_def Let_def split: parse_status.splits)
  moreover from this(1) have "length (pr_buffer (try_parse_command (c_parser c))) < length (c_parser c)"
    using arg_cong [OF try_parse_complete(1), of "c_parser c" length] try_parse_complete(2) [of "c_parser c"] by simp
  ultimately show ?thesis using None by (simp add: input_of_def input_left_def role_def client_ok_def)
qed (use assms in \<open>auto simp: next_input_def input_of_def input_left_def role_def client_ok_def split: if_splits\<close>)

lemma same_todo_left: "same_todo h h' \<Longrightarrow> conn h fd = Some c \<Longrightarrow> \<exists>c'. conn h' fd = Some c' \<and> input_left c' = input_left c"
proof -
  assume "same_todo h h'" "conn h fd = Some c"
  then have "map_option todo (conn h' fd) = Some (todo c)" by (auto simp: same_todo_def)
  then show ?thesis by (auto simp: todo_def input_left_def)
qed

lemma put_conn_change: "conn h fd \<noteq> None \<Longrightarrow> put_conn fd c h = change fd (\<lambda>_. c) h"
  by (auto simp: change_def)

lemma rs_ok_put:
  assumes "rs_ok s" "conn (rs_host s) fd = Some c" "c_closing c' = c_closing c" "c_pending_write c' = c_pending_write c" "role c' = role c" "client_ok c \<longrightarrow> client_ok c'"
  shows "rs_ok (host_upd (put_conn fd c') s)"
proof -
  have "same_role (rs_host s) (change fd (\<lambda>_. c') (rs_host s))" using assms by (simp add: same_role_def)
  then show ?thesis
    using assms host_ok_change [of "rs_host s" fd "\<lambda>_. c'"] by (simp add: rs_ok_def refs_ok_role put_conn_change)
qed

lemma rs_ok_hold:
  assumes "rs_ok s" "conn (rs_host s) fd \<noteq> None"
  shows "rs_ok (host_upd (\<lambda>h. (change fd (\<lambda>c. c\<lparr>c_held_command := Some argv\<rparr>) h)\<lparr>ho_held_clients := ho_held_clients h @ [fd]\<rparr>) s)"
proof -
  let ?h = "change fd (\<lambda>c. c\<lparr>c_held_command := Some argv\<rparr>) (rs_host s)"
  have 1: "same_role (rs_host s) ?h" by (simp add: same_role_def option.map_comp comp_def role_def [abs_def])
  have "host_ok ?h" using assms(1) by (intro host_ok_change) (simp_all add: rs_ok_def client_ok_def)
  then have "host_ok (?h\<lparr>ho_held_clients := ho_held_clients (rs_host s) @ [fd]\<rparr>)"
    using assms(2) by (auto simp: host_ok_def)
  moreover have "refs_ok r (?h\<lparr>ho_held_clients := xs\<rparr>) = refs_ok r ?h" for r xs by (simp add: refs_ok_def)
  ultimately show ?thesis using assms(1) refs_ok_role [OF 1] by (simp add: rs_ok_def)
qed

lemma safe_master_applied: "safe (master_command_applied raw)"
  unfolding master_command_applied_def [abs_def] by (rule safe_feed)

abbreviation cluster_fine :: "renv cluster_ops option \<Rightarrow> bool" where
  "cluster_fine co \<equiv> \<forall>h fd. cluster_ok (served h fd) co"

lemma process_loop_ok:
  assumes "srv_ok d" "conn (sv_host d) fd = Some c" "cluster_fine co"
  shows "\<exists>b d'. process_loop se ios co i fd d = Some (b, d') \<and> good d d'"
  using assms
proof (induction "input_left c" arbitrary: i c d rule: less_induct)
  case less
  show ?case
  proof (cases "c_blocked c \<or> c_close_after_flush c \<or> c_closing c")
    case False
    obtain inp c' where n: "next_input (ho_writes_paused (sv_host d)) c = (inp, c')" by (metis prod.exhaust)
    show ?thesis
    proof (cases inp)
      case BadInput
      have "steady (change fd (\<lambda>c. c\<lparr>c_out := reply_error (c_out c) ''ERR Protocol error'', c_close_after_flush := True\<rparr>))"
        by (rule steady_change) (simp_all add: todo_def role_def client_ok_def)
      then show ?thesis using less.prems False n BadInput
        by (subst process_loop.simps) (auto simp: good_host steady_mark_closing)
    next
      case (Input argv raw)
      note sh = next_input_shrinks [OF n [unfolded Input]]
      let ?d = "on_host (put_conn fd c') d"
      have d: "good d ?d" "conn (sv_host ?d) fd = Some c'"
        using rs_ok_put [of "en_repl (d_env d)" fd c c'] sh less.prems by (simp_all add: good_def srv_ok_def input_of_def)
      note d0 = good_ok [OF d(1)]
      have run: "\<exists>b d'. Option.bind (run_command se (ios i) co fd argv out ?d) (\<lambda>(out, d). process_loop se ios co (Suc i) fd (f out d)) = Some (b, d') \<and> good d d'"
        if f: "\<And>out d. srv_ok d \<Longrightarrow> srv_ok (f out d) \<and> same_todo (sv_host d) (sv_host (f out d))" for f out
      proof -
        obtain out' d2 where d2: "run_command se (ios i) co fd argv out ?d = Some (out', d2)" "srv_ok d2" "same_todo (sv_host ?d) (sv_host d2)"
          using run_command_ok [OF d0, of fd co se "ios i" argv out] d(2) less.prems(3) by auto
        have t: "same_todo (sv_host ?d) (sv_host (f out' d2))" using f [OF d2(2)] same_todo_trans [OF d2(3)] by blast
        from same_todo_left [OF t d(2)] obtain c2 where
          "conn (sv_host (f out' d2)) fd = Some c2" "input_left c2 = input_left c'" by blast
        then have "\<exists>b d'. process_loop se ios co (Suc i) fd (f out' d2) = Some (b, d') \<and> good (f out' d2) d'"
          using less.hyps [of c2] sh f [OF d2(2)] less.prems(3) by (simp add: input_of_def)
        then show ?thesis using d2(1) good_trans [OF good_trans [OF d(1) good_todo [OF _ t]]] f [OF d2(2)] by auto
      qed
      have out: "steady (change fd (\<lambda>c. c\<lparr>c_out := out, c_woff := g (c_woff c)\<rparr>))" for out g
        by (rule steady_change) (simp_all add: todo_def role_def client_ok_def)
      have f: "srv_ok d \<Longrightarrow> srv_ok (on_rstate (master_command_applied raw) d) \<and>
          same_todo (sv_host d) (sv_host (on_rstate (master_command_applied raw) d))"
        "srv_ok d \<Longrightarrow> srv_ok (on_host (change fd (\<lambda>c. c\<lparr>c_out := out, c_woff := g (c_woff c)\<rparr>)) d) \<and>
          same_todo (sv_host d) (sv_host (on_host (change fd (\<lambda>c. c\<lparr>c_out := out, c_woff := g (c_woff c)\<rparr>)) d))" for d out g
        using safeD [OF safe_master_applied] safeD [OF safe_host [OF out [of g out]]] by (simp_all add: srv_ok_def)
      let ?h = "on_host (\<lambda>h. (change fd (\<lambda>c. c\<lparr>c_held_command := Some argv\<rparr>) h)\<lparr>ho_held_clients := ho_held_clients h @ [fd]\<rparr>) ?d"
      have "good ?d ?h"
        using rs_ok_hold [of "en_repl (d_env ?d)" fd argv] d0 d(2) by (simp add: good_def srv_ok_def)
      then have "good d ?h" by (rule good_trans [OF d(1)])
      then show ?thesis
        using less.prems False n Input run [of "\<lambda>_ d. on_rstate (master_command_applied raw) d" "[]"] f(1)
          run [of "\<lambda>_ d. d" "[]"]
          run [of "\<lambda>out d'. on_host (change fd (\<lambda>c. c\<lparr>c_out := out, c_woff := (if repl_offset (sv_repl d') \<noteq> repl_offset (sv_repl ?d)
             then repl_offset (sv_repl d') else c_woff c)\<rparr>)) d'" "c_out c'"]
          f(2) [of _ "\<lambda>x. if repl_offset (sv_repl _) \<noteq> repl_offset (sv_repl ?d) then repl_offset (sv_repl _) else x"]
        by (subst process_loop.simps) (auto simp: Let_def)
    qed (use less.prems False n in \<open>subst process_loop.simps, auto simp: good_def\<close>)
  qed (use less.prems in \<open>subst process_loop.simps, auto simp: good_def\<close>)
qed

text \<open>\<open>returns f\<close>: the partial operation returns on every server that satisfies the invariant, and keeps it.\<close>

definition returns :: "(server \<Rightarrow> server option) \<Rightarrow> bool" where
  "returns f \<longleftrightarrow> (\<forall>d. srv_ok d \<longrightarrow> (\<exists>d'. f d = Some d' \<and> good d d'))"

lemma returnsD: "returns f \<Longrightarrow> srv_ok d \<Longrightarrow> \<exists>d'. f d = Some d' \<and> good d d'"
  by (simp add: returns_def)

lemma returns_Some: "returns Some"
  by (simp add: returns_def good_def)

lemma returns_bind: "returns f \<Longrightarrow> returns g \<Longrightarrow> returns (\<lambda>d. Option.bind (f d) g)"
proof (unfold returns_def, intro allI impI)
  fix d assume f: "\<forall>d. srv_ok d \<longrightarrow> (\<exists>d'. f d = Some d' \<and> good d d')" and g: "\<forall>d. srv_ok d \<longrightarrow> (\<exists>d'. g d = Some d' \<and> good d d')"
    and d: "srv_ok d"
  obtain d1 where d1: "f d = Some d1" "good d d1" using f d by blast
  obtain d2 where "g d1 = Some d2" "good d1 d2" using g good_ok [OF d1(2)] by blast
  then show "\<exists>d'. Option.bind (f d) g = Some d' \<and> good d d'" using d1 good_trans by auto
qed

lemma returns_comp: "returns f \<Longrightarrow> (\<And>d. srv_ok d \<Longrightarrow> good d (g d)) \<Longrightarrow> returns (\<lambda>d. f (g d))"
  unfolding returns_def using good_ok good_trans by blast

lemma returns_if: "returns f \<Longrightarrow> returns g \<Longrightarrow> returns (\<lambda>d. if P d then f d else g d)"
  by (simp add: returns_def)

lemma rs_ok_change:
  assumes "rs_ok s" "\<And>c. c_closing (f c) = c_closing c" "\<And>c. c_pending_write (f c) = c_pending_write c" "\<And>c. role (f c) = role c"
    "\<And>c. client_ok c \<Longrightarrow> client_ok (f c)"
  shows "rs_ok (host_upd (change fd f) s)"
proof -
  have "same_role (rs_host s) (change fd f (rs_host s))" using assms(4) by (auto simp: same_role_def option.map_comp comp_def)
  then show ?thesis using assms host_ok_change [of "rs_host s" fd f] by (simp add: rs_ok_def refs_ok_role)
qed

lemma process_input_returns: "cluster_fine co \<Longrightarrow> returns (process_input se ios co fd)"
proof (unfold returns_def, intro allI impI)
  fix d assume co: "cluster_fine co" and d: "srv_ok d"
  have q: "steady (\<lambda>h. queue_write fd (change fd (\<lambda>c. if \<not> c_close_after_flush c \<and> length (c_parser c) > kMaxQueryBufferBytes
      then c\<lparr>c_out := reply_error (c_out c) ''ERR Protocol error: query buffer limit exceeded'', c_close_after_flush := True\<rparr> else c) h))"
    by (intro steady_comp [OF steady_queue_write] steady_change) (simp_all add: todo_def role_def client_ok_def)
  have "\<exists>b d1. process_loop se ios co 0 fd d = Some (b, d1) \<and> good d d1"
  proof (cases "conn (sv_host d) fd")
    case None
    then show ?thesis using d by (subst process_loop.simps) (auto simp: good_def)
  next
    case (Some c)
    show ?thesis by (rule process_loop_ok [OF d Some co])
  qed
  then obtain b d1 where d1: "process_loop se ios co 0 fd d = Some (b, d1)" "good d d1" by blast
  then show "\<exists>d'. process_input se ios co fd d = Some d' \<and> good d d'"
    using good_trans [OF d1(2) good_host [OF q good_ok [OF d1(2)]]] by (cases b) (simp_all add: process_input_def)
qed

lemma process_buffered_returns: "cluster_fine co \<Longrightarrow> returns (process_buffered se ios co fd)"
  using process_input_returns [of co se ios fd] returns_Some by (auto simp: returns_def process_buffered_def split: option.split)

lemma handle_readable_returns: "cluster_fine co \<Longrightarrow> returns (handle_readable se ios co r now fd)"
proof (unfold returns_def, intro allI impI)
  fix d assume co: "cluster_fine co" and d: "srv_ok d"
  let ?g = "\<lambda>data. on_host (change fd (\<lambda>c. c\<lparr>c_last_interaction := now, c_parser := feed (c_parser c) data\<rparr>)) d"
  have "rs_ok (host_upd (change fd (\<lambda>c. c\<lparr>c_last_interaction := now, c_parser := feed (c_parser c) data\<rparr>)) (en_repl (d_env d)))" for data
    using d by (intro rs_ok_change) (simp_all add: srv_ok_def role_def client_ok_def)
  then have g: "good d (?g data)" for data using d by (simp add: good_def srv_ok_def)
  have "\<exists>d'. process_input se ios co fd (?g data) = Some d' \<and> good d d'" for data
    using returnsD [OF process_input_returns [OF co] good_ok [OF g]] good_trans [OF g] by blast
  then show "\<exists>d'. handle_readable se ios co r now fd d = Some d' \<and> good d d'"
    using d returnsD [OF returns_Some d]
    by (auto simp: handle_readable_def good_host steady_mark_closing split: sock_read.split option.split)
qed

lemma resume_loop_returns: "cluster_fine co \<Longrightarrow> returns (resume_loop se ios co fds)"
proof (induction fds arbitrary: ios)
  case (Cons fd fds)
  have 1: "returns (resume_loop se (\<lambda>i. ios (Suc i)) co fds)" by (rule Cons.IH [OF Cons.prems])
  have 2: "returns (\<lambda>d. Option.bind (process_input se (ios 0) co fd d) (resume_loop se (\<lambda>i. ios (Suc i)) co fds))"
    by (rule returns_bind [OF process_input_returns [OF Cons.prems] 1])
  show ?case using 1 2 by (auto simp: returns_def split: option.split)
qed (simp add: returns_def good_def)

lemma resume_held_returns: "cluster_fine co \<Longrightarrow> returns (resume_held_clients se ios co)"
proof (unfold returns_def, intro allI impI)
  fix d assume co: "cluster_fine co" and d: "srv_ok d"
  have "good d (on_host (\<lambda>h. h\<lparr>ho_resume_held := False, ho_held_clients := []\<rparr>) d)"
    using d by (simp add: good_def srv_ok_def rs_ok_def host_ok_def refs_ok_def)
  from returnsD [OF resume_loop_returns [OF co] good_ok [OF this]] good_trans [OF this]
  show "\<exists>d'. resume_held_clients se ios co d = Some d' \<and> good d d'"
    unfolding resume_held_clients_def by blast
qed

section \<open>Waiting clients\<close>

lemma release_loop_returns: "cluster_fine co \<Longrightarrow> returns (release_loop se ios co ws)"
proof (induction ws arbitrary: ios)
  case (Cons w ws)
  obtain fd n where w: "w = (fd, n)" by (cases w)
  have "returns (\<lambda>d. process_buffered se (ios 0) co fd (on_rstate (release fd n) d))"
    by (rule returns_comp [OF process_buffered_returns [OF Cons.prems] good_safe [OF safe_acks(3)]])
  from returns_bind [OF this Cons.IH [OF Cons.prems], of "\<lambda>i. ios (Suc i)"] show ?case by (simp add: w)
qed (simp add: returns_def good_def)

lemma unblock_waiters_returns: "cluster_fine co \<Longrightarrow> returns (unblock_waiters se ios co now)"
proof (unfold returns_def, intro allI impI)
  fix d assume co: "cluster_fine co" and d: "srv_ok d"
  obtain ws s where w: "done_waiters now (en_repl (d_env d)) = (ws, s)" by (metis prod.exhaust)
  have "good d (on_rstate (\<lambda>_. s) d)"
    using d w by (auto simp: done_waiters_def good_def srv_ok_def rs_ok_def refs_ok_def partition_filter_conv)
  from returnsD [OF release_loop_returns [OF co] good_ok [OF this], of se ios ws] good_trans [OF this] returnsD [OF returns_Some d]
  show "\<exists>d'. unblock_waiters se ios co now d = Some d' \<and> good d d'"
    by (auto simp: unblock_waiters_def w)
qed

lemma buffered_loop_returns: "cluster_fine co \<Longrightarrow> returns (buffered_loop se ios co fds)"
proof (induction fds arbitrary: ios)
  case (Cons fd fds)
  from returns_bind [OF process_buffered_returns [OF Cons.prems] Cons.IH [OF Cons.prems], of se "ios 0" fd "\<lambda>i. ios (Suc i)"]
  show ?case by simp
qed (simp add: returns_def good_def)

lemma repl_before_sleep_returns: "cluster_fine co \<Longrightarrow> returns (repl_before_sleep se ios ios' co now)"
proof -
  assume co: "cluster_fine co"
  have 1: "returns (\<lambda>d. unblock_waiters se ios' co now (on_rstate request_acks d))"
    by (rule returns_comp [OF unblock_waiters_returns [OF co] good_safe [OF safe_acks(4)]])
  have 2: "srv_ok d \<Longrightarrow> good d (on_rstate (repl_upd (\<lambda>r. r\<lparr>rp_to_resume := []\<rparr>)) d)" for d
    by (simp add: good_def srv_ok_def rs_ok_def refs_ok_def)
  have "returns (\<lambda>d. buffered_loop se ios co fds (on_rstate (repl_upd (\<lambda>r. r\<lparr>rp_to_resume := []\<rparr>)) d))" for fds
    by (rule returns_comp [OF buffered_loop_returns [OF co] 2])
  from returns_bind [OF this 1] show ?thesis by (simp add: returns_def repl_before_sleep_def)
qed

section \<open>Output\<close>

lemma steady_set_write_interest: "steady (set_write_interest changed fd b)"
proof (rule steady_pointwise)
  fix h
  have "steady (change fd (\<lambda>c. c\<lparr>c_write_interest := b\<rparr>))"
    by (rule steady_change) (simp_all add: todo_def role_def client_ok_def)
  moreover have "put_conn fd (c\<lparr>c_write_interest := b\<rparr>) h = change fd (\<lambda>c. c\<lparr>c_write_interest := b\<rparr>) h" if "conn h fd = Some c" for c
    using that by (simp add: change_def)
  ultimately show "\<exists>g. steady g \<and> set_write_interest changed fd b h = g h"
    using steady_id steady_mark_closing [of fd] unfolding set_write_interest_def
    by (cases "conn h fd") auto
qed

lemma refill_ok:
  assumes "rs_ok s" "conn (rs_host s) fd = Some c" "c_repl_snapshot c \<noteq> None"
  shows "rs_ok (snd (refill_snapshot rd now fd s))"
proof -
  have 1: "steady (change fd (\<lambda>c. c\<lparr>c_out := c_out c @ take n rest, c_repl_snapshot := (if c_repl_state c = kNone then None else Some (drop n rest))\<rparr>))" for n rest
    by (rule steady_change) (simp_all add: todo_def role_def client_ok_def)
  have 2: "steady (change fd (\<lambda>c. if c_repl_state c \<noteq> kNone then c\<lparr>c_repl_snapshot := None, c_out := c_out c @ c_repl_held c, c_repl_held := [],
       c_repl_state := kOnline, c_repl_ack_time := now\<rparr> else c))"
    by (rule steady_change_replica) (simp_all add: todo_def role_def client_ok_def)
  have r: "c_repl_state c \<noteq> kNone" using assms by (auto simp: rs_ok_def host_ok_def client_ok_def)
  have 3: "change fd (\<lambda>c. c\<lparr>c_out := c_out c @ take n rest, c_repl_snapshot := Some (drop n rest)\<rparr>) (rs_host s) =
      change fd (\<lambda>c. c\<lparr>c_out := c_out c @ take n rest, c_repl_snapshot := (if c_repl_state c = kNone then None else Some (drop n rest))\<rparr>) (rs_host s)" for n rest
    using r assms(2) by (intro change_cong) simp
  have 4: "change fd (\<lambda>c. c\<lparr>c_repl_snapshot := None, c_out := c_out c @ c_repl_held c, c_repl_held := [],
       c_repl_state := kOnline, c_repl_ack_time := now\<rparr>) (rs_host s) = change fd (\<lambda>c. if c_repl_state c \<noteq> kNone then c\<lparr>c_repl_snapshot := None,
         c_out := c_out c @ c_repl_held c, c_repl_held := [], c_repl_state := kOnline, c_repl_ack_time := now\<rparr> else c) (rs_host s)"
    using r assms(2) by (intro change_cong) simp
  show ?thesis
    using assms rs_ok_steady [OF 1 assms(1)] rs_ok_steady [OF 2 assms(1)] rs_ok_steady [OF steady_mark_closing assms(1)]
    by (cases rd) (simp_all add: refill_snapshot_def snapshot_sent_def Let_def 3 4 cong: rstate.fold_congs)
qed

definition send_out :: "flush_out \<Rightarrow> nat \<Rightarrow> rstate \<Rightarrow> bytes \<times> rstate" where
  "send_out io fd s =
     (case conn (rs_host s) fd of
        None \<Rightarrow> ([], s)
      | Some c \<Rightarrow>
          (case flush_sends (length (c_out c)) (fo_sends io) 0 of
             (True, sent) \<Rightarrow> (take sent (c_out c), host_upd (mark_closing fd) s)
           | (False, sent) \<Rightarrow>
               let out = drop sent (c_out c);
                   s = host_upd (change fd (\<lambda>c. c\<lparr>c_out := out\<rparr>)) s
               in (take sent (c_out c),
                   if out = [] \<and> c_repl_state c \<noteq> kSendBulk then
                     let s = host_upd (set_write_interest (fo_epoll io) fd False) s
                     in if c_close_after_flush c then host_upd (mark_closing fd) s else s
                   else if c_repl_state c = kNone \<and> length out > kMaxOutputBufferBytes
                   then host_upd (mark_closing fd) s
                   else host_upd (set_write_interest (fo_epoll io) fd True) s)))"

lemma flush_client_split:
  "flush_client io fd s =
     (case conn (rs_host s) fd of
        None \<Rightarrow> ([], s)
      | Some c \<Rightarrow>
          (case (if c_repl_snapshot c \<noteq> None then refill_snapshot (fo_read io) (fo_now io) fd s else (True, s)) of
             (go_on, s) \<Rightarrow> if \<not> go_on then ([], s) else send_out io fd s))"
  by (simp only: flush_client_def send_out_def Let_def)

lemma send_out_ok:
  assumes "rs_ok s" shows "rs_ok (snd (send_out io fd s))"
proof (cases "conn (rs_host s) fd")
  case (Some c)
  obtain failed sent where f: "flush_sends (length (c_out c)) (fo_sends io) 0 = (failed, sent)" by (metis prod.exhaust)
  have out: "steady (change fd (\<lambda>c. c\<lparr>c_out := out\<rparr>))" for out
    by (rule steady_change) (simp_all add: todo_def role_def client_ok_def)
  note steps = rs_ok_steady [OF steady_mark_closing] rs_ok_steady [OF steady_set_write_interest] rs_ok_steady [OF out]
  show ?thesis
    using steps [OF assms] steps(1,2) [OF steps(3) [OF assms]] steps(1) [OF steps(2) [OF steps(3) [OF assms]]]
    by (cases failed) (simp_all add: send_out_def Some f Let_def)
qed (simp add: send_out_def assms)

lemma flush_client_ok:
  assumes "rs_ok s" shows "rs_ok (snd (flush_client io fd s))"
proof (cases "conn (rs_host s) fd")
  case (Some c)
  obtain b s1 where r: "(if c_repl_snapshot c \<noteq> None then refill_snapshot (fo_read io) (fo_now io) fd s else (True, s)) = (b, s1)"
    by (metis prod.exhaust)
  have "rs_ok s1" using refill_ok [OF assms Some, of "fo_read io" "fo_now io"] r assms by (auto split: if_splits)
  then show ?thesis using send_out_ok unfolding flush_client_split Some option.case r by simp
qed (simp add: flush_client_def assms)

definition set_pending :: "nat list \<Rightarrow> rstate \<Rightarrow> rstate" where
  "set_pending W = host_upd (\<lambda>h. h\<lparr>ho_pending_writes := W\<rparr>)"

lemma set_pending_simps [simp]:
  "conn (h\<lparr>ho_pending_writes := W\<rparr>) = conn h" "put_conn fd c (h\<lparr>ho_pending_writes := W\<rparr>) = (put_conn fd c h)\<lparr>ho_pending_writes := W\<rparr>"
  "change fd f (h\<lparr>ho_pending_writes := W\<rparr>) = (change fd f h)\<lparr>ho_pending_writes := W\<rparr>"
  "mark_closing fd (h\<lparr>ho_pending_writes := W\<rparr>) = (mark_closing fd h)\<lparr>ho_pending_writes := W\<rparr>"
  "set_write_interest b fd i (h\<lparr>ho_pending_writes := W\<rparr>) = (set_write_interest b fd i h)\<lparr>ho_pending_writes := W\<rparr>"
  by (auto simp: conn_def fun_eq_iff put_conn_def change_def mark_closing_def set_write_interest_def split: option.split)

lemma refill_pending: "refill_snapshot rd now fd (set_pending W s) = map_prod id (set_pending W) (refill_snapshot rd now fd s)"
  by (simp add: refill_snapshot_def set_pending_def snapshot_sent_def Let_def split: option.split snap_read.split)

lemma flush_client_pending: "flush_client io fd (set_pending W s) = map_prod id (set_pending W) (flush_client io fd s)"
proof (cases "conn (rs_host s) fd")
  case (Some c)
  obtain b s1 where r: "(if c_repl_snapshot c \<noteq> None then refill_snapshot (fo_read io) (fo_now io) fd s else (True, s)) = (b, s1)"
    by (metis prod.exhaust)
  then have "(if c_repl_snapshot c \<noteq> None then refill_snapshot (fo_read io) (fo_now io) fd (set_pending W s) else (True, set_pending W s)) =
      (b, set_pending W s1)"
    by (auto simp: refill_pending split: if_splits)
  moreover have "conn (rs_host (set_pending W s)) fd = Some c" using Some by (simp add: set_pending_def)
  moreover have "send_out io fd (set_pending W s1) = map_prod id (set_pending W) (send_out io fd s1)"
    by (simp add: send_out_def set_pending_def Let_def split: option.split prod.split bool.split)
  ultimately show ?thesis unfolding flush_client_split using Some r by simp
qed (simp add: flush_client_def set_pending_def)

lemma rs_ok_unqueue:
  assumes "rs_ok (set_pending (fd # fds) s)"
  shows "rs_ok (set_pending fds (host_upd (change fd (\<lambda>c. c\<lparr>c_pending_write := False\<rparr>)) s))"
proof -
  have "same_role (rs_host s) (change fd (\<lambda>c. c\<lparr>c_pending_write := False\<rparr>) (rs_host s))"
    by (simp add: same_role_def option.map_comp comp_def role_def [abs_def])
  then have "refs_ok r (change fd (\<lambda>c. c\<lparr>c_pending_write := False\<rparr>) (rs_host s)) = refs_ok r (rs_host s)" for r
    by (rule refs_ok_role)
  moreover have "refs_ok r (h\<lparr>ho_pending_writes := W\<rparr>) = refs_ok r h" for r h W by (simp add: refs_ok_def)
  moreover have "host_ok ((change fd (\<lambda>c. c\<lparr>c_pending_write := False\<rparr>) (rs_host s))\<lparr>ho_pending_writes := fds\<rparr>)"
    using assms by (auto simp: rs_ok_def set_pending_def host_ok_def)
  ultimately show ?thesis using assms by (simp add: rs_ok_def set_pending_def)
qed

lemma flush_loop_ok:
  "rs_ok (set_pending fds s) \<Longrightarrow> rs_ok (set_pending [] (snd (flush_loop ios fds s)))"
proof (induction fds arbitrary: s ios)
  case (Cons fd fds)
  have "fd \<in> set (ho_pending_writes (rs_host (set_pending (fd # fds) s)))" by (simp add: set_pending_def)
  then obtain c where c: "conn (rs_host s) fd = Some c"
    using Cons.prems unfolding rs_ok_def host_ok_def by (auto simp: set_pending_def) blast
  define s1 where "s1 = host_upd (change fd (\<lambda>c. c\<lparr>c_pending_write := False\<rparr>)) s"
  have s1: "rs_ok (set_pending fds s1)" unfolding s1_def by (rule rs_ok_unqueue [OF Cons.prems])
  then have "rs_ok (set_pending fds (snd (flush_client (ios 0) fd s1)))"
    using flush_client_ok [OF s1, of "ios 0" fd] by (simp add: flush_client_pending)
  from Cons.IH [OF s1, of "\<lambda>i. ios (Suc i)"] Cons.IH [OF this, of "\<lambda>i. ios (Suc i)"] show ?case
    by (simp add: c Let_def s1_def [symmetric] split: prod.split) (metis snd_conv)
qed simp

lemma flush_pending_writes_ok:
  assumes "rs_ok s" shows "rs_ok (snd (flush_pending_writes ios s))"
proof -
  have "set_pending (ho_pending_writes (rs_host s)) s = s" by (simp add: set_pending_def)
  then have "rs_ok (set_pending [] (snd (flush_loop ios (ho_pending_writes (rs_host s)) s)))"
    using assms by (intro flush_loop_ok) (simp only:)
  then show ?thesis
    by (cases "flush_loop ios (ho_pending_writes (rs_host s)) s") (simp add: flush_pending_writes_def set_pending_def)
qed

section \<open>Opening and closing\<close>

text \<open>A descriptor from the kernel is not that of an open connection or of the link.\<close>

definition fresh :: "nat \<Rightarrow> rstate \<Rightarrow> bool" where
  "fresh fd s \<longleftrightarrow> conn (rs_host s) fd = None \<and> rp_link_fd (rs_repl s) \<noteq> Some fd"

lemma add_client_fields [simp]:
  "conn (add_client fd h) fd' = (if fd' = fd then Some (make_client (ho_next_client_id h)) else conn h fd')"
  "ho_pending_close (add_client fd h) = ho_pending_close h" "ho_pending_writes (add_client fd h) = ho_pending_writes h"
  "ho_held_clients (add_client fd h) = ho_held_clients h"
  by (simp_all add: add_client_def conn_def put_conn_def update_conv')

lemma new_client_ok:
  assumes "rs_ok s" "fresh fd s" "client_ok (f (make_client (ho_next_client_id (rs_host s))))"
    "\<And>c. c_closing (f c) = c_closing c" "\<And>c. c_pending_write (f c) = c_pending_write c" "\<And>c. c_repl_state (f c) = c_repl_state c"
  shows "rs_ok (host_upd (\<lambda>h. change fd f (add_client fd h)) s)"
proof -
  let ?h = "rs_host s"
  have fr: "conn ?h fd = None" "rp_link_fd (rs_repl s) \<noteq> Some fd" using assms(2) by (simp_all add: fresh_def)
  have ok: "host_ok ?h" "refs_ok (rs_repl s) ?h" using assms(1) by (simp_all add: rs_ok_def)
  have d: "distinct (map fst (ho_conns (change fd f (add_client fd ?h))))"
    using ok(1) by (simp add: host_ok_def add_client_def put_conn_def distinct_update)
  have n: "fd \<notin> set (ho_pending_close ?h)" "fd \<notin> set (ho_pending_writes ?h)" "fd \<notin> set (ho_held_clients ?h)"
    "fd \<notin> set (rp_replicas (rs_repl s))" "rp_master (rs_repl s) \<noteq> Some fd"
    "\<forall>w \<in> set (rp_waiters (rs_repl s)). wt_client w \<noteq> fd" "fd \<notin> set (rp_to_resume (rs_repl s))"
    using ok fr(1) unfolding host_ok_def refs_ok_def by force+
  have "c_closing (make_client i) = False" "c_pending_write (make_client i) = False" "c_repl_state (make_client i) = kNone" for i
    by (simp_all add: make_client_def)
  then have "host_ok (change fd f (add_client fd ?h))" "refs_ok (rs_repl s) (change fd f (add_client fd ?h))"
    using ok n d fr assms(3-6) unfolding host_ok_def refs_ok_def by auto
  then show ?thesis using assms(1) by (simp add: rs_ok_def)
qed

fun accept_fresh :: "accept_result list \<Rightarrow> rstate \<Rightarrow> bool" where
  "accept_fresh [] s = True"
| "accept_fresh (r # rs) s =
     (case r of
        AcceptNone \<Rightarrow> True
      | AcceptRetry \<Rightarrow> accept_fresh rs s
      | Accepted fd added addr \<Rightarrow> fresh fd s \<and> accept_fresh rs (host_upd (accept_clients [r]) s))"

lemma accept_ok: "rs_ok s \<Longrightarrow> accept_fresh rs s \<Longrightarrow> rs_ok (host_upd (accept_clients rs) s)"
proof (induction rs arbitrary: s)
  case (Cons r rs)
  show ?case
  proof (cases r)
    case (Accepted fd added addr)
    have "rs_ok (host_upd (accept_clients [r]) s)"
      using new_client_ok [OF Cons.prems(1), of fd "\<lambda>c. c\<lparr>c_addr := addr\<rparr>"] Cons.prems Accepted
      by (cases s) (simp add: client_ok_def make_client_def)
    from Cons.IH [OF this] Cons.prems(2) Accepted show ?thesis by (cases s) (simp split: if_splits)
  next
    case AcceptRetry
    have "accept_clients (r # rs) = accept_clients rs" using AcceptRetry by (simp add: fun_eq_iff)
    then show ?thesis using Cons AcceptRetry by simp
  qed (use Cons in \<open>cases s, simp\<close>)
next
  case (Nil s)
  then show ?case by (cases s) simp
qed

lemma drop_conn_ok:
  assumes "rs_ok s" "conn (rs_host s) fd = Some c" "ho_pending_close (rs_host s) = fd # fds" "\<not> c_pending_write c"
  shows "rs_ok (host_upd (\<lambda>h. (drop_conn fd h)\<lparr>ho_pending_close := fds\<rparr>) (client_closed now now' fd s))"
proof -
  have dc: "conn (drop_conn fd h) fd' = (if fd' = fd then None else conn h fd')" for h fd'
    by (simp add: conn_def drop_conn_def delete_conv')
  have cc: "rs_host (client_closed now now' fd s) = change fd (\<lambda>c. c\<lparr>c_repl_snapshot := None\<rparr>) (rs_host s)"
    by (simp add: client_closed_def Let_def)
  have ok: "host_ok (rs_host s)" "refs_ok (rs_repl s) (rs_host s)" using assms(1) by (simp_all add: rs_ok_def)
  let ?h = "(drop_conn fd (rs_host (client_closed now now' fd s)))\<lparr>ho_pending_close := fds\<rparr>"
  have c: "conn ?h fd' = (if fd' = fd then None else conn (rs_host s) fd')" for fd'
    by (simp add: conn_def [of "_\<lparr>ho_pending_close := fds\<rparr>"] conn_def [symmetric] dc cc)
  have "fd \<notin> set fds" "fd \<notin> set (ho_pending_writes (rs_host s))" using ok(1) assms(2-4) by (auto simp: host_ok_def)
  then have "host_ok ?h" using ok(1) assms(3)
    unfolding host_ok_def c by (auto simp: drop_conn_def cc distinct_delete)
  moreover have "refs_ok (rs_repl (client_closed now now' fd s)) ?h"
    using ok(2) unfolding refs_ok_def c by (auto simp: client_closed_def Let_def distinct_removeAll)
  ultimately show ?thesis using assms(1) by (simp add: rs_ok_def client_closed_def Let_def)
qed

definition set_close :: "nat list \<Rightarrow> rstate \<Rightarrow> rstate" where
  "set_close W = host_upd (\<lambda>h. h\<lparr>ho_pending_close := W\<rparr>)"

lemma conn_set_close [simp]: "conn (h\<lparr>ho_pending_close := W\<rparr>) = conn h"
  by (simp add: conn_def fun_eq_iff)

lemma set_close_drop:
  "host_upd (\<lambda>h. (drop_conn fd h)\<lparr>ho_pending_close := fds\<rparr>) (client_closed now now' fd (set_close W s)) =
   set_close fds (host_upd (drop_conn fd) (client_closed now now' fd s))"
  by (cases s) (simp add: set_close_def client_closed_def Let_def change_def put_conn_def drop_conn_def split: option.split)

lemma close_loop_ok:
  "rs_ok (set_close fds s) \<Longrightarrow> ho_pending_writes (rs_host s) = [] \<Longrightarrow> rs_ok (set_close [] (close_loop clk fds s))"
proof (induction fds arbitrary: s clk)
  case (Cons fd fds)
  have "fd \<in> set (ho_pending_close (rs_host (set_close (fd # fds) s)))" by (simp add: set_close_def)
  then obtain c where c: "conn (rs_host s) fd = Some c"
    using Cons.prems(1) unfolding rs_ok_def host_ok_def by (auto simp: set_close_def) blast
  then have "\<not> c_pending_write c" using Cons.prems unfolding rs_ok_def host_ok_def by (auto simp: set_close_def)
  then have "rs_ok (set_close fds (host_upd (drop_conn fd) (client_closed (fst (clk 0)) (snd (clk 0)) fd s)))"
    using drop_conn_ok [OF Cons.prems(1), of fd c fds "fst (clk 0)" "snd (clk 0)"] c
    unfolding set_close_drop by (simp add: set_close_def)
  moreover have "ho_pending_writes (rs_host (host_upd (drop_conn fd) (client_closed (fst (clk 0)) (snd (clk 0)) fd s))) = []"
    using Cons.prems(2) by (simp add: drop_conn_def client_closed_def Let_def)
  ultimately show ?case using Cons.IH c by simp
qed simp

lemma close_pending_ok:
  assumes "rs_ok s" "ho_pending_writes (rs_host s) = []" shows "rs_ok (close_pending clk s)"
proof -
  have "set_close (ho_pending_close (rs_host s)) s = s" by (simp add: set_close_def)
  then have "rs_ok (set_close [] (close_loop clk (ho_pending_close (rs_host s)) s))"
    using assms by (intro close_loop_ok) (simp_all only:)
  then show ?thesis by (simp add: close_pending_def set_close_def)
qed

lemma no_pending_after_flush: "ho_pending_writes (rs_host (snd (flush_pending_writes ios s))) = []"
  by (simp add: flush_pending_writes_def split: prod.split)

section \<open>The link to the master\<close>

abbreviation env_fine :: "renv \<Rightarrow> bool" where
  "env_fine e \<equiv> rs_ok (en_repl e)"

lemma env_fine_iff: "env_fine e \<longleftrightarrow> env_ok (rs_host (en_repl e)) e"
  by (simp add: env_ok_def)

lemma env_fine_ok: "env_ok h e \<Longrightarrow> env_fine e"
  by (simp add: env_ok_def)

lemma env_fine_safe: "safe f \<Longrightarrow> env_fine e \<Longrightarrow> env_fine (e\<lparr>en_repl := f (en_repl e)\<rparr>)"
  by (simp add: safeD)

lemma env_fine_abort: "env_fine e \<Longrightarrow> env_fine (abort_link now e)"
  using env_ok_abort_link env_fine_ok env_fine_iff by blast

lemma env_fine_link_buf: "env_fine e \<Longrightarrow> env_fine (set_link_buf buf e)"
  unfolding set_link_buf_def by (rule env_fine_safe [OF safe_repl]) (simp_all add: same_refs_def)

lemma env_fine_take_line: "env_fine e \<Longrightarrow> env_fine (snd (take_line now e))"
  by (auto simp: take_line_def Let_def env_fine_link_buf env_fine_abort split: option.split)

lemma steady_touch: "steady (change fd (\<lambda>c. c\<lparr>c_last_interaction := now\<rparr>))"
  by (rule steady_change) (simp_all add: todo_def role_def client_ok_def)

lemma adopt_link_ok:
  assumes "env_fine e" shows "env_fine (snd (adopt_link io e))"
proof (cases "rp_link_fd (rs_repl (en_repl e))")
  case (Some fd)
  define s where "s = en_repl e"
  let ?f = "\<lambda>c. c\<lparr>c_is_master := True, c_parser := c_parser c @ rp_link_buf (rs_repl s)\<rparr>"
  define s1 where "s1 = host_upd (unwatch fd) (repl_upd (\<lambda>r. r\<lparr>rp_link_fd := None, rp_link_buf := [],
      rp_link_state := kConnected, rp_replid_shared := True\<rparr>) s)"
  have s: "rs_ok s" "conn (rs_host s) fd = None" using assms Some by (auto simp: s_def rs_ok_def refs_ok_def)
  have "rs_ok (repl_upd (\<lambda>r. r\<lparr>rp_link_fd := None, rp_link_buf := [], rp_link_state := kConnected, rp_replid_shared := True\<rparr>) s)"
    using s(1) by (simp add: rs_ok_def refs_ok_def)
  from rs_ok_steady [OF steady_watchers(1) this] have s1: "rs_ok s1" by (simp add: s1_def)
  have "fresh fd s1" using s(2) by (simp add: fresh_def s1_def unwatch_def conn_def)
  from new_client_ok [OF s1 this, of ?f] have s2: "rs_ok (host_upd (\<lambda>h. change fd ?f (add_client fd h)) s1)"
    by (simp add: client_ok_def make_client_def)
  then have "rs_ok (host_upd (adopt_master (ki_added io) fd (rp_link_buf (rs_repl s))) s1)"
    using rs_ok_steady [OF steady_mark_closing s2] by (cases s1) (simp add: adopt_master_def Let_def)
  from rs_ok_steady [OF steady_touch this, of fd "ki_now io"]
  have "rs_ok (repl_upd (\<lambda>r. r\<lparr>rp_master := Some fd\<rparr>) (host_upd (change fd (\<lambda>c. c\<lparr>c_last_interaction := ki_now io\<rparr>))
      (host_upd (adopt_master (ki_added io) fd (rp_link_buf (rs_repl s))) s1)))"
    by (simp add: rs_ok_def refs_ok_def adopt_master_def Let_def)
  moreover have "(\<lambda>r. r\<lparr>rp_link_fd := None, rp_link_buf := [], rp_master := Some fd, rp_link_state := kConnected, rp_replid_shared := True\<rparr>) =
      (\<lambda>r :: replication. r\<lparr>rp_link_fd := None, rp_link_buf := [], rp_link_state := kConnected, rp_replid_shared := True, rp_master := Some fd\<rparr>)"
    by (rule ext) simp
  ultimately show ?thesis
    using safeD(1) [OF safe_send_ack]
    by (simp add: adopt_link_def s_def [symmetric] Some [folded s_def] Let_def s1_def comp_def)
qed (simp add: adopt_link_def assms)

lemma env_fine_psync_reply: "env_fine e \<Longrightarrow> env_fine (snd (handle_psync_reply io line e))"
proof -
  assume e: "env_fine e"
  have 1: "safe (repl_upd (\<lambda>r. r\<lparr>rp_transfer_replid := ident, rp_transfer_offset := ofs, rp_transfer_path := path\<rparr>))" for ident ofs path
    by (rule safe_repl) (simp add: same_refs_def)
  have 2: "safe (repl_upd (\<lambda>r. r\<lparr>rp_transfer_open := True, rp_transfer_remaining := None, rp_link_state := kTransfer\<rparr>))"
    by (rule safe_repl) (simp add: same_refs_def)
  have 3: "safe (\<lambda>s. disconnect_replicas (repl_upd (\<lambda>r. r\<lparr>rp_replid2 := rp_replid r, rp_second_replid_offset := Some (repl_offset r),
      rp_replid := ident\<rparr>) s))" for ident
    by (intro safe_comp [OF safe_disconnect] safe_repl) (simp add: same_refs_def)
  note ok = safeD(1) [OF 1 e] safeD(1) [OF 2 safeD(1) [OF 1 e]] safeD(1) [OF 3 e]
  show ?thesis
    using e ok by (auto simp: handle_psync_reply_def Let_def env_fine_abort adopt_link_ok split: option.split)
qed

lemma bl_ok_reset: "bl_ok b \<Longrightarrow> bl_ok (bl_reset ofs b)"
  unfolding bl_ok_def
  by (auto simp: bl_holds_def bl_ring_def bl_reset_def bl_capacity_def age_pos_def intro!: exI [of _ "unat ofs"] exI [of _ "[]"])

lemma load_loop_inv: "store_inv st \<Longrightarrow> store_inv (snd (snd (load_loop now clk j r st)))"
proof (induction now clk j r st rule: load_loop.induct)
  case (1 now clk j r st)
  have "store_inv (load_record now (clk j) rc st)" for rc
    using 1(2) by (auto simp: load_record_def Let_def store_ops_inv split: prod.split option.split)
  then show ?case
    using 1 by (subst load_loop.simps) (auto split: prod.split sum.split option.split)
qed

lemma snapshot_load_inv: "store_inv st \<Longrightarrow> store_inv (snd (snd (snapshot_load file now clk st)))"
  using load_loop_inv by (auto simp: snapshot_load_def load_from_def Let_def split: open_result.split prod.split option.split) (metis snd_conv)+

lemma replace_dataset_inv:
  assumes "store_inv st" "replace_dataset se io file st files p = (err, st', files', p', told)"
  shows "store_inv st'"
proof -
  obtain fs1 p1 told1 where k: "kill_child se (ri_finish io) files p = (fs1, p1, told1)" by (metis prod.exhaust)
  obtain r e st1 where l: "snapshot_load (li_open (ri_load io) file) (li_now (ri_load io)) (li_clk (ri_load io)) (store_clear st) = (r, e, st1)"
    by (metis prod.exhaust)
  have "store_inv (store_clear st)" using step_okD(1) [OF store_clear_ok [OF assms(1)]] .
  from snapshot_load_inv [OF this] l have "store_inv st1" by (metis snd_conv)
  then have "store_inv (st1\<lparr>st_notified := []\<rparr>)" by simp
  moreover have "st' = st1\<lparr>st_notified := []\<rparr>"
    using assms(2) by (auto simp: replace_dataset_def k l Let_def split: load_result.splits option.splits prod.splits)
  ultimately show ?thesis by simp
qed

lemma finish_transfer_ok:
  assumes "env_fine e" "store_inv st" "finish_transfer se io st e = (fd, st', e')"
  shows "env_fine e' \<and> store_inv st'"
proof -
  define s where "s = disconnect_replicas (repl_upd (\<lambda>r. r\<lparr>rp_transfer_open := False\<rparr>) (en_repl e))"
  have 0: "safe (repl_upd (\<lambda>r. r\<lparr>rp_transfer_open := False\<rparr>))" by (rule safe_repl) (simp add: same_refs_def)
  have s: "rs_ok s" unfolding s_def by (rule safeD(1) [OF safe_disconnect safeD(1) [OF 0 assms(1)]])
  obtain err st1 fs p told where r: "replace_dataset se (ki_replace io) (rp_transfer_path (rs_repl s)) st (en_files e) (en_pers e) =
      (err, st1, fs, p, told)" by (metis prod.exhaust)
  have st1: "store_inv st1" by (rule replace_dataset_inv [OF assms(2) r])
  define s2 where "s2 = repl_upd (\<lambda>r. r\<lparr>rp_transfer_path := []\<rparr>)
      (case told of None \<Rightarrow> s | Some ok \<Rightarrow> snapshot_finished ok (ki_opened io) [] s)"
  have 1: "safe (repl_upd (\<lambda>r. r\<lparr>rp_transfer_path := []\<rparr>))" by (rule safe_repl) (simp add: same_refs_def)
  have s2: "rs_ok s2" unfolding s2_def
    using safeD(1) [OF 1 s] safeD(1) [OF 1 safeD(1) [OF safe_snapshot_finished s]] by (cases told) auto
  define s3 where "s3 = repl_upd (\<lambda>r. r\<lparr>rp_replid := rp_transfer_replid r, rp_replid2 := replicate kReplIdLength (CHR ''0''),
      rp_second_replid_offset := None, rp_backlog := bl_reset (rp_transfer_offset r) (rp_backlog r)\<rparr>) s2"
  have s3: "rs_ok s3" using s2 by (simp add: s3_def rs_ok_def refs_ok_def bl_ok_reset)
  obtain fd1 e1 where a: "adopt_link io (e\<lparr>en_files := fs, en_pers := p, en_repl := s3\<rparr>) = (fd1, e1)" by (metis prod.exhaust)
  have e1: "env_fine e1" using adopt_link_ok [of "e\<lparr>en_files := fs, en_pers := p, en_repl := s3\<rparr>" io] s3 a by simp
  have f: "finish_transfer se io st e =
      (if ki_fsync io \<noteq> 0 then (None, st, abort_link (ki_now io) (e\<lparr>en_repl := repl_upd (\<lambda>r. r\<lparr>rp_transfer_open := False\<rparr>) (en_repl e)\<rparr>))
       else if err \<noteq> None then (None, st1, abort_link (ki_now io) (e\<lparr>en_files := fs, en_pers := p, en_repl := s2\<rparr>))
       else (fd1, st1, e1))"
    unfolding finish_transfer_def Let_def s_def [symmetric] r prod.case s2_def [symmetric] s3_def [symmetric]
    by (simp add: a)
  have "env_fine (abort_link (ki_now io) (e\<lparr>en_repl := repl_upd (\<lambda>r. r\<lparr>rp_transfer_open := False\<rparr>) (en_repl e)\<rparr>))"
    "env_fine (abort_link (ki_now io) (e\<lparr>en_files := fs, en_pers := p, en_repl := s2\<rparr>))"
    using s2 safeD(1) [OF 0 assms(1)] by (simp_all add: env_fine_abort)
  then show ?thesis using assms(2,3) st1 e1 unfolding f by (auto split: if_splits)
qed

lemma link_handshake_ok: "env_fine e \<Longrightarrow> env_fine (snd (link_handshake io e))"
proof -
  assume e: "env_fine e"
  obtain l e1 where t: "take_line (ki_now io) e = (l, e1)" by (metis prod.exhaust)
  have e1: "env_fine e1" using env_fine_take_line [OF e, of "ki_now io"] t by simp
  have 1: "safe (repl_upd (\<lambda>r. r\<lparr>rp_handshake_replies := n\<rparr>))" for n by (rule safe_repl) (simp add: same_refs_def)
  have 2: "env_fine e2" if "handle_psync_reply io line e1 = (x, e2)" for line x e2
    using env_fine_psync_reply [OF e1, of io line] that by simp
  show ?thesis
    using e1 safeD(1) [OF 1 e1] 2
    by (auto simp: link_handshake_def t Let_def env_fine_abort split: option.split prod.split)
qed

lemma transfer_header_ok: "env_fine e \<Longrightarrow> env_fine (snd (transfer_header io e))"
proof -
  assume e: "env_fine e"
  obtain l e1 where t: "take_line (ki_now io) e = (l, e1)" by (metis prod.exhaust)
  have e1: "env_fine e1" using env_fine_take_line [OF e, of "ki_now io"] t by simp
  have 1: "safe (repl_upd (\<lambda>r. r\<lparr>rp_transfer_remaining := Some n\<rparr>))" for n by (rule safe_repl) (simp add: same_refs_def)
  show ?thesis
    using e e1 safeD(1) [OF 1 e1] by (auto simp: transfer_header_def t env_fine_abort split: option.split)
qed

lemma link_transfer_ok:
  assumes "env_fine e" "store_inv st" "link_transfer se io st e = (nxt, st', e')"
  shows "env_fine e' \<and> store_inv st'"
proof -
  obtain h e1 where t: "transfer_header io e = (h, e1)" by (metis prod.exhaust)
  have e1: "env_fine e1" using transfer_header_ok [OF assms(1), of io] t by simp
  show ?thesis
  proof (cases h)
    case None
    then show ?thesis using assms t e1 by (simp add: link_transfer_def)
  next
    case (Some remaining)
    define r where "r = rs_repl (en_repl e1)"
    define n where "n = min (unat remaining) (length (rp_link_buf r))"
    define files where "files = (en_files e1)(rp_transfer_path r := map_option (\<lambda>c. c @ take (min (ki_wrote io) n) (rp_link_buf r)) (en_files e1 (rp_transfer_path r)))"
    define e2 where "e2 = e1\<lparr>en_files := files, en_repl := repl_upd (\<lambda>r. r\<lparr>rp_link_buf := drop n (rp_link_buf r),
        rp_transfer_remaining := Some (remaining - of_nat n)\<rparr>) (en_repl e1)\<rparr>"
    have "safe (repl_upd (\<lambda>r. r\<lparr>rp_link_buf := drop n (rp_link_buf r), rp_transfer_remaining := Some (remaining - of_nat n)\<rparr>))"
      by (rule safe_repl) (simp add: same_refs_def)
    from safeD(1) [OF this e1] have e2: "env_fine e2" by (simp add: e2_def)
    obtain fd st2 e3 where f: "finish_transfer se io st e2 = (fd, st2, e3)" by (metis prod.exhaust)
    have e3: "env_fine e3" "store_inv st2" using finish_transfer_ok [OF e2 assms(2) f] by auto
    have l: "link_transfer se io st e =
       (if n > 0 \<and> min (ki_wrote io) n \<noteq> n then (LinkStop, st, abort_link (ki_now io) (e1\<lparr>en_files := files\<rparr>))
        else if remaining - of_nat n > 0 then (LinkStop, st, e2)
        else (case fd of None \<Rightarrow> (LinkStop, st2, e3) | Some fd \<Rightarrow> (LinkAdopted fd, st2, e3)))"
      unfolding link_transfer_def t Some prod.case option.case Let_def r_def [symmetric] n_def [symmetric] files_def [symmetric] e2_def [symmetric] f
      by (cases fd) simp_all
    have "env_fine (abort_link (ki_now io) (e1\<lparr>en_files := files\<rparr>))" using e1 by (simp add: env_fine_abort)
    then show ?thesis using assms(2,3) e2 e3 unfolding l by (auto split: if_splits option.splits)
  qed
qed

lemma link_step_ok:
  assumes "env_fine e" "store_inv st" "link_step se io st e = (nxt, st', e')"
  shows "env_fine e' \<and> store_inv st'"
  using assms link_handshake_ok [OF assms(1), of io] link_transfer_ok [OF assms(1,2), of se io]
  by (auto simp: link_step_def split: link_state.splits prod.splits)

lemma process_link_input_ok:
  assumes "env_fine e" "store_inv st" "process_link_input se io st e = (fd, st', e')"
  shows "env_fine e' \<and> store_inv st'"
  using assms
proof (induction se io st e arbitrary: fd st' e' rule: process_link_input.induct)
  case (1 se io st e)
  obtain nxt st1 e1 where l: "link_step se io st e = (nxt, st1, e1)" by (metis prod.exhaust)
  have ok: "env_fine e1" "store_inv st1" using link_step_ok [OF 1(2,3) l] by auto
  show ?case
  proof (cases nxt)
    case LinkAgain
    then show ?thesis using 1(1) [OF l [symmetric] LinkAgain refl ok] 1(4) by (subst (asm) process_link_input.simps) (simp add: l)
  qed (use 1(4) ok in \<open>subst (asm) process_link_input.simps, simp add: l\<close>)+
qed

lemma on_link_ready_ok:
  assumes "env_fine e" "store_inv st" "on_link_ready se io st e = (fd, st', e')"
  shows "env_fine e' \<and> store_inv st'"
proof -
  have 1: "safe (repl_upd (\<lambda>r. r\<lparr>rp_link_last_io := ki_now io, rp_link_buf := rp_link_buf r @ data\<rparr>))" for data
    by (rule safe_repl) (simp add: same_refs_def)
  have "env_fine e2 \<and> store_inv st2" if "read_link se io st e = (fd2, st2, e2)" for fd2 st2 e2
    using that assms(1,2) safeD(1) [OF 1 assms(1)] process_link_input_ok [of "e\<lparr>en_repl := _\<rparr>" st se io]
    by (auto simp: read_link_def env_fine_abort split: link_read.splits) blast+
  moreover have 2: "safe (repl_upd (\<lambda>r. r\<lparr>rp_link_state := kHandshake, rp_handshake_replies := 0, rp_link_last_io := ki_now io\<rparr>))"
    by (rule safe_repl) (simp add: same_refs_def)
  ultimately show ?thesis
    using assms safeD(1) [OF 2 assms(1)] safeD(1) [OF 2 rs_ok_steady [OF steady_watchers(2) assms(1)]]
    by (auto simp: on_link_ready_def Let_def env_fine_abort split: if_splits option.splits)
qed

lemma link_ready_ok: 
  assumes co: "cluster_fine co" and d: "srv_ok d"
  shows "\<exists>d'. link_ready se ios co io d = Some d' \<and> srv_ok d'"
proof -
  obtain fd st e where r: "on_link_ready se io (d_store d) (d_env d) = (fd, st, e)" by (metis prod.exhaust)
  have "srv_ok (d\<lparr>d_store := st, d_env := e\<rparr>)" using on_link_ready_ok [OF _ _ r] d by (simp add: srv_ok_def)
  then show ?thesis
    using returnsD [OF process_buffered_returns [OF co]] good_ok by (cases fd) (force simp: link_ready_def r Let_def)+
qed

section \<open>Hooks\<close>

text \<open>The socket of a new link is one the kernel just created.\<close>

definition link_fresh :: "link_io \<Rightarrow> renv \<Rightarrow> bool" where
  "link_fresh io e \<longleftrightarrow> (\<forall>fd. ki_connect io = Some fd \<longrightarrow> conn (rs_host (en_repl e)) fd = None)"

lemma connect_ok:
  assumes "env_fine e" "link_fresh io e" shows "env_fine (connect_to_master io e)"
proof -
  have 1: "safe (repl_upd (\<lambda>r. r\<lparr>rp_next_connect := t\<rparr>))" for t by (rule safe_repl) (simp add: same_refs_def)
  note s = safeD(1) [OF 1 assms(1)]
  show ?thesis
  proof (cases "ki_connect io")
    case (Some fd)
    show ?thesis
    proof (cases "ki_watch io")
      case True
      have "rs_ok (host_upd (\<lambda>h. snd (watch True fd h)) (repl_upd (\<lambda>r. r\<lparr>rp_next_connect := ki_now io + kReconnectDelay\<rparr>) (en_repl e)))"
        by (rule rs_ok_steady [OF steady_watchers(2) s])
      moreover have "conn (rs_host (en_repl e)) fd = None" using assms(2) Some by (simp add: link_fresh_def)
      ultimately show ?thesis
        using True Some by (simp add: connect_to_master_def Let_def watch_def rs_ok_def refs_ok_def conn_def)
    qed (use s Some in \<open>simp add: connect_to_master_def Let_def watch_def\<close>)
  qed (use s in \<open>simp add: connect_to_master_def Let_def\<close>)
qed

lemma cron_link_ok: "env_fine e \<Longrightarrow> link_fresh io e \<Longrightarrow> env_fine (cron_link io t e)"
  using connect_ok [of e io] env_fine_abort [of e] rs_ok_steady [OF steady_mark_closing, of "en_repl e"]
  by (auto simp: cron_link_def Let_def split: link_state.split option.split)

lemma cron_second_ok:
  assumes "env_fine e" shows "env_fine (cron_second se sio t e)"
proof -
  define s1 where "s1 = repl_upd (\<lambda>r. r\<lparr>rp_last_second_tick := t\<rparr>) (en_repl e)"
  define s2 where "s2 = (case rp_master (rs_repl s1) of None \<Rightarrow> s1 | Some fd \<Rightarrow>
      (case conn (rs_host s1) fd of Some c \<Rightarrow> if c_closing c then s1 else send_ack s1 | None \<Rightarrow> s1))"
  define s3 where "s3 = (if \<not> is_replica (rs_repl s2) \<and> \<not> rp_stream_paused (rs_repl s2) \<and> rp_replicas (rs_repl s2) \<noteq> [] \<and>
      t - rp_last_ping (rs_repl s2) \<ge> ro_ping_period (rp_options (rs_repl s2))
      then repl_propagate [''PING''] (repl_upd (\<lambda>r. r\<lparr>rp_last_ping := t\<rparr>) s2) else s2)"
  define s4 where "s4 = host_upd (fold (cron_replica t (ro_timeout (rp_options (rs_repl s2)))) (rp_replicas (rs_repl s2))) s3"
  have 1: "safe (repl_upd (\<lambda>r. r\<lparr>rp_last_second_tick := t\<rparr>))" "safe (repl_upd (\<lambda>r. r\<lparr>rp_last_ping := t\<rparr>))"
    by (rule safe_repl, simp add: same_refs_def)+
  have s1: "rs_ok s1" unfolding s1_def by (rule safeD(1) [OF 1(1) assms])
  then have s2: "rs_ok s2" using safeD(1) [OF safe_send_ack s1] by (auto simp: s2_def split: option.split)
  then have s3: "rs_ok s3" using safeD(1) [OF safe_propagate safeD(1) [OF 1(2) s2]] by (simp add: s3_def)
  have "rs_ok s4" unfolding s4_def by (rule rs_ok_steady [OF steady_fold [OF steady_cron_replica] s3])
  then have "env_ok (rs_host s4) (e\<lparr>en_repl := s4\<rparr>)" by (simp add: env_ok_def)
  from env_fine_ok [OF env_ok_start_snapshot [OF this]] show ?thesis
    using assms unfolding cron_second_def Let_def s1_def [symmetric] s2_def [symmetric] s3_def [symmetric] s4_def [symmetric] by simp
qed

lemma returns_deliver:
  assumes "cluster_fine co" "srv_ok d" shows "good d (deliver (server_services se io co fd) d)"
proof -
  have "env_ok (sv_host d) (fold (sv_on_deleted (server_services se io co fd)) ks e)" if "env_ok (sv_host d) e" for ks e
    using that
  proof (induction ks arbitrary: e)
    case (Cons k ks)
    have "env_ok (sv_host d) (wire_propagate repl_propagate [''DEL'', k] e)"
      using env_ok_safe [OF safe_propagate Cons.prems] Cons.prems by (simp add: wire_propagate_def env_ok_def)
    then show ?case using Cons.IH by (simp add: server_services_fields)
  qed simp
  from this [of "d_env d"] have "env_ok (sv_host d) (d_env (deliver (server_services se io co fd) d))"
    using assms(2) by (simp add: env_ok_def srv_ok_def)
  then show ?thesis using assms(2) by (intro good_todo) (simp_all add: srv_ok_def env_ok_def)
qed

lemma store_loops_inv:
  assumes "store_inv st"
  shows "active_expire_cycle rounds st = Some (n, st') \<Longrightarrow> store_inv st'" "active_rehash timeups st = Some (b, st') \<Longrightarrow> store_inv st'"
  using store_apply_ok [OF assms, of "SActiveExpire rounds"] store_apply_ok [OF assms, of "SRehash timeups"]
  by (auto simp: apply_ok_def op_ok_def)

text \<open>The clock readings and draws given for the two loops over the store end before the loops do.\<close>

definition undecided :: "cron_io \<Rightarrow> bool" where
  "undecided io \<longleftrightarrow> (\<exists>st. store_inv st \<and> (active_expire_cycle (ct_expire io) st = None \<or> active_rehash (ct_rehash io) st = None))"

definition hooks_fine :: "cluster_hooks \<Rightarrow> bool" where
  "hooks_fine ch \<longleftrightarrow> returns (ch_cron ch) \<and> returns (ch_before_sleep ch) \<and> (\<forall>t. returns (ch_after_stall ch t)) \<and>
     (\<forall>fd d. srv_ok d \<longrightarrow> (\<exists>d'. ch_watch ch fd d = Some d' \<and> srv_ok d'))"

lemma hooks_fine_none: "hooks_fine no_cluster"
  by (simp add: hooks_fine_def no_cluster_def returns_Some)

lemma repl_cron_ok:
  assumes co: "cluster_fine co" and d: "srv_ok d" and f: "link_fresh lio (d_env d)"
  shows "\<exists>d'. repl_cron se ios co lio sio t now d = Some d' \<and> srv_ok d'"
proof -
  obtain d1 where d1: "unblock_waiters se ios co now d = Some d1" "good d d1"
    using returnsD [OF unblock_waiters_returns [OF co] d] by blast
  have "link_fresh lio (d_env d1)" using f d1(2) by (auto simp: link_fresh_def good_def same_conns_def)
  from cron_second_ok [OF cron_link_ok [OF _ this]] good_ok [OF d1(2)]
  have "srv_ok (on_env (\<lambda>e. cron_second se sio t (cron_link lio t e)) d1)" by (simp add: srv_ok_def)
  then show ?thesis by (simp add: repl_cron_def d1(1))
qed

lemma cron_task_ok:
  assumes co: "cluster_fine co" "hooks_fine ch" and d: "srv_ok d" and f: "link_fresh (ct_link io) (d_env d)"
  shows "(\<exists>d'. cron_task se io co ch d = Some d' \<and> srv_ok d') \<or> cron_task se io co ch d = None \<and> undecided io"
proof (cases "active_expire_cycle (ct_expire io) (d_store d)")
  case None
  then show ?thesis using d by (auto simp: cron_task_def undecided_def srv_ok_def)
next
  case (Some x)
  then obtain n st where x: "active_expire_cycle (ct_expire io) (d_store d) = Some (n, st)" by (cases x) auto
  let ?sv = "server_services se (ct_cmds io 0 0) co 0"
  define d1 where "d1 = deliver ?sv (d\<lparr>d_store := st\<rparr>)"
  have "srv_ok (d\<lparr>d_store := st\<rparr>)" using d store_loops_inv(1) [OF _ x] by (simp add: srv_ok_def)
  from returns_deliver [OF co(1) this] have g1: "good (d\<lparr>d_store := st\<rparr>) d1" by (simp add: d1_def)
  note d1 = good_ok [OF g1]
  show ?thesis
  proof (cases "active_rehash (ct_rehash io) (d_store d1)")
    case None
    have "store_inv (d_store d1)" using d1 by (simp add: srv_ok_def)
    then have "undecided io" using None by (auto simp: undecided_def)
    then show ?thesis unfolding cron_task_def x option.case prod.case Let_def d1_def [symmetric] None by simp
  next
    case (Some y)
    then obtain b st2 where y: "active_rehash (ct_rehash io) (d_store d1) = Some (b, st2)" by (cases y) auto
    obtain fs p told where pc: "pers_cron se (ct_wait io) (ct_finish io) (ct_now io) (ct_start io) (en_files (d_env d1)) (en_pers (d_env d1)) = (fs, p, told)"
      by (metis prod.exhaust)
    define s where "s = (case told of None \<Rightarrow> en_repl (d_env d1) | Some ok \<Rightarrow> snapshot_finished ok (ct_opened io)
        (case fs (snapshot_path p) of Some snap \<Rightarrow> snap | None \<Rightarrow> []) (en_repl (d_env d1)))"
    let ?d2 = "d1\<lparr>d_store := st2, d_env := (d_env d1)\<lparr>en_files := fs, en_pers := p, en_repl := s\<rparr>\<rparr>"
    have rs: "rs_ok (en_repl (d_env d1))" using d1 by (simp add: srv_ok_def)
    have s: "rs_ok s" "same_todo (rs_host (en_repl (d_env d1))) (rs_host s)"
      using rs safeD [OF safe_snapshot_finished rs] by (auto simp: s_def split: option.split)
    have d2: "srv_ok ?d2" using s(1) d1 store_loops_inv(2) [OF _ y] by (simp add: srv_ok_def)
    have "link_fresh (ct_link io) (d_env ?d2)"
      using f same_todo_None [OF s(2)] g1 by (auto simp: link_fresh_def good_def same_conns_def)
    from repl_cron_ok [OF co(1) d2 this] obtain d3 where
      "repl_cron se (ct_cmds io) co (ct_link io) (ct_repl_start io) (ct_steady io) (ct_steady io) ?d2 = Some d3" "srv_ok d3" by blast
    moreover have "cron_task se io co ch d = Option.bind
        (repl_cron se (ct_cmds io) co (ct_link io) (ct_repl_start io) (ct_steady io) (ct_steady io) ?d2) (ch_cron ch)"
      unfolding cron_task_def x option.case prod.case Let_def d1_def [symmetric] y by (cases told) (simp_all add: pc s_def)
    moreover have "\<exists>d'. ch_cron ch d3 = Some d' \<and> good d3 d'" if "srv_ok d3" for d3
      using returnsD [of "ch_cron ch", OF _ that] co(2) by (simp add: hooks_fine_def)
    ultimately show ?thesis using good_ok by fastforce
  qed
qed

section \<open>Iterations\<close>

text \<open>With appendfsync set to always, an iteration whose flush of the append-only file fails ends the process.\<close>

definition flush_exits :: "flush_io \<Rightarrow> bool" where
  "flush_exits io \<longleftrightarrow> (\<exists>files (p :: persistence) a. pe_aof p = Some a \<and> op_appendfsync (pe_options p) = kAlways \<and> \<not> fst (aof_flush io files a))"

lemma before_sleep_hook_ok:
  assumes co: "cluster_fine co" "hooks_fine ch" and d: "srv_ok d"
  shows "(\<exists>d'. before_sleep_hook se io co ch d = Some d' \<and> srv_ok d') \<or> before_sleep_hook se io co ch d = None \<and> flush_exits (sl_flush io)"
proof -
  obtain d1 where d1: "ch_before_sleep ch d = Some d1" "good d d1" using returnsD [OF _ d, of "ch_before_sleep ch"] co(2) by (auto simp: hooks_fine_def)
  obtain d2 where d2: "repl_before_sleep se (sl_resume io) (sl_release io) co (sl_now io) d1 = Some d2" "good d1 d2"
    using returnsD [OF repl_before_sleep_returns [OF co(1)] good_ok [OF d1(2)]] by blast
  show ?thesis
  proof (cases "before_sleep (sl_flush io) (en_files (d_env d2)) (en_pers (d_env d2))")
    case None
    then have "flush_exits (sl_flush io)"
      by (auto simp: before_sleep_def flush_exits_def split: option.splits prod.splits if_splits) (metis fst_conv)
    then show ?thesis by (simp add: before_sleep_hook_def d1 d2 None)
  next
    case (Some x)
    then show ?thesis using good_ok [OF d2(2)] by (cases x) (simp add: before_sleep_hook_def d1 d2 srv_ok_def)
  qed
qed

lemma srv_ok_flush: "srv_ok d \<Longrightarrow> flush_client io fd (en_repl (d_env d)) = (sent, s) \<Longrightarrow> srv_ok (on_rstate (\<lambda>_. s) d)"
  using flush_client_ok [of "en_repl (d_env d)" io fd] by (simp add: srv_ok_def)

definition event_fresh :: "event \<Rightarrow> server \<Rightarrow> bool" where
  "event_fresh ev d \<longleftrightarrow> (case ev of Listen rs \<Rightarrow> accept_fresh rs (en_repl (d_env d)) | _ \<Rightarrow> True)"

lemma handle_event_ok:
  assumes co: "cluster_fine co" "hooks_fine ch" and d: "srv_ok d" and f: "event_fresh ev d"
  shows "\<exists>go_on log d'. handle_event se co ch ev d = Some (go_on, log, d') \<and> srv_ok d'"
proof (cases ev)
  case (Listen rs)
  have "srv_ok (on_host (accept_clients rs) d)"
    using accept_ok [of "en_repl (d_env d)" rs] d f Listen by (simp add: srv_ok_def event_fresh_def)
  then show ?thesis by (auto simp: handle_event_def Listen)
next
  case (Ready fd readable writable io)
  have watch: "\<exists>d'. (if rp_link_fd (sv_repl d) = Some fd then link_ready se (re_cmds io) co (re_link io) d else ch_watch ch fd d) = Some d' \<and> srv_ok d'"
    using link_ready_ok [OF co(1) d] co(2) d by (simp add: hooks_fine_def)
  have read: "\<exists>d'. (if readable then handle_readable se (re_cmds io) co (re_read io) (re_now io) fd d else Some d) = Some d' \<and> srv_ok d'"
    using returnsD [OF handle_readable_returns [OF co(1)] d] d good_ok by (simp split: if_split) blast
  then obtain d1 where d1: "(if readable then handle_readable se (re_cmds io) co (re_read io) (re_now io) fd d else Some d) = Some d1" "srv_ok d1"
    by blast
  obtain sent s where fl: "flush_client (re_flush io) fd (en_repl (d_env d1)) = (sent, s)" by (metis prod.exhaust)
  show ?thesis
    using watch d d1 srv_ok_flush [OF d1(2) fl]
    by (cases "conn (sv_host d) fd") (auto simp: handle_event_def Ready fl)
qed (use d in \<open>auto simp: handle_event_def\<close>)

fun events_fresh :: "strerror \<Rightarrow> renv cluster_ops option \<Rightarrow> cluster_hooks \<Rightarrow> event list \<Rightarrow> server \<Rightarrow> bool" where
  "events_fresh se co ch [] d = True"
| "events_fresh se co ch (ev # evs) d =
     (event_fresh ev d \<and> (case handle_event se co ch ev d of Some (_, _, d) \<Rightarrow> events_fresh se co ch evs d | None \<Rightarrow> True))"

lemma handle_events_ok:
  assumes co: "cluster_fine co" "hooks_fine ch" and "srv_ok d" "events_fresh se co ch evs d"
  shows "\<exists>go_on log d'. handle_events se co ch evs d = Some (go_on, log, d') \<and> srv_ok d'"
  using assms(3-)
proof (induction evs arbitrary: d)
  case (Cons ev evs)
  obtain g l d1 where d1: "handle_event se co ch ev d = Some (g, l, d1)" "srv_ok d1"
    using handle_event_ok [OF co Cons.prems(1), of ev se] Cons.prems(2) by auto
  then show ?case using Cons.IH [OF d1(2)] Cons.prems(2) by auto
qed auto

text \<open>
  The assumption on the kernel: a descriptor that \<^verbatim>\<open>accept\<close> or \<^verbatim>\<open>socket\<close> returns in the iteration is
  not open at that time.
\<close>

definition iteration_fresh :: "strerror \<Rightarrow> renv cluster_ops option \<Rightarrow> cluster_hooks \<Rightarrow> int \<Rightarrow> iter_io \<Rightarrow> server \<Rightarrow> bool" where
  "iteration_fresh se co ch stall_threshold io d \<longleftrightarrow>
     (case if it_gap io > stall_threshold then ch_after_stall ch (it_gap io) d else Some d of
        None \<Rightarrow> True
      | Some d \<Rightarrow>
          events_fresh se co ch (it_events io) d \<and>
          (case handle_events se co ch (it_events io) d of
             Some (_, _, d) \<Rightarrow> link_fresh (ct_link (it_cron io)) (d_env d)
           | None \<Rightarrow> True))"

lemma run_iteration_ok:
  assumes co: "cluster_fine co" "hooks_fine ch" and d: "srv_ok d" and f: "iteration_fresh se co ch thr io d"
  shows "case run_iteration se co ch thr io d of
           Some (_, _, _, d') \<Rightarrow> srv_ok d'
         | None \<Rightarrow> it_due io \<and> undecided (it_cron io) \<or> flush_exits (sl_flush (it_sleep io))"
proof -
  have "returns (\<lambda>d. if it_gap io > thr then ch_after_stall ch (it_gap io) d else Some d)"
    using co(2) by (intro returns_if returns_Some) (simp add: hooks_fine_def)
  from returnsD [OF this d] obtain d1 where d1: "(if it_gap io > thr then ch_after_stall ch (it_gap io) d else Some d) = Some d1" "srv_ok d1"
    using good_ok by blast
  have "events_fresh se co ch (it_events io) d1" using f unfolding iteration_fresh_def d1(1) option.case by (rule conjunct1)
  from handle_events_ok [OF co d1(2) this] obtain running early d2 where
    d2: "handle_events se co ch (it_events io) d1 = Some (running, early, d2)" "srv_ok d2" by blast
  have lf: "link_fresh (ct_link (it_cron io)) (d_env d2)"
    using f unfolding iteration_fresh_def d1(1) option.case d2(1) prod.case by (rule conjunct2)
  have eq: "run_iteration se co ch thr io d =
     Option.bind (if it_due io then cron_task se (it_cron io) co ch d2 else Some d2) (\<lambda>d.
     Option.bind (if ho_resume_held (sv_host d) then resume_held_clients se (it_resume io) co d else Some d) (\<lambda>d.
     Option.bind (before_sleep_hook se (it_sleep io) co ch d) (\<lambda>d.
       case flush_pending_writes (it_flush io) (en_repl (d_env d)) of
         (sent, s) \<Rightarrow> Some (running, early, sent, on_rstate (\<lambda>_. close_pending (it_close io) s) d))))"
    unfolding run_iteration_def d1(1) bind.simps d2(1) prod.case ..
  show ?thesis
  proof (cases "if it_due io then cron_task se (it_cron io) co ch d2 else Some d2")
    case None
    moreover have "it_due io \<and> undecided (it_cron io)" using None cron_task_ok [OF co d2(2) lf, of se] by (auto split: if_splits)
    ultimately show ?thesis unfolding eq by simp
  next
    case (Some d3)
    then have d3: "srv_ok d3" using cron_task_ok [OF co d2(2) lf, of se] d2(2) by (auto split: if_splits)
    have "returns (\<lambda>d. if ho_resume_held (sv_host d) then resume_held_clients se (it_resume io) co d else Some d)"
      by (intro returns_if returns_Some resume_held_returns [OF co(1)])
    from returnsD [OF this d3] obtain d4 where
      d4: "(if ho_resume_held (sv_host d3) then resume_held_clients se (it_resume io) co d3 else Some d3) = Some d4" "srv_ok d4"
      using good_ok by blast
    from before_sleep_hook_ok [OF co d4(2), of se "it_sleep io"] show ?thesis
    proof (elim disjE exE conjE)
      fix d5 assume d5: "before_sleep_hook se (it_sleep io) co ch d4 = Some d5" "srv_ok d5"
      obtain sent s where fl: "flush_pending_writes (it_flush io) (en_repl (d_env d5)) = (sent, s)" by fastforce
      have "rs_ok (en_repl (d_env d5))" using d5(2) by (simp add: srv_ok_def)
      from flush_pending_writes_ok [OF this, of "it_flush io"] no_pending_after_flush [of "it_flush io" "en_repl (d_env d5)"]
      have "rs_ok (close_pending (it_close io) s)" by (simp add: close_pending_ok fl)
      then show ?thesis using d5(2) unfolding eq Some bind.simps d4(1) d5(1) fl prod.case by (simp add: srv_ok_def)
    next
      assume n: "before_sleep_hook se (it_sleep io) co ch d4 = None" "flush_exits (sl_flush (it_sleep io))"
      show ?thesis using n(2) unfolding eq Some bind.simps d4(1) n(1) by simp
    qed
  qed
qed

section \<open>All servers the loop can reach\<close>

text \<open>
  A server without cluster mode: it starts with the store that was loaded, no connections and a
  fresh replication, maybe as a replica, and runs iterations with whatever the kernel, the clocks
  and the peers do.
\<close>

inductive serving :: "strerror \<Rightarrow> int \<Rightarrow> server \<Rightarrow> bool" for se thr where
  start: "reachable maxmemory policy (d_store d) \<Longrightarrow>
    en_repl (d_env d) = \<lparr>rs_repl = make_replication draws options, rs_host = make_host maxclients\<rparr> \<Longrightarrow>
    serving se thr (begin_serving now now' master d)"
| iteration: "serving se thr d \<Longrightarrow> iteration_fresh se None no_cluster thr io d \<Longrightarrow>
    run_iteration se None no_cluster thr io d = Some (running, early, sent, d') \<Longrightarrow> serving se thr d'"

lemma no_cluster_fine: "cluster_fine None"
  by (simp add: cluster_ok_def)

lemma make_rs_ok: "rs_ok \<lparr>rs_repl = make_replication draws options, rs_host = make_host maxclients\<rparr>"
proof -
  have "bl_ok (make_backlog cap)" for cap
    unfolding bl_ok_def
    by (auto simp: bl_holds_def bl_ring_def make_backlog_def bl_capacity_def age_pos_def intro!: exI [of _ "0"] exI [of _ "[]"])
  then show ?thesis
    by (simp add: rs_ok_def host_ok_def refs_ok_def make_replication_def make_host_def conn_def)
qed

lemma begin_serving_ok: "srv_ok d \<Longrightarrow> srv_ok (begin_serving now now' master d)"
  using replicaof_ok [of "sv_host d" "d_env d" "d_store d" now now']
  by (auto simp: begin_serving_def srv_ok_def env_ok_def split: option.split prod.split) (metis fst_conv snd_conv)+

lemma serving_ok: "serving se thr d \<Longrightarrow> srv_ok d"
proof (induction rule: serving.induct)
  case (start maxmemory policy d draws options maxclients now now' master)
  then have "srv_ok d" using reachable_inv [OF start(1)] make_rs_ok by (simp add: srv_ok_def)
  then show ?case by (rule begin_serving_ok)
next
  case (iteration d io running early sent d')
  from run_iteration_ok [OF no_cluster_fine hooks_fine_none iteration(4,2)] iteration(3) show ?case by simp
qed

definition sample_server :: server where
  "sample_server =
     \<lparr>d_store = make_store 0 kNoEviction,
      d_env = \<lparr>en_files = Map.empty, en_pers = make_persistence default_options,
               en_repl = \<lparr>rs_repl = make_replication (\<lambda>_. 0) \<lparr>ro_listening_port = 6380, ro_backlog_size = 16, ro_timeout = 60, ro_ping_period = 10\<rparr>,
                          rs_host = make_host 10\<rparr>, en_log = []\<rparr>,
      d_client = None\<rparr>"

text \<open>An iteration in which one client connects.\<close>

definition sample_iteration :: iter_io where
  "sample_iteration =
     \<lparr>it_gap = 0, it_events = [Listen [Accepted 7 True ''127.0.0.1:5000'', AcceptNone]], it_due = False,
      it_cron = undefined\<lparr>ct_link := undefined\<lparr>ki_connect := None\<rparr>\<rparr>, it_resume = undefined, it_sleep = undefined,
      it_flush = undefined, it_close = undefined\<rparr>"

definition sample_connected :: server where
  "sample_connected = on_host (\<lambda>h. change 7 (\<lambda>c. c\<lparr>c_addr := ''127.0.0.1:5000''\<rparr>) (add_client 7 h)) sample_server"

lemma sample_fresh: "iteration_fresh se None no_cluster 100 sample_iteration sample_server"
  by (simp add: iteration_fresh_def sample_iteration_def event_fresh_def fresh_def sample_server_def make_host_def conn_def
      make_replication_def handle_event_def link_fresh_def)

lemma sample_runs: "run_iteration se None no_cluster 100 sample_iteration sample_server = Some (True, [], [], sample_connected)"
proof -
  have e: "handle_events se None no_cluster (it_events sample_iteration) sample_server = Some (True, [], sample_connected)"
    by (simp add: sample_iteration_def handle_event_def sample_connected_def) (simp add: sample_server_def make_host_def on_host_def on_rstate_def on_env_def)
  have c: "rp_to_resume (sv_repl sample_connected) = []" "\<not> rp_get_ack_pending (sv_repl sample_connected)" "rp_waiters (sv_repl sample_connected) = []"
    "\<not> ho_resume_held (sv_host sample_connected)" "pe_aof (en_pers (d_env sample_connected)) = None"
    "ho_pending_writes (sv_host sample_connected) = []" "ho_pending_close (sv_host sample_connected) = []"
    by (simp_all add: sample_connected_def on_host_def on_rstate_def on_env_def sample_server_def make_replication_def make_host_def
        make_persistence_def add_client_def put_conn_def change_def conn_def split: option.split)
  have "on_rstate (repl_upd (\<lambda>r. r\<lparr>rp_to_resume := []\<rparr>)) sample_connected = sample_connected" "on_rstate request_acks sample_connected = sample_connected"
    "on_env (\<lambda>e. e\<lparr>en_files := en_files (d_env sample_connected), en_pers := en_pers (d_env sample_connected)\<rparr>) sample_connected = sample_connected"
    "on_rstate (\<lambda>_. en_repl (d_env sample_connected)) sample_connected = sample_connected"
    "request_acks (en_repl (d_env sample_connected)) = en_repl (d_env sample_connected)"
    using c by (simp_all add: on_rstate_def on_env_def request_acks_def)
  then show ?thesis
    using c by (simp add: run_iteration_def e bind.simps) (simp add: sample_iteration_def before_sleep_hook_def no_cluster_def
        repl_before_sleep_def unblock_waiters_def before_sleep_def flush_pending_writes_def close_pending_def, simp add: on_rstate_def on_env_def)
qed

lemma sample_serving: "serving se 100 sample_server" "serving se 100 sample_connected"
proof -
  have "reachable 0 kNoEviction (d_store sample_server)" by (simp add: sample_server_def reachable.init)
  from serving.start [OF this, of _ _ _ se 100 0 0 None] show 1: "serving se 100 sample_server"
    by (simp add: sample_server_def begin_serving_def)
  from serving.iteration [OF this sample_fresh sample_runs] show "serving se 100 sample_connected" .
qed

text \<open>
  C3: In every state the event loop reaches between iterations, whatever clients, master and
  replicas send and however sockets fail: descriptors of connections are distinct; the queues for
  closing and writing hold exactly the connections flagged for it, once each; every client that is
  held, waits in WAIT or is to be resumed is connected; the list of replicas holds exactly the
  connections that replicate; the master, if there is one, is a connection marked as such, and the
  socket in handshake is not a connection. So no pointer to a client outlives it.
\<close>

theorem no_dangling_clients:
  assumes "serving se thr d"
  shows "distinct (map fst (ho_conns (sv_host d))) \<and>
    distinct (ho_pending_close (sv_host d)) \<and>
    (\<forall>fd. fd \<in> set (ho_pending_close (sv_host d)) \<longleftrightarrow> (\<exists>c. conn (sv_host d) fd = Some c \<and> c_closing c)) \<and>
    distinct (ho_pending_writes (sv_host d)) \<and>
    (\<forall>fd. fd \<in> set (ho_pending_writes (sv_host d)) \<longleftrightarrow> (\<exists>c. conn (sv_host d) fd = Some c \<and> c_pending_write c)) \<and>
    (\<forall>fd \<in> set (ho_held_clients (sv_host d)). conn (sv_host d) fd \<noteq> None) \<and>
    (\<forall>w \<in> set (rp_waiters (sv_repl d)). conn (sv_host d) (wt_client w) \<noteq> None) \<and>
    (\<forall>fd \<in> set (rp_to_resume (sv_repl d)). conn (sv_host d) fd \<noteq> None) \<and>
    distinct (rp_replicas (sv_repl d)) \<and>
    (\<forall>fd. fd \<in> set (rp_replicas (sv_repl d)) \<longleftrightarrow> (\<exists>c. conn (sv_host d) fd = Some c \<and> c_repl_state c \<noteq> kNone)) \<and>
    (\<forall>fd. rp_master (sv_repl d) = Some fd \<longrightarrow> (\<exists>c. conn (sv_host d) fd = Some c \<and> c_is_master c)) \<and>
    (\<forall>fd. rp_link_fd (sv_repl d) = Some fd \<longrightarrow> conn (sv_host d) fd = None)"
  using serving_ok [OF assms] unfolding srv_ok_def rs_ok_def host_ok_def refs_ok_def by (elim conjE) (intro conjI; assumption)

theorem no_dangling_clients_witness:
  "conn (sv_host sample_connected) 7 \<noteq> None \<and> 7 \<notin> set (rp_replicas (sv_repl sample_connected))"
proof -
  have "conn (sv_host sample_connected) 7 = Some c \<Longrightarrow> c_repl_state c = kNone" for c
    by (auto simp: sample_connected_def make_client_def)
  then show ?thesis using no_dangling_clients [OF sample_serving(2)] by (simp add: sample_connected_def)
qed



end
