(* ===== verification/Spec2Isabelle.thy ===== *)
theory Spec2Isabelle
  imports Snapshot_Properties Repl_Backlog Cluster_Msg Durability Event_Loop
begin

text \<open>
  \<^bold>\<open>A verification development for EpochKV\<close>, a Redis-compatible key-value server in C++
  (\<^verbatim>\<open>src/include\<close>, \<^verbatim>\<open>src/src\<close>).

  \<^bold>\<open>The program.\<close> One thread runs an epoll loop (\<^verbatim>\<open>server.cpp\<close>). It reads bytes of clients into an
  incremental RESP parser (\<^verbatim>\<open>resp_parser.cpp\<close>); the command dispatcher
  (\<^verbatim>\<open>command_dispatcher.cpp\<close>) checks each command and executes it on the store (\<^verbatim>\<open>store.cpp\<close>: two
  incrementally resized hash tables, an exact LRU list, an index of the keys of each hash slot);
  replies are appended to the client's buffer (\<^verbatim>\<open>reply.cpp\<close>). Every change of the dataset is
  propagated as a command to the append-only file (\<^verbatim>\<open>aof.cpp\<close>) and to the replicas
  (\<^verbatim>\<open>replication.cpp\<close>, with a circular backlog in \<^verbatim>\<open>repl_backlog.cpp\<close>); snapshots
  (\<^verbatim>\<open>snapshot.cpp\<close>) are written by a child process, and \<^verbatim>\<open>persistence.cpp\<close> decides when.
  \<^verbatim>\<open>kv_server.cpp\<close> reads the command line and wires the parts together. In cluster mode nodes talk
  over a bus (\<^verbatim>\<open>cluster_msg.cpp\<close>, \<^verbatim>\<open>cluster.cpp\<close>).

  \<^bold>\<open>Theories and what they model.\<close>
  \<^item> \<open>Prelude\<close>, \<open>Std_Lib\<close>: the machine types and the parts of the C++ library that are used
    (\<^verbatim>\<open>std::to_string\<close>, \<^verbatim>\<open>from_chars\<close>, stream extraction, string search).
  \<^item> \<open>Hash_Table\<close>: \<^verbatim>\<open>hash_table.hpp\<close>. A table is its two bucket arrays, the rehash index and the
    entry count; the resize steps each call takes are part of the call.
  \<^item> \<open>Cluster_Slot\<close>: \<^verbatim>\<open>cluster_slot.cpp\<close>, CRC16 and hash tags.
  \<^item> \<open>Store\<close>: \<^verbatim>\<open>store.cpp\<close>, with list nodes and the iterators that entries hold as explicit node
    numbers. \<open>Store_Refinement\<close> has the abstract keyspace and the invariant, \<open>Store_Properties\<close> the
    specification of every call as a step and reachability.
  \<^item> \<open>Resp\<close>: \<^verbatim>\<open>reply.cpp\<close> and \<^verbatim>\<open>resp_parser.cpp\<close>.
  \<^item> \<open>Repl_Backlog\<close>: \<^verbatim>\<open>repl_backlog.cpp\<close>, offsets being 64-bit words.
  \<^item> \<open>File_Util\<close>, \<open>Snapshot_Codec\<close>, \<open>Snapshot\<close>, \<open>Snapshot_Properties\<close>: \<^verbatim>\<open>file_util.cpp\<close> and
    \<^verbatim>\<open>snapshot.cpp\<close>; every \<^verbatim>\<open>write\<close> and \<^verbatim>\<open>read\<close> may be partial or fail.
  \<^item> \<open>Cluster_Msg\<close>: \<^verbatim>\<open>cluster_msg.cpp\<close>.
  \<^item> \<open>Client\<close>, \<open>Migrate\<close>, \<open>Dispatcher\<close>: \<^verbatim>\<open>client.hpp\<close>, \<^verbatim>\<open>migrate.cpp\<close> and
    \<^verbatim>\<open>command_dispatcher.cpp\<close>. The dispatcher reaches the other components through a record of
    operations on a state \<open>'e\<close>, as the code does through pointers that may be null.
    \<open>Dispatcher_Properties\<close> states the contract of these components as the locale \<open>dispatch_inv\<close>.
  \<^item> \<open>Replay\<close>: the meaning of the propagated commands on keyspaces, and that a command's part of
    the log means what the command did. Its locale \<open>command_log\<close> is the contract of the log.
  \<^item> \<open>Aof\<close>, \<open>Aof_Properties\<close>, \<open>Persistence\<close>: \<^verbatim>\<open>aof.cpp\<close>, \<^verbatim>\<open>persistence.cpp\<close>. Files are a
    map from paths to contents; the background fsync thread is its busy flag and last result.
  \<^item> \<open>Kv_Server\<close>: \<^verbatim>\<open>kv_server.cpp\<close>, the command line and the wiring (\<open>wire\<close>). \<open>Durability\<close>
    interprets \<open>command_log\<close> on it.
  \<^item> \<open>Client_Host\<close>, \<open>Replication\<close>, \<open>Server\<close>: the connections, \<^verbatim>\<open>replication.cpp\<close> and the loop of
    \<^verbatim>\<open>server.cpp\<close>. Pointers to clients are file descriptors. \<open>run_iteration\<close> is one pass of the
    loop. \<open>Server_Properties\<close> interprets \<open>dispatch_inv\<close> on the wired server; \<open>Event_Loop\<close> is about
    whole iterations.

  \<^bold>\<open>Conventions.\<close> Byte strings are \<^typ>\<open>string\<close>, fixed-width integers are words or carry their
  wrap-around explicitly. The clock readings, random draws and the outcomes of system calls are
  arguments of the operations, so a theorem holds for all of them. \<^verbatim>\<open>strerror\<close> is the parameter
  \<open>se\<close>. An error is a value; \<^const>\<open>None\<close> of a partial operation is the exit of the process or, for
  loops that are bounded by a deadline only, the end of the given list of clock readings.

  \<^bold>\<open>What is shown.\<close>
  \<^item> The hash table implements a finite map through all phases of its resizes, and resizes end.
  \<^item> The store implements a keyspace with expiry, LRU order and memory accounting; its counters and
    indexes are exact; eviction is minimal.
  \<^item> The parser inverts the encoder whatever the chunking; lengths are exact at 64 bits.
  \<^item> Snapshots, DUMP payloads and bus messages round-trip; corrupted bytes are refused; a save is
    all or nothing.
  \<^item> The backlog serves exactly the suffix of the stream it holds.
  \<^item> The append-only file replays what was fed to it after any failures; the whole server, stopped
    at any moment, restarts with the keyspace its recorded commands describe.
  \<^item> Every command returns and keeps the invariants of the store, the replication and the
    connections: the loops of the event loop end, and no descriptor is left dangling.

  \<^bold>\<open>Bounds.\<close> Recursions are structural or have termination proofs. The loops of the backlog and of
  a client's input are partial functions proved to return. There is no fuel.

  \<^bold>\<open>Not modelled.\<close> \<^verbatim>\<open>cluster.cpp\<close> (gossip, elections, slot migration): the dispatcher and the loop
  call it through records of operations, which are \<^const>\<open>None\<close> when cluster mode is off.
  Creating sockets and epoll itself, \<^verbatim>\<open>getaddrinfo\<close>/\<^verbatim>\<open>connect\<close>/\<^verbatim>\<open>poll\<close>, \<^verbatim>\<open>fork\<close> and the
  fsync thread are calls of the system whose outcomes are arguments. Log lines are left out.
\<close>

end
